(* ===== verification/Autopilot_Prelude.thy ===== *)
theory Autopilot_Prelude
  imports Main
begin

text \<open>
  What every other theory of the development uses: the monad in which the Go code is
  written down, the log, and the loop combinators.

  A Go function that touches the outside world becomes a function from the world to a
  result and the world afterwards. The result is either a value or the way in which the
  process ended: \<open>logg.Fatal\<close> (which calls \<open>os.Exit(1)\<close>), a run-time panic, or \<open>os.Exit\<close> with
  a status. There is no recover() anywhere in the program, so each ends everything that follows.
\<close>

section \<open>Results, worlds and the log\<close>

datatype exit = Fatal string | Panic string | Exited nat

text \<open>\<open>LPlain\<close> marks what goes to the standard logger, \<open>LRaw\<close> what is written to stdout as it is.\<close>

datatype level = LInfo | LError | LFatal | LPlain | LRaw

type_synonym log_line = "level \<times> string"

type_synonym ('w, 'a) io = "'w \<Rightarrow> (exit + 'a) \<times> 'w"

text \<open>
  The world has three parts: what the kernel and the other processes hold (any type, it is
  changed only by the functions of the record \<open>host\<close> of theory \<open>Command\<close>), the log
  written so far, oldest line first, and the private state of the implementation of
  \<open>os.Interface\<close> (for production, the fields of \<open>struct Linux\<close>).
\<close>

record ('k, 's) world =
  kern :: 'k
  logs :: "log_line list"
  osst :: 's

definition ret :: "'a \<Rightarrow> ('w, 'a) io" where
  "ret x = (\<lambda>w. (Inr x, w))"

definition exitM :: "exit \<Rightarrow> ('w, 'a) io" where
  "exitM e = (\<lambda>w. (Inl e, w))"

definition bindM :: "('w, 'a) io \<Rightarrow> ('a \<Rightarrow> ('w, 'b) io) \<Rightarrow> ('w, 'b) io" where
  "bindM m f = (\<lambda>w. case m w of (Inl e, w') \<Rightarrow> (Inl e, w') | (Inr x, w') \<Rightarrow> f x w')"

definition thenM :: "('w, 'a) io \<Rightarrow> ('w, 'b) io \<Rightarrow> ('w, 'b) io" where
  "thenM m n = bindM m (\<lambda>_. n)"

definition whenM :: "bool \<Rightarrow> ('w, unit) io \<Rightarrow> ('w, unit) io" where
  "whenM b m = (if b then m else ret ())"

text \<open>A call into the kernel: it sees and changes the kernel's part of the world only.\<close>

definition sysM :: "('k \<Rightarrow> 'a \<times> 'k) \<Rightarrow> (('k, 's) world, 'a) io" where
  "sysM f = (\<lambda>w. case f (kern w) of (x, k) \<Rightarrow> (Inr x, w\<lparr>kern := k\<rparr>))"

definition logM :: "level \<Rightarrow> string \<Rightarrow> (('k, 's) world, unit) io" where
  "logM l msg = (\<lambda>w. (Inr (), w\<lparr>logs := logs w @ [(l, msg)]\<rparr>))"

definition get_os :: "(('k, 's) world, 's) io" where
  "get_os = (\<lambda>w. (Inr (osst w), w))"

definition put_os :: "'s \<Rightarrow> (('k, 's) world, unit) io" where
  "put_os s = (\<lambda>w. (Inr (), w\<lparr>osst := s\<rparr>))"

text \<open>\<open>logg.Info\<close>, \<open>logg.Error\<close> and \<open>logg.Fatal\<close>; the last one ends the process.\<close>

abbreviation log_info :: "string \<Rightarrow> (('k, 's) world, unit) io" where
  "log_info \<equiv> logM LInfo"

abbreviation log_error :: "string \<Rightarrow> (('k, 's) world, unit) io" where
  "log_error \<equiv> logM LError"

definition log_fatal :: "string \<Rightarrow> (('k, 's) world, 'a) io" where
  "log_fatal msg = thenM (logM LFatal msg) (exitM (Fatal msg))"

section \<open>Loops\<close>

text \<open>\<open>for _, x := range xs\<close> over a body that may end the process.\<close>

primrec forM :: "'a list \<Rightarrow> ('a \<Rightarrow> ('w, unit) io) \<Rightarrow> ('w, unit) io" where
  "forM [] f = ret ()"
| "forM (x # xs) f = thenM (f x) (forM xs f)"

text \<open>A loop whose body returns false to leave the loop with false.\<close>

primrec all_okM :: "'a list \<Rightarrow> ('a \<Rightarrow> ('w, bool) io) \<Rightarrow> ('w, bool) io" where
  "all_okM [] f = ret True"
| "all_okM (x # xs) f = bindM (f x) (\<lambda>ok. if ok then all_okM xs f else ret False)"

text \<open>A loop that carries local variables.\<close>

primrec foldM :: "'a list \<Rightarrow> ('a \<Rightarrow> 'v \<Rightarrow> ('w, 'v) io) \<Rightarrow> 'v \<Rightarrow> ('w, 'v) io" where
  "foldM [] f v = ret v"
| "foldM (x # xs) f v = bindM (f x v) (\<lambda>v'. foldM xs f v')"

text \<open>A loop that replaces the elements of a list one after the other.\<close>

primrec mapM :: "('a \<Rightarrow> ('w, 'b) io) \<Rightarrow> 'a list \<Rightarrow> ('w, 'b list) io" where
  "mapM f [] = ret []"
| "mapM f (x # xs) = bindM (f x) (\<lambda>y. bindM (mapM f xs) (\<lambda>ys. ret (y # ys)))"

text \<open>A loop that replaces the first element with \<open>P\<close> and leaves.\<close>

primrec update_firstM :: "('a \<Rightarrow> bool) \<Rightarrow> ('a \<Rightarrow> ('w, 'a) io) \<Rightarrow> 'a list \<Rightarrow> ('w, 'a list) io" where
  "update_firstM P f [] = ret []"
| "update_firstM P f (x # xs) =
     (if P x then bindM (f x) (\<lambda>y. ret (y # xs))
      else bindM (update_firstM P f xs) (\<lambda>ys. ret (x # ys)))"

section \<open>Evaluation and the monad laws\<close>

named_theorems io_simps \<open>running the monad on a world\<close>

lemma ret_run [io_simps, simp]: "ret x w = (Inr x, w)"
  by (simp add: ret_def)

lemma exitM_run [io_simps, simp]: "exitM e w = (Inl e, w)"
  by (simp add: exitM_def)

lemma logM_run [io_simps, simp]: "logM l msg w = (Inr (), w\<lparr>logs := logs w @ [(l, msg)]\<rparr>)"
  by (simp add: logM_def)

lemma get_os_run [io_simps, simp]: "get_os w = (Inr (osst w), w)"
  by (simp add: get_os_def)

lemma put_os_run [io_simps, simp]: "put_os s w = (Inr (), w\<lparr>osst := s\<rparr>)"
  by (simp add: put_os_def)

lemma log_fatal_run [io_simps, simp]:
  "log_fatal msg w = (Inl (Fatal msg), w\<lparr>logs := logs w @ [(LFatal, msg)]\<rparr>)"
  by (simp add: log_fatal_def thenM_def bindM_def)

lemma bindM_Inr: "m w = (Inr x, w') \<Longrightarrow> bindM m f w = f x w'"
  by (simp add: bindM_def)

lemma bindM_Inl: "m w = (Inl e, w') \<Longrightarrow> bindM m f w = (Inl e, w')"
  by (simp add: bindM_def)

lemma bindM_ret [simp]: "bindM (ret x) f = f x"
  by (simp add: bindM_def ret_def)

lemma bindM_exitM [simp]: "bindM (exitM e) f = exitM e"
  by (simp add: bindM_def exitM_def)

lemma bindM_assoc: "bindM (bindM m f) g = bindM m (\<lambda>x. bindM (f x) g)"
  by (auto simp: bindM_def fun_eq_iff split: prod.splits sum.splits)

lemma bindM_InrE:
  assumes "bindM m f w = (Inr y, w'')"
  obtains x w' where "m w = (Inr x, w')" and "f x w' = (Inr y, w'')"
  using assms by (auto simp: bindM_def split: prod.splits sum.splits)

lemma thenM_InrE:
  assumes "thenM m n w = (Inr y, w'')"
  obtains x w' where "m w = (Inr x, w')" and "n w' = (Inr y, w'')"
  using assms by (auto simp: thenM_def elim: bindM_InrE)

lemma bindM_cong:
  assumes "m = m'" and "\<And>x. f x = f' x"
  shows "bindM m f = bindM m' f'"
proof -
  from assms(2) have "f = f'" by (rule ext)
  with assms(1) show ?thesis by simp
qed

lemmas io_defs = bindM_def thenM_def whenM_def sysM_def

section \<open>Hoare triples\<close>

text \<open>
  \<open>hoare P m Q\<close>: started where \<open>P\<close> holds, a run of \<open>m\<close> that returns does so with a
  value and a world that satisfy \<open>Q\<close>. \<open>keeps I m\<close>: \<open>m\<close> keeps \<open>I\<close>, whether it returns or
  ends the process.
\<close>

definition hoare :: "('w \<Rightarrow> bool) \<Rightarrow> ('w, 'a) io \<Rightarrow> ('a \<Rightarrow> 'w \<Rightarrow> bool) \<Rightarrow> bool" where
  "hoare P m Q \<longleftrightarrow> (\<forall>w x w'. P w \<longrightarrow> m w = (Inr x, w') \<longrightarrow> Q x w')"

definition keeps :: "('w \<Rightarrow> bool) \<Rightarrow> ('w, 'a) io \<Rightarrow> bool" where
  "keeps I m \<longleftrightarrow> (\<forall>w. I w \<longrightarrow> I (snd (m w)))"

text \<open>\<open>returns m\<close>: no world makes \<open>m\<close> end the process.\<close>

definition returns :: "('w, 'a) io \<Rightarrow> bool" where
  "returns m \<longleftrightarrow> (\<forall>w. \<exists>x w'. m w = (Inr x, w'))"

named_theorems keeps_intros \<open>introduction rules for keeps\<close>
named_theorems returns_intros \<open>introduction rules for returns\<close>

lemma hoareI: "(\<And>w x w'. P w \<Longrightarrow> m w = (Inr x, w') \<Longrightarrow> Q x w') \<Longrightarrow> hoare P m Q"
  by (auto simp: hoare_def)

lemma hoareD: "hoare P m Q \<Longrightarrow> P w \<Longrightarrow> m w = (Inr x, w') \<Longrightarrow> Q x w'"
  by (auto simp: hoare_def)

lemma hoare_bindM:
  assumes "hoare P m R" and "\<And>x. hoare (R x) (f x) Q"
  shows "hoare P (bindM m f) Q"
  using assms by (fastforce simp: hoare_def elim!: bindM_InrE)

lemma keepsD: "keeps I m \<Longrightarrow> I w \<Longrightarrow> m w = (r, w') \<Longrightarrow> I w'"
  by (auto simp: keeps_def dest!: spec [of _ w])

lemma keeps_ret [keeps_intros]: "keeps I (ret x)"
  by (simp add: keeps_def)

text \<open>The same for \<open>ret x\<close> after the simplifier has evaluated it below a lambda.\<close>

lemma keeps_Pair [keeps_intros]: "keeps I (Pair (Inr x))"
  by (simp add: keeps_def)

lemma keeps_exitM [keeps_intros]: "keeps I (exitM e)"
  by (simp add: keeps_def)

lemma keeps_bindM [keeps_intros]:
  assumes "keeps I m" and "\<And>x. keeps I (f x)"
  shows "keeps I (bindM m f)"
  unfolding keeps_def
proof (intro allI impI)
  fix w assume "I w"
  obtain r w' where m: "m w = (r, w')" by fastforce
  with assms(1) \<open>I w\<close> have "I w'" by (auto dest: keepsD)
  with m assms(2) show "I (snd (bindM m f w))"
    by (cases r) (auto simp: bindM_def keeps_def)
qed

lemma keeps_thenM [keeps_intros]: "keeps I m \<Longrightarrow> keeps I n \<Longrightarrow> keeps I (thenM m n)"
  by (auto simp: thenM_def intro: keeps_intros)

lemma keeps_whenM [keeps_intros]: "(b \<Longrightarrow> keeps I m) \<Longrightarrow> keeps I (whenM b m)"
  by (auto simp: whenM_def intro: keeps_intros)

lemma keeps_if [keeps_intros]:
  "(b \<Longrightarrow> keeps I m) \<Longrightarrow> (\<not> b \<Longrightarrow> keeps I n) \<Longrightarrow> keeps I (if b then m else n)"
  by auto

lemma keeps_forM [keeps_intros]: "(\<And>x. x \<in> set xs \<Longrightarrow> keeps I (f x)) \<Longrightarrow> keeps I (forM xs f)"
  by (induction xs) (auto intro: keeps_intros)

lemma keeps_all_okM [keeps_intros]:
  "(\<And>x. x \<in> set xs \<Longrightarrow> keeps I (f x)) \<Longrightarrow> keeps I (all_okM xs f)"
  by (induction xs) (auto intro!: keeps_intros)

lemma keeps_foldM [keeps_intros]:
  "(\<And>x v. x \<in> set xs \<Longrightarrow> keeps I (f x v)) \<Longrightarrow> keeps I (foldM xs f v)"
  by (induction xs arbitrary: v) (auto intro!: keeps_intros)

lemma keeps_osst_logM [keeps_intros]: "keeps (\<lambda>w. P (osst w)) (logM l msg)"
  by (simp add: keeps_def)

lemma keeps_osst_log_fatal [keeps_intros]: "keeps (\<lambda>w. P (osst w)) (log_fatal msg)"
  by (simp add: keeps_def)

lemma keeps_osst_sysM [keeps_intros]: "keeps (\<lambda>w. P (osst w)) (sysM f)"
  by (simp add: keeps_def sysM_def split: prod.splits)

lemma keeps_osst_get_os [keeps_intros]: "keeps (\<lambda>w. P (osst w)) get_os"
  by (simp add: keeps_def)

lemma returns_ret [returns_intros]: "returns (ret x)"
  by (simp add: returns_def)

lemma returns_Pair [returns_intros]: "returns (Pair (Inr x))"
  by (simp add: returns_def)

lemma returns_logM [returns_intros]: "returns (logM l msg)"
  by (simp add: returns_def)

lemma returns_sysM [returns_intros]: "returns (sysM f)"
  by (simp add: returns_def sysM_def split: prod.splits)

lemma returns_get_os [returns_intros]: "returns get_os"
  by (simp add: returns_def)

lemma returns_put_os [returns_intros]: "returns (put_os s)"
  by (simp add: returns_def)

lemma returns_bindM [returns_intros]: "returns m \<Longrightarrow> (\<And>x. returns (f x)) \<Longrightarrow> returns (bindM m f)"
  unfolding returns_def by (metis bindM_Inr)

lemma returns_thenM [returns_intros]: "returns m \<Longrightarrow> returns n \<Longrightarrow> returns (thenM m n)"
  by (auto simp: thenM_def intro: returns_intros)

lemma returns_whenM [returns_intros]: "returns m \<Longrightarrow> returns (whenM b m)"
  by (auto simp: whenM_def intro: returns_intros)

lemma returns_if [returns_intros]:
  "(b \<Longrightarrow> returns m) \<Longrightarrow> (\<not> b \<Longrightarrow> returns n) \<Longrightarrow> returns (if b then m else n)"
  by auto

lemma returns_forM [returns_intros]: "(\<And>x. x \<in> set xs \<Longrightarrow> returns (f x)) \<Longrightarrow> returns (forM xs f)"
  by (induction xs) (auto intro: returns_intros)

lemma returns_all_okM [returns_intros]:
  "(\<And>x. x \<in> set xs \<Longrightarrow> returns (f x)) \<Longrightarrow> returns (all_okM xs f)"
  by (induction xs) (auto intro!: returns_intros)

lemma returns_foldM [returns_intros]:
  "(\<And>x v. x \<in> set xs \<Longrightarrow> returns (f x v)) \<Longrightarrow> returns (foldM xs f v)"
  by (induction xs arbitrary: v) (auto intro!: returns_intros)

lemma returns_mapM [returns_intros]: "(\<And>x. x \<in> set xs \<Longrightarrow> returns (f x)) \<Longrightarrow> returns (mapM f xs)"
  by (induction xs) (auto intro!: returns_intros)

lemma returnsE:
  assumes "returns m" obtains x w' where "m w = (Inr x, w')"
  using assms unfolding returns_def by blast

text \<open>
  Total correctness under an invariant: from a world with \<open>I\<close>, \<open>m\<close> returns a value with
  \<open>Q\<close> and keeps \<open>I\<close>.
\<close>

definition safe :: "('w \<Rightarrow> bool) \<Rightarrow> ('w, 'a) io \<Rightarrow> ('a \<Rightarrow> bool) \<Rightarrow> bool" where
  "safe I m Q \<longleftrightarrow> (\<forall>w. I w \<longrightarrow> (\<exists>x w'. m w = (Inr x, w') \<and> I w' \<and> Q x))"

lemma safeI: "(\<And>w. I w \<Longrightarrow> \<exists>x w'. m w = (Inr x, w') \<and> I w' \<and> Q x) \<Longrightarrow> safe I m Q"
  by (auto simp: safe_def)

lemma safeE:
  assumes "safe I m Q" and "I w"
  obtains x w' where "m w = (Inr x, w')" and "I w'" and "Q x"
  using assms unfolding safe_def by blast

lemma safe_ret: "Q x \<Longrightarrow> safe I (ret x) Q"
  by (simp add: safe_def)

lemma safe_Pair: "Q x \<Longrightarrow> safe I (Pair (Inr x)) Q"
  by (simp add: safe_def)

lemma safe_bindM:
  assumes "safe I m R" and "\<And>x. R x \<Longrightarrow> safe I (f x) Q"
  shows "safe I (bindM m f) Q"
proof (rule safeI)
  fix w assume "I w"
  with assms(1) obtain x w' where m: "m w = (Inr x, w')" "I w'" "R x" by (rule safeE)
  from assms(2) [OF m(3)] m(2) obtain y w'' where "f x w' = (Inr y, w'')" "I w''" "Q y" by (rule safeE)
  with m show "\<exists>x w'. bindM m f w = (Inr x, w') \<and> I w' \<and> Q x" by (simp add: bindM_def)
qed

lemma safe_thenM: "safe I m (\<lambda>_. True) \<Longrightarrow> safe I n Q \<Longrightarrow> safe I (thenM m n) Q"
  unfolding thenM_def by (rule safe_bindM)

lemma safe_conseq: "safe I m R \<Longrightarrow> (\<And>x. R x \<Longrightarrow> Q x) \<Longrightarrow> safe I m Q"
  unfolding safe_def by blast

lemma safe_val: "safe I m R \<Longrightarrow> (\<And>w x w'. m w = (Inr x, w') \<Longrightarrow> Q x) \<Longrightarrow> safe I m Q"
  unfolding safe_def by blast

lemma safe_if: "(b \<Longrightarrow> safe I m Q) \<Longrightarrow> (\<not> b \<Longrightarrow> safe I n Q) \<Longrightarrow> safe I (if b then m else n) Q"
  by auto

lemma safe_forM: "(\<And>x. x \<in> set xs \<Longrightarrow> safe I (f x) (\<lambda>_. True)) \<Longrightarrow> safe I (forM xs f) (\<lambda>_. True)"
  by (induction xs) (auto intro: safe_ret safe_Pair safe_thenM)

lemma safe_all_okM:
  "(\<And>x. x \<in> set xs \<Longrightarrow> safe I (f x) (\<lambda>_. True)) \<Longrightarrow> safe I (all_okM xs f) (\<lambda>_. True)"
  by (induction xs) (auto intro!: safe_ret safe_Pair safe_bindM safe_if)

lemma safe_foldM:
  assumes "\<And>x v. x \<in> set xs \<Longrightarrow> P v \<Longrightarrow> safe I (f x v) P" and "P v"
  shows "safe I (foldM xs f v) P"
  using assms
proof (induction xs arbitrary: v)
  case (Cons x xs)
  have "safe I (f x v) P" using Cons.prems by simp
  then show ?case
    unfolding foldM.simps by (rule safe_bindM) (rule Cons.IH, simp_all add: Cons.prems)
qed (simp add: safe_ret)

text \<open>A loop over the indices \<open>m..n-1\<close> with an invariant that depends on the index.\<close>

lemma foldM_upt:
  assumes step: "\<And>k v w. k < n \<Longrightarrow> I k v w \<Longrightarrow> \<exists>v' w'. f k v w = (Inr v', w') \<and> I (Suc k) v' w'"
    and "m \<le> n" and "I m v w"
  shows "\<exists>v' w'. foldM [m..<n] f v w = (Inr v', w') \<and> I n v' w'"
  using assms(2,3)
proof (induction "n - m" arbitrary: m v w)
  case 0
  then show ?case by simp
next
  case (Suc d)
  then have m: "m < n" by simp
  from step [OF m Suc.prems(2)] obtain v1 w1 where f: "f m v w = (Inr v1, w1)" "I (Suc m) v1 w1"
    by blast
  have "d = n - Suc m" using Suc.hyps(2) by simp
  from Suc.hyps(1) [OF this _ f(2)] m f(1) show ?case
    by (simp add: upt_conv_Cons bindM_Inr)
qed

text \<open>The same for an invariant of the runs that return.\<close>

lemma foldM_keeps_value:
  assumes "foldM xs f v w = (Inr v', w')" and "P v"
    and "\<And>x v w v' w'. x \<in> set xs \<Longrightarrow> f x v w = (Inr v', w') \<Longrightarrow> P v \<Longrightarrow> P v'"
  shows "P v'"
  using assms
proof (induction xs arbitrary: v w)
  case Nil
  then show ?case by simp
next
  case (Cons x xs)
  from Cons.prems(1) obtain v1 w1 where "f x v w = (Inr v1, w1)" "foldM xs f v1 w1 = (Inr v', w')"
    by (auto elim: bindM_InrE)
  with Cons show ?case by (metis list.set_intros(1,2))
qed

lemma safe_mapM:
  assumes "\<And>x. x \<in> set xs \<Longrightarrow> safe I (f x) (Q x)"
  shows "safe I (mapM f xs) (\<lambda>ys. list_all2 Q xs ys)"
  using assms
proof (induction xs)
  case (Cons x xs)
  have "safe I (f x) (Q x)" "safe I (mapM f xs) (\<lambda>ys. list_all2 Q xs ys)"
    using Cons by simp_all
  then show ?case
    unfolding mapM.simps by (intro safe_bindM [of I "f x" "Q x"] safe_bindM [of I "mapM f xs"] safe_ret) auto
qed (simp add: safe_ret)

lemma mapM_length: "mapM f xs w = (Inr ys, w') \<Longrightarrow> length ys = length xs"
  by (induction xs arbitrary: ys w) (auto elim!: bindM_InrE)

lemma keeps_mapM [keeps_intros]: "(\<And>x. x \<in> set xs \<Longrightarrow> keeps I (f x)) \<Longrightarrow> keeps I (mapM f xs)"
  by (induction xs) (auto intro!: keeps_intros)

text \<open>What a loop over a list gives for each element, when a property of the state is kept.\<close>

lemma mapM_values:
  assumes "mapM f xs w = (Inr ys, w')"
    and "\<And>x w y w'. x \<in> set xs \<Longrightarrow> f x w = (Inr y, w') \<Longrightarrow> Q x y"
  shows "list_all2 Q xs ys"
  using assms
proof (induction xs arbitrary: ys w w')
  case (Cons x xs)
  from Cons.prems(1) obtain y w1 ys1 w2 where "f x w = (Inr y, w1)" "mapM f xs w1 = (Inr ys1, w2)" "ys = y # ys1"
    by (auto elim!: bindM_InrE)
  with Cons show ?case by auto
qed simp

lemma update_firstM_value:
  assumes "update_firstM P f xs w = (Inr ys, w')"
  shows "(\<forall>x \<in> set xs. \<not> P x) \<and> ys = xs \<and> w' = w \<or>
    (\<exists>as x bs y. xs = as @ x # bs \<and> (\<forall>a \<in> set as. \<not> P a) \<and> P x \<and>
       f x w = (Inr y, w') \<and> ys = as @ y # bs)"
  using assms
proof (induction xs arbitrary: ys)
  case Nil
  then show ?case by simp
next
  case (Cons x xs)
  show ?case
  proof (cases "P x")
    case True
    with Cons.prems obtain y where "f x w = (Inr y, w')" "ys = y # xs"
      by (auto elim!: bindM_InrE)
    with True show ?thesis
      by (intro disjI2 exI [of _ "[]"] exI [of _ x] exI [of _ xs] exI [of _ y]) simp
  next
    case False
    with Cons.prems obtain zs where z: "update_firstM P f xs w = (Inr zs, w')" "ys = x # zs"
      by (auto elim!: bindM_InrE)
    from Cons.IH [OF z(1)] show ?thesis
    proof (elim disjE exE conjE)
      assume "\<forall>x \<in> set xs. \<not> P x" "zs = xs" "w' = w"
      with False z(2) show ?thesis by simp
    next
      fix as x' bs y
      assume *: "xs = as @ x' # bs" "\<forall>a \<in> set as. \<not> P a" "P x'" "f x' w = (Inr y, w')" "zs = as @ y # bs"
      with False z(2) show ?thesis
        by (intro disjI2 exI [of _ "x # as"] exI [of _ x'] exI [of _ bs] exI [of _ y]) simp
    qed
  qed
qed

lemma list_all2_map_eq: "list_all2 R xs ys \<Longrightarrow> (\<And>x y. R x y \<Longrightarrow> g y = g x) \<Longrightarrow> map g ys = map g xs"
  by (induction rule: list_all2_induct) auto

section \<open>What holds of the runs that return\<close>

text \<open>\<open>yields I m Q\<close>: when \<open>m\<close> returns from a world with \<open>I\<close>, then in a world with \<open>I\<close> and with a
  value with \<open>Q\<close>; unlike \<open>safe\<close> it says nothing of runs that end the process.\<close>

definition yields :: "('w \<Rightarrow> bool) \<Rightarrow> ('w, 'a) io \<Rightarrow> ('a \<Rightarrow> bool) \<Rightarrow> bool" where
  "yields I m Q \<longleftrightarrow> (\<forall>w x w'. I w \<longrightarrow> m w = (Inr x, w') \<longrightarrow> I w' \<and> Q x)"

lemma yieldsI: "(\<And>w x w'. I w \<Longrightarrow> m w = (Inr x, w') \<Longrightarrow> I w' \<and> Q x) \<Longrightarrow> yields I m Q"
  unfolding yields_def by blast

lemma yieldsD: "yields I m Q \<Longrightarrow> m w = (Inr x, w') \<Longrightarrow> I w \<Longrightarrow> I w' \<and> Q x"
  unfolding yields_def by blast

lemma yields_bindM: "yields I m P \<Longrightarrow> (\<And>x. P x \<Longrightarrow> yields I (f x) Q) \<Longrightarrow> yields I (bindM m f) Q"
  unfolding yields_def by (metis bindM_InrE)

lemma yields_thenM: "yields I m (\<lambda>_. True) \<Longrightarrow> yields I n Q \<Longrightarrow> yields I (thenM m n) Q"
  unfolding thenM_def by (rule yields_bindM)

lemma yields_ret: "Q x \<Longrightarrow> yields I (ret x) Q"
  by (simp add: yields_def)

lemma yields_Pair: "Q x \<Longrightarrow> yields I (Pair (Inr x)) Q"
  by (simp add: yields_def)

lemma yields_exit: "yields I (Pair (Inl e)) Q" "yields I (exitM e) Q"
  by (simp_all add: yields_def)

lemma yields_conseq: "yields I m P \<Longrightarrow> (\<And>x. P x \<Longrightarrow> Q x) \<Longrightarrow> yields I m Q"
  unfolding yields_def by blast

lemma yields_val: "yields I m P \<Longrightarrow> (\<And>w x w'. m w = (Inr x, w') \<Longrightarrow> P x \<Longrightarrow> Q x) \<Longrightarrow> yields I m Q"
  unfolding yields_def by blast

lemma yields_if: "(b \<Longrightarrow> yields I m Q) \<Longrightarrow> (\<not> b \<Longrightarrow> yields I n Q) \<Longrightarrow> yields I (if b then m else n) Q"
  by simp

lemma yields_whenM: "(b \<Longrightarrow> yields I m (\<lambda>_. True)) \<Longrightarrow> yields I (whenM b m) (\<lambda>_. True)"
  by (simp add: whenM_def yields_ret yields_Pair)

lemma yields_option:
  "(x = None \<Longrightarrow> yields I m Q) \<Longrightarrow> (\<And>y. x = Some y \<Longrightarrow> yields I (f y) Q) \<Longrightarrow>
   yields I (case x of None \<Rightarrow> m | Some y \<Rightarrow> f y) Q"
  by (cases x) simp_all

lemma yields_all_okM:
  "(\<And>x. x \<in> set xs \<Longrightarrow> yields I (f x) (\<lambda>_. True)) \<Longrightarrow> yields I (all_okM xs f) (\<lambda>_. True)"
  by (induction xs) (auto intro!: yields_ret yields_Pair yields_bindM [where P = "\<lambda>_. True"])

end
