(* ===== verification/Lsblk.thy ===== *)
theory Lsblk
  imports Go_Strings
begin

text \<open>
  \<open>pkg/parsers/lsblk.go\<close>: the tree of block devices that \<open>lsblk -J\<close> reports and the two
  searches in it. A device whose type the program does not know makes \<open>devicePath\<close> panic,
  so the searches return either the panic or their result; nil pointers are \<open>None\<close>. (The
  panic's text is shortened: the Go code appends a dump of the device.)
\<close>

section \<open>The tree and the searches\<close>

datatype LsblkDevice =
  LsblkDevice (lsblk_Name: string) (MajorMinor: string) (Removable: bool) (Size: string)
    (ReadOnly: bool) (lsblk_Type: string) (lsblk_MountPoint: "string option")
    (Children: "LsblkDevice list")

definition lsblk_devicePath :: "LsblkDevice \<Rightarrow> exit + string" where
  "lsblk_devicePath d =
     (if lsblk_Type d = ''crypt'' \<or> lsblk_Type d = ''mpath''
      then Inr (''/dev/mapper/'' @ lsblk_Name d)
      else if lsblk_Type d = ''disk'' \<or> lsblk_Type d = ''part'' \<or> lsblk_Type d = ''rom''
        \<or> lsblk_Type d = ''loop''
      then Inr (''/dev/'' @ lsblk_Name d)
      else Inl (Panic ''do not know how to compute devicePath''))"

definition is_crypt_child :: "string \<Rightarrow> LsblkDevice \<Rightarrow> bool" where
  "is_crypt_child mappingName child \<longleftrightarrow>
     lsblk_Type child = ''crypt'' \<and> lsblk_Name child = mappingName"

fun findBackingDeviceForLUKSRecursively :: "LsblkDevice \<Rightarrow> string \<Rightarrow> exit + string option"
  and FindBackingDeviceForLUKS :: "LsblkDevice list \<Rightarrow> string \<Rightarrow> exit + string option" where
  "findBackingDeviceForLUKSRecursively (LsblkDevice n mm r s ro ty mp children) mappingName =
     (if list_ex (is_crypt_child mappingName) children
      then map_sum id Some (lsblk_devicePath (LsblkDevice n mm r s ro ty mp children))
      else FindBackingDeviceForLUKS children mappingName)"
| "FindBackingDeviceForLUKS [] mappingName = Inr None"
| "FindBackingDeviceForLUKS (dev # devs) mappingName =
     (case findBackingDeviceForLUKSRecursively dev mappingName of
        Inl e \<Rightarrow> Inl e
      | Inr (Some devPath) \<Rightarrow> Inr (Some devPath)
      | Inr None \<Rightarrow> FindBackingDeviceForLUKS devs mappingName)"

fun findDeviceByPath :: "LsblkDevice list \<Rightarrow> string \<Rightarrow> exit + LsblkDevice option" where
  "findDeviceByPath [] path = Inr None"
| "findDeviceByPath (LsblkDevice n mm r s ro ty mp children # devs) path =
     (case lsblk_devicePath (LsblkDevice n mm r s ro ty mp children) of
        Inl e \<Rightarrow> Inl e
      | Inr p \<Rightarrow>
          if p = path then Inr (Some (LsblkDevice n mm r s ro ty mp children))
          else (case findDeviceByPath children path of
                  Inl e \<Rightarrow> Inl e
                | Inr (Some d) \<Rightarrow> Inr (Some d)
                | Inr None \<Rightarrow> findDeviceByPath devs path))"

definition FindSerialNumberForDevice :: "LsblkDevice list \<Rightarrow> string \<Rightarrow> exit + string option" where
  "FindSerialNumberForDevice blockDevices path =
     (case findDeviceByPath blockDevices path of
        Inl e \<Rightarrow> Inl e
      | Inr None \<Rightarrow> Inr None
      | Inr (Some dev) \<Rightarrow>
          (case Children dev of
             [child] \<Rightarrow> if lsblk_Type child \<noteq> ''crypt'' then Inr None else Inr (Some (lsblk_Name child))
           | _ \<Rightarrow> Inr None))"

section \<open>The reference: all devices of the tree, parents before their children\<close>

fun preorder :: "LsblkDevice \<Rightarrow> LsblkDevice list"
  and preorders :: "LsblkDevice list \<Rightarrow> LsblkDevice list" where
  "preorder (LsblkDevice n mm r s ro ty mp children) =
     LsblkDevice n mm r s ro ty mp children # preorders children"
| "preorders [] = []"
| "preorders (d # ds) = preorder d @ preorders ds"

definition holds_mapping :: "string \<Rightarrow> LsblkDevice \<Rightarrow> bool" where
  "holds_mapping mappingName d \<longleftrightarrow> (\<exists>child \<in> set (Children d). is_crypt_child mappingName child)"

definition first_path :: "LsblkDevice option \<Rightarrow> exit + string option" where
  "first_path o1 = (case o1 of None \<Rightarrow> Inr None | Some d \<Rightarrow> map_sum id Some (lsblk_devicePath d))"

lemma find_append:
  "find P (xs @ ys) = (case find P xs of None \<Rightarrow> find P ys | Some x \<Rightarrow> Some x)"
  by (induction xs) auto

lemma map_Some_not_None [simp]: "map_sum id Some x \<noteq> Inr None"
  by (cases x) auto

lemma first_path_cases:
  "(case first_path o1 of Inl e \<Rightarrow> Inl e | Inr (Some p) \<Rightarrow> Inr (Some p) | Inr None \<Rightarrow> first_path o2)
   = first_path (case o1 of None \<Rightarrow> o2 | Some x \<Rightarrow> Some x)"
  by (auto simp: first_path_def split: option.splits sum.splits)

lemma FindBacking_preorder:
  "findBackingDeviceForLUKSRecursively d name = first_path (find (holds_mapping name) (preorder d))"
  "FindBackingDeviceForLUKS ds name = first_path (find (holds_mapping name) (preorders ds))"
proof (induction d name and ds name rule: findBackingDeviceForLUKSRecursively_FindBackingDeviceForLUKS.induct)
  case (1 n mm r s ro ty mp children name)
  then show ?case
    by (auto simp: holds_mapping_def list_ex_iff first_path_def)
next
  case (2 name)
  then show ?case by (simp add: first_path_def)
next
  case (3 dev devs name)
  have ih: "FindBackingDeviceForLUKS devs name = first_path (find (holds_mapping name) (preorders devs))"
    if "findBackingDeviceForLUKSRecursively dev name = Inr None"
    using 3 that by blast
  have "FindBackingDeviceForLUKS (dev # devs) name =
    (case first_path (find (holds_mapping name) (preorder dev)) of Inl e \<Rightarrow> Inl e
       | Inr (Some p) \<Rightarrow> Inr (Some p)
       | Inr None \<Rightarrow> first_path (find (holds_mapping name) (preorders devs)))"
    using ih 3 by (auto split: sum.splits option.splits)
  then show ?case by (simp add: first_path_cases find_append)
qed

text \<open>A device of the tree without a known type, met by a search that computes its path.\<close>

definition known_type :: "LsblkDevice \<Rightarrow> bool" where
  "known_type d \<longleftrightarrow> lsblk_Type d \<in> {''crypt'', ''mpath'', ''disk'', ''part'', ''rom'', ''loop''}"

lemma lsblk_devicePath_known: "known_type d \<longleftrightarrow> (\<exists>p. lsblk_devicePath d = Inr p)"
  by (auto simp: known_type_def lsblk_devicePath_def)

lemma findDeviceByPath_preorder:
  assumes "\<forall>d \<in> set (preorders ds). known_type d"
  shows "findDeviceByPath ds path = Inr (find (\<lambda>d. lsblk_devicePath d = Inr path) (preorders ds))"
  using assms
proof (induction ds path rule: findDeviceByPath.induct)
  case (2 n mm r s ro ty mp children devs path)
  let ?d = "LsblkDevice n mm r s ro ty mp children"
  from 2 obtain p where p: "lsblk_devicePath ?d = Inr p" by (auto simp: lsblk_devicePath_known)
  with 2 show ?case by (auto simp: find_append split: option.splits)
qed simp

section \<open>Properties\<close>

text \<open>C40: The searches for block devices go through the tree from parents to children. The
  backing device of a LUKS mapping is the first device in that order that has the mapping as
  a child of type crypt; when all devices have a known type, the device with a path is the
  first with that path, and no search panics.\<close>

theorem searches_in_tree_order:
  "FindBackingDeviceForLUKS ds name = first_path (find (holds_mapping name) (preorders ds)) \<and>
   (list_all known_type (preorders ds) \<longrightarrow>
      findDeviceByPath ds path = Inr (find (\<lambda>d. lsblk_devicePath d = Inr path) (preorders ds)) \<and>
      (\<exists>r. FindBackingDeviceForLUKS ds name = Inr r))"
proof (intro conjI impI)
  assume k: "list_all known_type (preorders ds)"
  then show "findDeviceByPath ds path = Inr (find (\<lambda>d. lsblk_devicePath d = Inr path) (preorders ds))"
    by (intro findDeviceByPath_preorder) (simp add: list_all_iff)
  have "known_type d" if "find P (preorders ds) = Some d" for P d
    using that k by (auto simp: find_Some_iff list_all_iff)
  then show "\<exists>r. FindBackingDeviceForLUKS ds name = Inr r"
    unfolding FindBacking_preorder(2) first_path_def
    by (auto simp: lsblk_devicePath_known split: option.splits) (metis map_sum.simps(2))
qed (rule FindBacking_preorder(2))

definition sample_tree :: "LsblkDevice list" where
  "sample_tree =
     [LsblkDevice ''sda'' ''8:0'' False ''8T'' False ''disk'' None
        [LsblkDevice ''A'' ''254:0'' False ''8T'' False ''crypt'' (Some ''/srv/node/swift1'') []]]"

theorem searches_in_tree_order_witness:
  "FindBackingDeviceForLUKS sample_tree ''A'' = Inr (Some ''/dev/sda'') \<and>
   findDeviceByPath sample_tree ''/dev/mapper/A'' = Inr (Some (hd (Children (hd sample_tree))))"
proof -
  have "list_all known_type (preorders sample_tree)"
    "first_path (find (holds_mapping ''A'') (preorders sample_tree)) = Inr (Some ''/dev/sda'')"
    "find (\<lambda>d. lsblk_devicePath d = Inr ''/dev/mapper/A'') (preorders sample_tree) = Some (hd (Children (hd sample_tree)))"
    by code_simp+
  with searches_in_tree_order [of sample_tree "''A''" "''/dev/mapper/A''"] show ?thesis by simp
qed

end
