(* ===== verification/Command.thy ===== *)
theory Command
  imports Lsblk
begin

text \<open>
  Package command (\<open>pkg/command/command.go\<close>) and the boundary of the model: the record
  \<open>host\<close> holds what the program asks of the kernel and of the programs it starts. Nothing
  is assumed of these functions unless a lemma says so; each of them may change the state
  \<open>'k\<close> of the rest of the machine in any way.
\<close>

section \<open>The host\<close>

datatype os_error = NotExist string | OtherError string

primrec error_text :: "os_error \<Rightarrow> string" where
  "error_text (NotExist s) = s"
| "error_text (OtherError s) = s"

record exec_result =
  exec_stdout :: string
  exec_stderr :: string
  exec_err :: "string option"

text \<open>
  \<open>sys_exec argv stdin\<close> runs a process to its end. The file functions are those of package
  os: relative paths start at the working directory, which is the chroot directory. The
  entries that \<open>sys_readdir\<close> lists come with a flag that says whether they are symbolic
  links; \<open>sys_stat\<close> gives the time of the last modification in nanoseconds since 1970. \<open>md5_hex\<close> is \<open>hex.EncodeToString(md5.Sum(...))\<close>. \<open>stack_limit\<close> is the depth of
  nested device calls at which the Go run time gives up with a stack overflow. \<open>json_lsblk\<close>
  is \<open>json.Unmarshal\<close> into the type \<open>LsblkOutput\<close>: an error message or the devices.
\<close>

record 'k host =
  geteuid :: nat
  getenv :: "string \<Rightarrow> string"
  md5_hex :: "string \<Rightarrow> string"
  stack_limit :: nat
  json_lsblk :: "string \<Rightarrow> string + LsblkDevice list"
  sys_exec :: "string list \<Rightarrow> string \<Rightarrow> 'k \<Rightarrow> exec_result \<times> 'k"
  sys_readlink :: "string \<Rightarrow> 'k \<Rightarrow> (os_error + string) \<times> 'k"
  sys_evalsymlinks :: "string \<Rightarrow> 'k \<Rightarrow> (os_error + string) \<times> 'k"
  sys_readfile :: "string \<Rightarrow> 'k \<Rightarrow> (os_error + string) \<times> 'k"
  sys_writefile :: "string \<Rightarrow> string \<Rightarrow> 'k \<Rightarrow> os_error option \<times> 'k"
  sys_remove :: "string \<Rightarrow> 'k \<Rightarrow> os_error option \<times> 'k"
  sys_readdir :: "string \<Rightarrow> 'k \<Rightarrow> (os_error + (string \<times> bool) list) \<times> 'k"
  sys_glob :: "string \<Rightarrow> 'k \<Rightarrow> (os_error + string list) \<times> 'k"
  sys_getwd :: "'k \<Rightarrow> (os_error + string) \<times> 'k"
  sys_chdir :: "string \<Rightarrow> 'k \<Rightarrow> os_error option \<times> 'k"
  sys_stat :: "string \<Rightarrow> 'k \<Rightarrow> (os_error + int) \<times> 'k"

section \<open>Command.Run\<close>

record command =
  Stdin :: string
  NoChroot :: bool
  SkipLog :: bool
  NoNsenter :: bool
  ExitOnError :: bool

definition Command0 :: command where
  "Command0 = \<lparr>Stdin = [], NoChroot = False, SkipLog = False, NoNsenter = False,
               ExitOnError = False\<rparr>"

text \<open>The prefixes that \<open>Run\<close> puts before the command line, innermost first.\<close>

definition with_nsenter :: "command \<Rightarrow> string list \<Rightarrow> string list" where
  "with_nsenter c cmd =
     (if NoNsenter c then cmd
      else if hd cmd = ''mount'' \<or> hd cmd = ''umount'' then
        [''nsenter'', ''--mount=/proc/1/ns/mnt'', ''--''] @ cmd
      else if hd cmd = ''cryptsetup'' then
        [''nsenter'', ''--mount=/proc/1/ns/mnt'', ''--ipc=/proc/1/ns/ipc'', ''--''] @ cmd
      else cmd)"

definition with_chroot :: "command \<Rightarrow> string list \<Rightarrow> string list" where
  "with_chroot c cmd = (if NoChroot c then cmd else [''chroot'', ''.''] @ cmd)"

definition with_sudo :: "'k host \<Rightarrow> string list \<Rightarrow> string list" where
  "with_sudo h cmd = (if geteuid h \<noteq> 0 then [''sudo''] @ cmd else cmd)"

definition command_argv :: "'k host \<Rightarrow> command \<Rightarrow> string list \<Rightarrow> string list" where
  "command_argv h c cmd = with_sudo h (with_chroot c (with_nsenter c cmd))"

text \<open>The lines of stderr go to the standard logger, the error to \<open>logg.Error\<close> or
  \<open>logg.Fatal\<close>; with \<open>SkipLog\<close> neither is looked at.\<close>

definition log_outcome ::
    "command \<Rightarrow> string \<Rightarrow> string list \<Rightarrow> exec_result \<Rightarrow> (('k, 's) world, unit) io" where
  "log_outcome c cmdName argv r =
     whenM (\<not> SkipLog c)
       (thenM
         (forM (Split CHR ''\<newline>'' (exec_stderr r)) (\<lambda>line.
            whenM (line \<noteq> [])
              (logM LPlain (''Output from '' @ cmdName @ '': '' @ line @ ''\<newline>''))))
         (case exec_err r of
            None \<Rightarrow> ret ()
          | Some e \<Rightarrow>
              let msg = ''exec('' @ Join '' '' argv @ '') failed: '' @ e
              in if ExitOnError c then log_fatal msg else log_error msg))"

definition Run :: "'k host \<Rightarrow> command \<Rightarrow> string list \<Rightarrow> (('k, 's) world, string \<times> bool) io" where
  "Run h c cmd =
     (case cmd of
        [] \<Rightarrow> exitM (Panic ''index out of range'')
      | cmdName # _ \<Rightarrow>
          let argv = command_argv h c cmd
          in bindM (sysM (sys_exec h argv (Stdin c))) (\<lambda>r.
             bindM (log_outcome c cmdName argv r) (\<lambda>_.
             ret (exec_stdout r, exec_err r = None))))"

text \<open>\<open>command.Run(...)\<close>, the shortcut without options.\<close>

definition run :: "'k host \<Rightarrow> string list \<Rightarrow> (('k, 's) world, string \<times> bool) io" where
  "run h cmd = Run h Command0 cmd"

section \<open>Lemmas\<close>

lemma command_argv_last_part: "\<exists>pre. command_argv h c cmd = pre @ cmd"
  unfolding command_argv_def with_sudo_def with_chroot_def with_nsenter_def by auto

lemma returns_log_outcome: "\<not> ExitOnError c \<or> SkipLog c \<Longrightarrow> returns (log_outcome c n argv r)"
  unfolding log_outcome_def whenM_def
  by (cases "exec_err r") (auto simp: Let_def intro!: returns_intros)

lemma returns_Run:
  "cmd \<noteq> [] \<Longrightarrow> \<not> ExitOnError c \<or> SkipLog c \<Longrightarrow> returns (Run h c cmd)"
  unfolding Run_def
  by (cases cmd) (auto simp: Let_def intro!: returns_intros returns_log_outcome)

lemma returns_run [returns_intros]: "cmd \<noteq> [] \<Longrightarrow> returns (run h cmd)"
  by (simp add: run_def returns_Run Command0_def)

lemma keeps_osst_log_outcome [keeps_intros]: "keeps (\<lambda>w. P (osst w)) (log_outcome c n argv r)"
  unfolding log_outcome_def Let_def
  by (cases "exec_err r") (auto intro!: keeps_intros)

lemma keeps_osst_Run [keeps_intros]: "keeps (\<lambda>w. P (osst w)) (Run h c cmd)"
  unfolding Run_def by (cases cmd) (auto simp: Let_def intro!: keeps_intros)

lemma keeps_osst_run [keeps_intros]: "keeps (\<lambda>w. P (osst w)) (run h cmd)"
  unfolding run_def by (rule keeps_osst_Run)

lemma osst_Run [simp]: "Run h c cmd w = (r, w') \<Longrightarrow> osst w' = osst w"
  using keeps_osst_Run [of "\<lambda>s. s = osst w" h c cmd] by (auto dest: keepsD)

lemma osst_run [simp]: "run h cmd w = (r, w') \<Longrightarrow> osst w' = osst w"
  by (simp add: run_def)

end
