(* ===== verification/Os_Interface.thy ===== *)
theory Os_Interface
  imports Command "HOL-Library.Multiset"
begin

text \<open>
  \<open>pkg/os/interface.go\<close>: the types that the autopilot's core shares with the operating
  system layer, the operations of \<open>os.Interface\<close> as a record of functions (the core gets
  the record as an argument, as the Go code gets the interface value), and the contract of
  these operations as a locale. \<open>CollectDrives\<close> and \<open>CollectDriveErrors\<close>, which run as
  goroutines of their own, are not operations of the record.
\<close>

section \<open>Types\<close>

datatype DeviceType =
  DeviceTypeUnknown | DeviceTypeUnreadable | DeviceTypeLUKS | DeviceTypeFilesystem

text \<open>\<open>Options\<close> is a Go \<open>map[string]bool\<close> that only ever holds true: a set.\<close>

record MountPoint =
  mp_DevicePath :: string
  mp_MountPath :: string
  mp_Options :: "string set"

datatype MountScope = HostScope | LocalScope

primrec scope_name :: "MountScope \<Rightarrow> string" where
  "scope_name HostScope = ''host''"
| "scope_name LocalScope = ''local''"

text \<open>\<open>os.Drive\<close> and \<open>os.DriveError\<close>, what the collectors report.\<close>

record os_drive =
  od_DevicePath :: string
  od_FoundAtPath :: string
  od_SerialNumber :: string

record drive_error =
  de_DevicePath :: string
  de_Message :: string

record 'w os_interface =
  ClassifyDevice :: "string \<Rightarrow> ('w, DeviceType) io"
  FormatDevice :: "string \<Rightarrow> ('w, bool) io"
  MountDevice :: "string \<Rightarrow> string \<Rightarrow> MountScope \<Rightarrow> ('w, bool) io"
  UnmountDevice :: "string \<Rightarrow> MountScope \<Rightarrow> ('w, bool) io"
  RefreshMountPoints :: "('w, unit) io"
  GetMountPointsIn :: "string \<Rightarrow> MountScope \<Rightarrow> ('w, MountPoint list) io"
  GetMountPointsOf :: "string \<Rightarrow> MountScope \<Rightarrow> ('w, MountPoint list) io"
  CreateLUKSContainer :: "string \<Rightarrow> string \<Rightarrow> ('w, bool) io"
  OpenLUKSContainer :: "string \<Rightarrow> string \<Rightarrow> string list \<Rightarrow> ('w, string \<times> bool) io"
  CloseLUKSContainer :: "string \<Rightarrow> ('w, bool) io"
  RefreshLUKSMappings :: "('w, unit) io"
  GetLUKSMappingOf :: "string \<Rightarrow> ('w, string) io"
  ReadSwiftID :: "string \<Rightarrow> ('w, os_error + string) io"
  WriteSwiftID :: "string \<Rightarrow> string \<Rightarrow> ('w, os_error option) io"
  Chown :: "string \<Rightarrow> string \<Rightarrow> string \<Rightarrow> ('w, unit) io"

text \<open>
  The two iterators over the mount scopes. The Go closures given to
  \<open>ForeachMountScopeOrError\<close> may assign to variables of the enclosing method; these
  variables are the \<open>'v\<close> that the action takes and returns.
\<close>

definition ForeachMountScope :: "(MountScope \<Rightarrow> ('w, bool) io) \<Rightarrow> ('w, bool) io" where
  "ForeachMountScope action =
     bindM (action HostScope) (\<lambda>ok. if \<not> ok then ret False else action LocalScope)"

definition ForeachMountScopeOrError ::
    "(MountScope \<Rightarrow> 'v \<Rightarrow> ('w, string option \<times> 'v) io) \<Rightarrow> 'v \<Rightarrow> ('w, string option \<times> 'v) io" where
  "ForeachMountScopeOrError action v =
     bindM (action HostScope v) (\<lambda>(err, v').
       case err of Some e \<Rightarrow> ret (Some e, v') | None \<Rightarrow> action LocalScope v')"

text \<open>The scopes are enumerable, so that statements about all of them can be evaluated; the
  iterator visits all of them.\<close>

lemma scope_cases: "sc = HostScope \<or> sc = LocalScope"
  by (cases sc) simp_all

instantiation MountScope :: enum
begin

definition "enum_MountScope = [HostScope, LocalScope]"
definition "enum_all_MountScope = (\<lambda>holds. holds HostScope \<and> holds LocalScope)"
definition "enum_ex_MountScope = (\<lambda>holds. holds HostScope \<or> holds LocalScope)"

instance
  apply standard
  subgoal using scope_cases by (auto simp: enum_MountScope_def)
  subgoal by (simp add: enum_MountScope_def)
  subgoal for holds unfolding enum_all_MountScope_def by (metis scope_cases UNIV_I)
  subgoal for holds unfolding enum_ex_MountScope_def by (metis scope_cases UNIV_I)
  done

end

lemma ForeachMountScope_enum: "ForeachMountScope action = all_okM enum_class.enum action"
proof -
  have one: "all_okM [sc] action = action sc" for sc
    by (rule ext) (simp add: bindM_def ret_def split: prod.split sum.split)
  show ?thesis
    unfolding ForeachMountScope_def enum_MountScope_def all_okM.simps(2) [of HostScope] one
    by (rule arg_cong [where f = "bindM (action HostScope)"]) (simp add: fun_eq_iff)
qed

lemma keeps_ForeachMountScope [keeps_intros]:
  "(\<And>sc. keeps I (action sc)) \<Longrightarrow> keeps I (ForeachMountScope action)"
  by (auto simp: ForeachMountScope_def intro!: keeps_intros)

lemma keeps_ForeachMountScopeOrError [keeps_intros]:
  "(\<And>sc v. keeps I (action sc v)) \<Longrightarrow> keeps I (ForeachMountScopeOrError action v)"
  by (auto simp: ForeachMountScopeOrError_def split: option.split intro!: keeps_intros)

lemma returns_ForeachMountScope [returns_intros]:
  "(\<And>sc. returns (action sc)) \<Longrightarrow> returns (ForeachMountScope action)"
  by (auto simp: ForeachMountScope_def intro!: returns_intros)

lemma returns_ForeachMountScopeOrError [returns_intros]:
  "(\<And>sc v. returns (action sc v)) \<Longrightarrow> returns (ForeachMountScopeOrError action v)"
  by (auto simp: ForeachMountScopeOrError_def split: option.split intro!: returns_intros)

lemma yields_ForeachMountScope:
  "(\<And>sc. yields I (f sc) (\<lambda>_. True)) \<Longrightarrow> yields I (ForeachMountScope f) (\<lambda>_. True)"
  unfolding ForeachMountScope_def
  by (rule yields_bindM [where P = "\<lambda>_. True"]) (auto intro: yields_if yields_ret yields_Pair)

lemma yields_ForeachMountScopeOrError:
  assumes "\<And>sc v. P v \<Longrightarrow> yields I (f sc v) (\<lambda>r. P (snd r))" and "P v"
  shows "yields I (ForeachMountScopeOrError f v) (\<lambda>r. P (snd r))"
  unfolding ForeachMountScopeOrError_def
  by (rule yields_bindM [OF assms(1) [OF assms(2)]])
     (auto split: option.split intro!: yields_ret yields_Pair assms(1))

lemma ForeachMountScope_TrueE:
  assumes "ForeachMountScope action w = (Inr True, w')"
  obtains w1 where "action HostScope w = (Inr True, w1)" and "action LocalScope w1 = (Inr True, w')"
  using assms by (auto simp: ForeachMountScope_def elim!: bindM_InrE split: if_splits)

section \<open>Mount tables\<close>

text \<open>Where the mounts of a device are, in the order of the table.\<close>

definition mounts_of :: "string \<Rightarrow> MountPoint list \<Rightarrow> MountPoint list" where
  "mounts_of p ms = filter (\<lambda>m. mp_DevicePath m = p) ms"

definition dev_paths :: "string \<Rightarrow> MountPoint list \<Rightarrow> string list" where
  "dev_paths p ms = map mp_MountPath (mounts_of p ms)"

text \<open>No other device is mounted where \<open>p\<close> is mounted.\<close>

definition exclusive :: "string \<Rightarrow> MountPoint list \<Rightarrow> bool" where
  "exclusive p ms \<longleftrightarrow>
     (\<forall>m \<in> set ms. \<forall>m' \<in> set ms.
        mp_DevicePath m = p \<longrightarrow> mp_MountPath m' = mp_MountPath m \<longrightarrow> mp_DevicePath m' = p)"

text \<open>One mount at the path \<open>x\<close> is gone, if there was any.\<close>

definition unmounted_at :: "string \<Rightarrow> MountPoint list \<Rightarrow> MountPoint list \<Rightarrow> bool" where
  "unmounted_at x ms ms' \<longleftrightarrow>
     (if \<exists>m \<in> set ms. mp_MountPath m = x
      then \<exists>xs m ys. ms = xs @ m # ys \<and> ms' = xs @ ys \<and> mp_MountPath m = x
      else ms' = ms)"

lemma mem_dev_paths: "x \<in> set (dev_paths p ms) \<longleftrightarrow> (\<exists>m \<in> set ms. mp_DevicePath m = p \<and> mp_MountPath m = x)"
  by (auto simp: dev_paths_def mounts_of_def)

lemma dev_paths_Nil [simp]: "dev_paths p [] = []"
  by (simp add: dev_paths_def mounts_of_def)

lemma dev_paths_append: "dev_paths p (xs @ ys) = dev_paths p xs @ dev_paths p ys"
  by (simp add: dev_paths_def mounts_of_def)

lemma dev_paths_Cons:
  "dev_paths p (m # ms) = (if mp_DevicePath m = p then mp_MountPath m # dev_paths p ms else dev_paths p ms)"
  by (simp add: dev_paths_def mounts_of_def)

lemma unmounted_at_subset: "unmounted_at x ms ms' \<Longrightarrow> set ms' \<subseteq> set ms"
  by (auto simp: unmounted_at_def split: if_splits)

lemma exclusive_subset: "exclusive p ms \<Longrightarrow> set ms' \<subseteq> set ms \<Longrightarrow> exclusive p ms'"
  unfolding exclusive_def by (blast dest: subsetD)

lemma dev_paths_subset: "set ms' \<subseteq> set ms \<Longrightarrow> set (dev_paths p ms') \<subseteq> set (dev_paths p ms)"
  by (auto simp: mem_dev_paths subset_iff)

lemma dev_paths_unmounted_at:
  assumes "exclusive p ms" and "unmounted_at x ms ms'"
  shows "mset (dev_paths p ms') = mset (dev_paths p ms) - {#x#}"
proof (cases "\<exists>m \<in> set ms. mp_MountPath m = x")
  case False
  with assms(2) have "ms' = ms" by (simp add: unmounted_at_def)
  moreover from False have "x \<notin># mset (dev_paths p ms)" by (auto simp: mem_dev_paths)
  ultimately show ?thesis by (simp add: diff_single_trivial)
next
  case True
  with assms(2) obtain xs m ys where ms: "ms = xs @ m # ys" "ms' = xs @ ys" "mp_MountPath m = x"
    by (auto simp: unmounted_at_def)
  show ?thesis
  proof (cases "mp_DevicePath m = p")
    case True
    with ms show ?thesis by (simp add: dev_paths_append dev_paths_Cons)
  next
    case False
    have "x \<notin> set (dev_paths p ms)"
    proof
      assume "x \<in> set (dev_paths p ms)"
      then obtain m' where m': "m' \<in> set ms" "mp_DevicePath m' = p" "mp_MountPath m' = x"
        unfolding mem_dev_paths by blast
      moreover from ms(1) have "m \<in> set ms" by simp
      ultimately have "mp_DevicePath m = p" using assms(1) ms(3) unfolding exclusive_def by metis
      with False show False by blast
    qed
    with ms False show ?thesis
      by (simp add: dev_paths_append dev_paths_Cons diff_single_trivial)
  qed
qed

end
