(* ===== verification/Os_Contract.thy ===== *)
theory Os_Contract
  imports Os_Interface
begin

text \<open>
  What the core may rely on when it calls \<open>os.Interface\<close>, as two locales: the mount table
  (\<open>mount_contract\<close>) and, extending it, the table of LUKS mappings (\<open>os_contract\<close>). The
  laws are about the tables that the implementation keeps; the lemmas inside the locales
  are proved once from the laws. Theory \<open>Linux\<close> interprets both on the code of
  \<open>struct Linux\<close>, for every host.
\<close>

section \<open>Frames\<close>

text \<open>\<open>frames v m\<close>: whatever \<open>m\<close> does, the part \<open>v\<close> of the interface's state is as before.\<close>

definition frames :: "('s \<Rightarrow> 'v) \<Rightarrow> (('k, 's) world, 'a) io \<Rightarrow> bool" where
  "frames v m \<longleftrightarrow> (\<forall>w. v (osst (snd (m w))) = v (osst w))"

lemma framesD: "frames v m \<Longrightarrow> m w = (r, w') \<Longrightarrow> v (osst w') = v (osst w)"
  unfolding frames_def by (metis snd_conv)

lemma framesI: "(\<And>P. keeps (\<lambda>w. P (osst w)) m) \<Longrightarrow> frames v m"
  unfolding frames_def keeps_def
proof (intro allI)
  fix w
  assume *: "\<And>P. \<forall>w. P (osst w) \<longrightarrow> P (osst (snd (m w)))"
  show "v (osst (snd (m w))) = v (osst w)"
    using * [of "\<lambda>s. v s = v (osst w)"] by simp
qed

lemma frames_keeps: "frames v m \<Longrightarrow> keeps (\<lambda>w. P (v (osst w))) m"
  by (simp add: frames_def keeps_def)

lemma frames_comp: "frames v m \<Longrightarrow> frames (\<lambda>s. g (v s)) m"
  by (simp add: frames_def)

lemma frames_run [simp]: "frames v (run h cmd)"
  by (rule framesI) (rule keeps_intros)

lemma frames_sysM [simp]: "frames v (sysM f)"
  by (rule framesI) (rule keeps_intros)

lemma frames_logM [simp]: "frames v (logM l msg)"
  by (rule framesI) (rule keeps_intros)

named_theorems frames_intros \<open>introduction rules for frames\<close>

declare frames_run [frames_intros] frames_sysM [frames_intros] frames_logM [frames_intros]

lemma frames_ret [frames_intros]: "frames v (ret x)"
  by (simp add: frames_def)

lemma frames_Pair [frames_intros]: "frames v (Pair (Inr x))"
  by (simp add: frames_def)

lemma frames_exitM [frames_intros]: "frames v (exitM e)" "frames v (Pair (Inl e))"
  by (simp_all add: frames_def)

lemma frames_bindM [frames_intros]:
  assumes "frames v m" and "\<And>x. frames v (f x)"
  shows "frames v (bindM m f)"
  unfolding frames_def
proof
  fix w
  obtain r w' where m: "m w = (r, w')" by fastforce
  with assms(1) have e: "v (osst w') = v (osst w)" by (rule framesD)
  show "v (osst (snd (bindM m f w))) = v (osst w)"
  proof (cases r)
    case (Inl x)
    with m e show ?thesis by (simp add: bindM_def)
  next
    case (Inr x)
    with assms(2) [of x] m e show ?thesis by (simp add: bindM_def frames_def)
  qed
qed

lemma frames_thenM [frames_intros]: "frames v m \<Longrightarrow> frames v n \<Longrightarrow> frames v (thenM m n)"
  by (simp add: thenM_def frames_bindM)

lemma frames_whenM [frames_intros]: "frames v m \<Longrightarrow> frames v (whenM b m)"
  by (auto simp: whenM_def intro: frames_ret)

lemma frames_if [frames_intros]:
  "(b \<Longrightarrow> frames v m) \<Longrightarrow> (\<not> b \<Longrightarrow> frames v n) \<Longrightarrow> frames v (if b then m else n)"
  by auto

lemma frames_all_okM [frames_intros]:
  "(\<And>x. x \<in> set xs \<Longrightarrow> frames v (f x)) \<Longrightarrow> frames v (all_okM xs f)"
  by (induction xs) (auto intro!: frames_intros)

lemma frames_forM [frames_intros]:
  "(\<And>x. x \<in> set xs \<Longrightarrow> frames v (f x)) \<Longrightarrow> frames v (forM xs f)"
  by (induction xs) (auto intro!: frames_intros)

lemma frames_foldM [frames_intros]:
  "(\<And>x y. x \<in> set xs \<Longrightarrow> frames v (f x y)) \<Longrightarrow> frames v (foldM xs f y)"
  by (induction xs arbitrary: y) (auto intro!: frames_intros)

lemma frames_ForeachMountScope [frames_intros]:
  "(\<And>sc. frames v (f sc)) \<Longrightarrow> frames v (ForeachMountScope f)"
  by (auto simp: ForeachMountScope_def intro!: frames_intros)

lemma frames_ForeachMountScopeOrError [frames_intros]:
  "(\<And>sc x. frames v (f sc x)) \<Longrightarrow> frames v (ForeachMountScopeOrError f x)"
  by (auto simp: ForeachMountScopeOrError_def split: option.split intro!: frames_intros)

section \<open>The mount table\<close>

locale mount_contract =
  fixes osi :: "('k, 's) world os_interface"
    and mounts :: "'s \<Rightarrow> MountScope \<Rightarrow> MountPoint list"
    and ready :: "'s \<Rightarrow> bool"
  assumes get_of: "GetMountPointsOf osi p sc w = (Inr (mounts_of p (mounts (osst w) sc)), w)"
    and get_in: "\<exists>ms. GetMountPointsIn osi p sc w = (Inr ms, w) \<and> set ms \<subseteq> set (mounts (osst w) sc)"
    and mount_returns: "ready (osst w) \<Longrightarrow> \<exists>ok w'. MountDevice osi p mp sc w = (Inr ok, w')"
    and mount_ready: "MountDevice osi p mp sc w = (r, w') \<Longrightarrow> ready (osst w) \<Longrightarrow> ready (osst w')"
    and mount_table: "MountDevice osi p mp sc w = (r, w') \<Longrightarrow> ready (osst w) \<Longrightarrow>
      mounts (osst w') sc' = mounts (osst w) sc' \<or>
      (\<exists>m. mp_DevicePath m = p \<and> mp_MountPath m = mp \<and>
           mounts (osst w') sc' = mounts (osst w) sc' @ [m])"
    and mount_ok: "MountDevice osi p mp sc w = (Inr True, w') \<Longrightarrow> ready (osst w) \<Longrightarrow>
      mp \<in> set (dev_paths p (mounts (osst w') sc))"
    and unmount_returns: "ready (osst w) \<Longrightarrow> \<exists>ok w'. UnmountDevice osi x sc w = (Inr ok, w')"
    and unmount_ready: "UnmountDevice osi x sc w = (r, w') \<Longrightarrow> ready (osst w) \<Longrightarrow> ready (osst w')"
    and unmount_ok: "UnmountDevice osi x sc w = (Inr True, w') \<Longrightarrow> ready (osst w) \<Longrightarrow>
      unmounted_at x (mounts (osst w) sc) (mounts (osst w') sc)"
    and unmount_table: "UnmountDevice osi x sc w = (r, w') \<Longrightarrow> ready (osst w) \<Longrightarrow>
      mounts (osst w') sc' = mounts (osst w) sc' \<or>
      unmounted_at x (mounts (osst w) sc') (mounts (osst w') sc')"
    and classify_returns: "returns (ClassifyDevice osi p)"
    and classify_frame: "frames (\<lambda>s. (mounts s, ready s)) (ClassifyDevice osi p)"
    and format_returns: "returns (FormatDevice osi p)"
    and format_frame: "frames (\<lambda>s. (mounts s, ready s)) (FormatDevice osi p)"
    and read_id_returns: "returns (ReadSwiftID osi p)"
    and read_id_frame: "frames (\<lambda>s. (mounts s, ready s)) (ReadSwiftID osi p)"
    and write_id_returns: "returns (WriteSwiftID osi p i)"
    and write_id_frame: "frames (\<lambda>s. (mounts s, ready s)) (WriteSwiftID osi p i)"
begin

abbreviation tables :: "'s \<Rightarrow> (MountScope \<Rightarrow> MountPoint list) \<times> bool" where
  "tables s \<equiv> (mounts s, ready s)"

declare classify_frame [frames_intros] format_frame [frames_intros]
  read_id_frame [frames_intros] write_id_frame [frames_intros]
  classify_returns [returns_intros] format_returns [returns_intros]
  read_id_returns [returns_intros] write_id_returns [returns_intros]

lemma get_of_returns [returns_intros]: "returns (GetMountPointsOf osi p sc)"
  by (auto simp: returns_def get_of)

lemma get_of_frame [frames_intros]: "frames v (GetMountPointsOf osi p sc)"
  by (auto simp: frames_def get_of)

lemma unmount_shrinks:
  assumes "UnmountDevice osi x sc w = (r, w')" and "ready (osst w)"
  shows "set (mounts (osst w') sc') \<subseteq> set (mounts (osst w) sc')"
  using unmount_table [OF assms, of sc'] unmounted_at_subset by fastforce

lemma mount_grows:
  assumes "MountDevice osi p mp sc w = (r, w')" and "ready (osst w)"
  shows "set (dev_paths p (mounts (osst w) sc')) \<subseteq> set (dev_paths p (mounts (osst w') sc'))"
    and "set (dev_paths p (mounts (osst w') sc')) \<subseteq> insert mp (set (dev_paths p (mounts (osst w) sc')))"
  using mount_table [OF assms, of sc'] by (auto simp: dev_paths_append dev_paths_Cons)

text \<open>
  The loop of \<open>Setup\<close> and \<open>Teardown\<close>: every mount of the snapshot \<open>R\<close> that satisfies \<open>P\<close> is
  unmounted, after an action \<open>f\<close> that leaves the tables alone. When the loop ends with
  true, the mounts of \<open>p\<close> that are left are among \<open>K\<close> and the ones the loop skipped.
\<close>

lemma unmount_loop:
  assumes "all_okM R (\<lambda>m. if P m then thenM (f m) (UnmountDevice osi (mp_MountPath m) sc)
                          else ret True) w = (Inr True, w')"
    and "\<And>m. frames (\<lambda>s. (mounts s, ready s)) (f m)"
    and "ready (osst w)" and "exclusive p (mounts (osst w) sc)"
    and "mset (dev_paths p (mounts (osst w) sc)) \<subseteq># K + mset (map mp_MountPath R)"
  shows "ready (osst w') \<and> (\<forall>sc'. set (mounts (osst w') sc') \<subseteq> set (mounts (osst w) sc')) \<and>
    mset (dev_paths p (mounts (osst w') sc)) \<subseteq># K + mset (map mp_MountPath (filter (\<lambda>m. \<not> P m) R))"
  using assms(1,3,4,5)
proof (induction R arbitrary: w K)
  case Nil
  then show ?case by simp
next
  case (Cons m R)
  show ?case
  proof (cases "P m")
    case False
    with Cons.prems have "mset (dev_paths p (mounts (osst w) sc)) \<subseteq># (K + {#mp_MountPath m#}) + mset (map mp_MountPath R)"
      by simp
    with Cons.IH [of w "K + {#mp_MountPath m#}"] Cons.prems False show ?thesis by simp
  next
    case True
    with Cons.prems(1) obtain u w1 w2 where f: "f m w = (Inr u, w1)"
      and u: "UnmountDevice osi (mp_MountPath m) sc w1 = (Inr True, w2)"
      and rest: "all_okM R (\<lambda>m. if P m then thenM (f m) (UnmountDevice osi (mp_MountPath m) sc)
                          else ret True) w2 = (Inr True, w')"
      by (auto elim!: bindM_InrE thenM_InrE split: if_splits)
    from framesD [OF assms(2) f] have w1: "mounts (osst w1) = mounts (osst w)" "ready (osst w1) = ready (osst w)"
      by simp_all
    let ?x = "mp_MountPath m"
    have r1: "ready (osst w1)" using Cons.prems w1 by simp
    have sub: "set (mounts (osst w2) sc') \<subseteq> set (mounts (osst w) sc')" for sc'
      using unmount_shrinks [OF u r1] w1 by simp
    have "mset (dev_paths p (mounts (osst w2) sc)) = mset (dev_paths p (mounts (osst w) sc)) - {#?x#}"
      using dev_paths_unmounted_at [OF _ unmount_ok [OF u r1]] Cons.prems w1 by simp
    with Cons.prems(4) have "mset (dev_paths p (mounts (osst w2) sc)) \<subseteq># K + mset (map mp_MountPath R)"
      by (simp add: subset_eq_diff_conv)
    with Cons.IH [OF rest unmount_ready [OF u r1]] exclusive_subset [OF Cons.prems(3) sub]
    have "ready (osst w') \<and> (\<forall>sc'. set (mounts (osst w') sc') \<subseteq> set (mounts (osst w2) sc')) \<and>
      mset (dev_paths p (mounts (osst w') sc)) \<subseteq># K + mset (map mp_MountPath (filter (\<lambda>m. \<not> P m) R))"
      by blast
    with sub True show ?thesis by auto
  qed
qed

end

section \<open>The LUKS mappings\<close>

text \<open>
  The invariant of runs that do not end the process: the tables are usable, and every LUKS
  mapping leads to a device of lower rank, for some ranking of the device paths (so that
  containers are nested finitely deep).
\<close>

definition sane_tables ::
    "('s \<Rightarrow> bool) \<Rightarrow> ('s \<Rightarrow> string \<Rightarrow> string) \<Rightarrow> (string \<Rightarrow> nat) \<Rightarrow> ('k, 's) world \<Rightarrow> bool" where
  "sane_tables ready luks rank w \<longleftrightarrow> ready (osst w) \<and>
     (\<forall>p. luks (osst w) p \<noteq> [] \<longrightarrow> rank (luks (osst w) p) < rank p)"

locale os_contract = mount_contract osi mounts ready
  for osi :: "('k, 's) world os_interface"
    and mounts :: "'s \<Rightarrow> MountScope \<Rightarrow> MountPoint list"
    and ready :: "'s \<Rightarrow> bool" +
  fixes luks :: "'s \<Rightarrow> string \<Rightarrow> string"
  assumes get_luks: "GetLUKSMappingOf osi p w = (Inr (luks (osst w) p), w)"
    and create_returns: "returns (CreateLUKSContainer osi p key)"
    and create_frame: "frames (\<lambda>s. (mounts s, ready s)) (CreateLUKSContainer osi p key)"
    and open_returns: "returns (OpenLUKSContainer osi p name ks)"
    and open_frame: "frames (\<lambda>s. (mounts s, ready s)) (OpenLUKSContainer osi p name ks)"
    and open_luks: "OpenLUKSContainer osi p name ks w = (Inr (q, ok), w') \<Longrightarrow>
      luks (osst w') = (if ok then (luks (osst w))(p := q) else luks (osst w))"
    and close_returns: "returns (CloseLUKSContainer osi name)"
    and close_frame: "frames (\<lambda>s. (mounts s, ready s)) (CloseLUKSContainer osi name)"
    and classify_luks: "frames luks (ClassifyDevice osi p)"
    and format_luks: "frames luks (FormatDevice osi p)"
    and mount_luks: "frames luks (MountDevice osi p mp sc)"
    and unmount_luks: "frames luks (UnmountDevice osi x sc)"
    and create_luks: "frames luks (CreateLUKSContainer osi p key)"
    and close_luks: "frames luks (CloseLUKSContainer osi name)"
    and read_id_luks: "frames luks (ReadSwiftID osi p)"
    and write_id_luks: "frames luks (WriteSwiftID osi p i)"
    and chown_returns: "p \<noteq> [] \<Longrightarrow> returns (Chown osi p u g)"
    and chown_frame: "frames (\<lambda>s. (mounts s, ready s)) (Chown osi p u g)"
    and chown_luks: "frames luks (Chown osi p u g)"
begin

declare create_frame [frames_intros] open_frame [frames_intros] close_frame [frames_intros]
  classify_luks [frames_intros] format_luks [frames_intros] mount_luks [frames_intros]
  unmount_luks [frames_intros] create_luks [frames_intros] close_luks [frames_intros]
  read_id_luks [frames_intros] write_id_luks [frames_intros]
  chown_frame [frames_intros] chown_luks [frames_intros] chown_returns [returns_intros]
  create_returns [returns_intros] open_returns [returns_intros] close_returns [returns_intros]

lemma get_luks_frame [frames_intros]: "frames v (GetLUKSMappingOf osi p)"
  by (simp add: frames_def get_luks)

lemma get_luks_returns [returns_intros]: "returns (GetLUKSMappingOf osi p)"
  by (simp add: returns_def get_luks)

abbreviation sane :: "(string \<Rightarrow> nat) \<Rightarrow> ('k, 's) world \<Rightarrow> bool" where
  "sane \<equiv> sane_tables ready luks"

lemma safe_frames:
  assumes "returns m" and "frames tables m" and "frames luks m"
  shows "safe (sane rank) m (\<lambda>_. True)"
proof (rule safeI)
  fix w assume i: "sane rank w"
  from assms(1) obtain x w' where m: "m w = (Inr x, w')" by (rule returnsE)
  with assms(2,3) have "tables (osst w') = tables (osst w)" "luks (osst w') = luks (osst w)"
    by (auto dest: framesD)
  with m i show "\<exists>x w'. m w = (Inr x, w') \<and> sane rank w' \<and> True" by (simp add: sane_tables_def)
qed

lemma safe_mount: "safe (sane rank) (MountDevice osi p mp sc) (\<lambda>_. True)"
proof (rule safeI)
  fix w assume i: "sane rank w"
  then obtain ok w' where m: "MountDevice osi p mp sc w = (Inr ok, w')"
    using mount_returns unfolding sane_tables_def by blast
  with i mount_ready [OF m] framesD [OF mount_luks m]
  show "\<exists>x w'. MountDevice osi p mp sc w = (Inr x, w') \<and> sane rank w' \<and> True"
    by (simp add: sane_tables_def)
qed

lemma safe_unmount: "safe (sane rank) (UnmountDevice osi x sc) (\<lambda>_. True)"
proof (rule safeI)
  fix w assume i: "sane rank w"
  then obtain ok w' where m: "UnmountDevice osi x sc w = (Inr ok, w')"
    using unmount_returns unfolding sane_tables_def by blast
  with i unmount_ready [OF m] framesD [OF unmount_luks m]
  show "\<exists>y w'. UnmountDevice osi x sc w = (Inr y, w') \<and> sane rank w' \<and> True"
    by (simp add: sane_tables_def)
qed

lemma safe_ForeachMountScope:
  assumes "\<And>sc. safe I (f sc) (\<lambda>_. True)" shows "safe I (ForeachMountScope f) (\<lambda>_. True)"
  unfolding ForeachMountScope_def
  by (rule safe_bindM [OF assms]) (auto intro: safe_ret safe_if assms)

end

end
