(* ===== verification/Linux_Mount.thy ===== *)
theory Linux_Mount
  imports Os_Contract
begin

text \<open>
  \<open>pkg/os/linux_mount.go\<close> and the state of \<open>struct Linux\<close> (\<open>pkg/os/linux.go\<close>): the table
  of active mount points per mount scope, how it is read from the output of mount(8), and
  mounting and unmounting with its effect on the table. The Go maps may be nil: reading a
  nil map gives nothing, writing into it panics.
\<close>

section \<open>State\<close>

datatype MountPropagationMode =
  OneMountNamespace | ConnectedMountNamespaces | SeparateMountNamespaces

record linux =
  ActiveMountPoints :: "(MountScope \<Rightarrow> MountPoint list) option"
  ActiveLUKSMappings :: "(string \<rightharpoonup> string) option"
  PropagationMode :: MountPropagationMode

type_synonym 'k lworld = "('k, linux) world"

definition active :: "linux \<Rightarrow> MountScope \<Rightarrow> MountPoint list" where
  "active l sc = (case ActiveMountPoints l of None \<Rightarrow> [] | Some t \<Rightarrow> t sc)"

definition mountScopesAreSeparate :: "linux \<Rightarrow> bool" where
  "mountScopesAreSeparate l \<longleftrightarrow> PropagationMode l = SeparateMountNamespaces"

primrec oppositeOf :: "MountScope \<Rightarrow> MountScope" where
  "oppositeOf HostScope = LocalScope"
| "oppositeOf LocalScope = HostScope"

text \<open>\<open>l.ActiveMountPoints[scope] = ms\<close>\<close>

definition set_active :: "MountScope \<Rightarrow> MountPoint list \<Rightarrow> ('k lworld, unit) io" where
  "set_active sc ms =
     bindM get_os (\<lambda>l. case ActiveMountPoints l of
         None \<Rightarrow> exitM (Panic ''assignment to entry in nil map'')
       | Some t \<Rightarrow> put_os (l\<lparr>ActiveMountPoints := Some (t(sc := ms))\<rparr>))"

text \<open>An update of the list of one scope or of both, as \<open>MountDevice\<close> and \<open>UnmountDevice\<close> do.\<close>

definition edit_active ::
    "MountScope \<Rightarrow> (MountPoint list \<Rightarrow> MountPoint list) \<Rightarrow> ('k lworld, unit) io" where
  "edit_active scope f =
     bindM get_os (\<lambda>l.
       if mountScopesAreSeparate l then set_active scope (f (active l scope))
       else thenM (set_active HostScope (f (active l HostScope)))
                  (set_active LocalScope (f (active l LocalScope))))"

section \<open>MountDevice and UnmountDevice\<close>

definition scoped_command :: "MountScope \<Rightarrow> command" where
  "scoped_command scope = Command0\<lparr>NoNsenter := (scope = LocalScope)\<rparr>"

definition linux_MountDevice ::
    "'k host \<Rightarrow> string \<Rightarrow> string \<Rightarrow> MountScope \<Rightarrow> ('k lworld, bool) io" where
  "linux_MountDevice h devicePath mountPath scope =
     bindM get_os (\<lambda>l.
     if list_ex (\<lambda>m. mp_DevicePath m = devicePath \<and> mp_MountPath m = mountPath) (active l scope)
     then ret True
     else
     bindM (run h [''mkdir'', ''-m'', ''0700'', ''-p'', mountPath]) (\<lambda>(_, ok).
     if \<not> ok then ret False else
     bindM (Run h (scoped_command scope) [''mount'', devicePath, mountPath]) (\<lambda>(_, ok).
     if \<not> ok then ret False else
     thenM (log_info (''mounted '' @ devicePath @ '' to '' @ mountPath @ '' in ''
              @ scope_name scope @ '' mount namespace''))
     (thenM (whenM (\<not> mountScopesAreSeparate l)
              (log_info (''mounted '' @ devicePath @ '' to '' @ mountPath @ '' in ''
                 @ scope_name (oppositeOf scope) @ '' mount namespace'')))
     (thenM (edit_active scope (\<lambda>ms. ms @
              [\<lparr>mp_DevicePath = devicePath, mp_MountPath = mountPath, mp_Options = {}\<rparr>]))
     (ret True))))))"

fun removeMountPoint :: "MountPoint list \<Rightarrow> string \<Rightarrow> MountPoint list" where
  "removeMountPoint [] mountPath = []"
| "removeMountPoint (m # ms) mountPath =
     (if mp_MountPath m = mountPath then ms else m # removeMountPoint ms mountPath)"

definition linux_UnmountDevice ::
    "'k host \<Rightarrow> string \<Rightarrow> MountScope \<Rightarrow> ('k lworld, bool) io" where
  "linux_UnmountDevice h mountPath scope =
     bindM get_os (\<lambda>l.
     if \<not> list_ex (\<lambda>m. mp_MountPath m = mountPath) (active l scope) then ret True
     else
     bindM (Run h (scoped_command scope) [''umount'', mountPath]) (\<lambda>(_, ok).
     if \<not> ok then ret False else
     thenM (log_info (''unmounted '' @ mountPath @ '' in '' @ scope_name scope
              @ '' mount namespace''))
     (thenM (whenM (\<not> mountScopesAreSeparate l)
              (log_info (''unmounted '' @ mountPath @ '' in ''
                 @ scope_name (oppositeOf scope) @ '' mount namespace'')))
     (thenM (edit_active scope (\<lambda>ms. removeMountPoint ms mountPath))
     (ret True)))))"

section \<open>Reading the table\<close>

text \<open>
  One line "<device> on <mountpoint> type <type> (<options>)". A line that is not of that
  form is skipped; one with " on " but fewer than six words makes \<open>words[5]\<close> panic.
\<close>

definition ignored_mount :: "string \<Rightarrow> bool" where
  "ignored_mount mountPath \<longleftrightarrow>
     HasPrefix mountPath ''/var/lib/docker/'' \<or> HasPrefix mountPath ''/var/lib/rkt/'' \<or>
     HasPrefix mountPath ''/var/lib/kubelet/''"

definition parse_mount_line :: "string \<Rightarrow> exit + MountPoint option" where
  "parse_mount_line line =
     (let words = Split CHR 0x20 line
      in if length words < 3 \<or> words ! 1 \<noteq> ''on'' then Inr None
         else if length words < 6 then Inl (Panic ''index out of range'')
         else
           let devicePath = words ! 0; mountPath = words ! 2;
               optionsStr = TrimSuffix (TrimPrefix (words ! 5) ''('') '')''
           in if ignored_mount mountPath then Inr None
              else Inr (Some \<lparr>mp_DevicePath = devicePath, mp_MountPath = mountPath,
                              mp_Options = set (Split CHR '','' optionsStr)\<rparr>))"

fun parse_mount_lines :: "string list \<Rightarrow> exit + MountPoint list" where
  "parse_mount_lines [] = Inr []"
| "parse_mount_lines (line # lines) =
     (case parse_mount_line line of
        Inl e \<Rightarrow> Inl e
      | Inr om \<Rightarrow>
          (case parse_mount_lines lines of
             Inl e \<Rightarrow> Inl e
           | Inr ms \<Rightarrow> Inr (case om of None \<Rightarrow> ms | Some m \<Rightarrow> m # ms)))"

definition collectMountPoints :: "'k host \<Rightarrow> MountScope \<Rightarrow> ('k lworld, MountPoint list) io" where
  "collectMountPoints h scope =
     bindM (Run h ((scoped_command scope)\<lparr>ExitOnError := True\<rparr>) [''mount'']) (\<lambda>(stdout, _).
     case parse_mount_lines (Split CHR ''\<newline>'' stdout) of
       Inl e \<Rightarrow> exitM e
     | Inr ms \<Rightarrow> ret ms)"

definition linux_RefreshMountPoints :: "'k host \<Rightarrow> ('k lworld, unit) io" where
  "linux_RefreshMountPoints h =
     bindM (collectMountPoints h LocalScope) (\<lambda>localMounts.
     bindM get_os (\<lambda>l.
     thenM (put_os (l\<lparr>ActiveMountPoints := Some ((\<lambda>_. [])(LocalScope := localMounts))\<rparr>))
     (if mountScopesAreSeparate l then
        bindM (collectMountPoints h HostScope) (set_active HostScope)
      else set_active HostScope localMounts)))"

definition linux_GetMountPointsIn ::
    "string \<Rightarrow> MountScope \<Rightarrow> ('k lworld, MountPoint list) io" where
  "linux_GetMountPointsIn mountPathPrefix scope =
     bindM get_os (\<lambda>l.
       let pre = (if HasSuffix mountPathPrefix ''/'' then mountPathPrefix
                  else mountPathPrefix @ ''/'')
       in ret (filter (\<lambda>m. HasPrefix (mp_MountPath m) pre) (active l scope)))"

definition linux_GetMountPointsOf ::
    "string \<Rightarrow> MountScope \<Rightarrow> ('k lworld, MountPoint list) io" where
  "linux_GetMountPointsOf devicePath scope =
     bindM get_os (\<lambda>l. ret (filter (\<lambda>m. mp_DevicePath m = devicePath) (active l scope)))"

section \<open>Effects on the table\<close>

text \<open>What an edit of the table leaves behind, for a table that has been read once.\<close>

definition edited :: "linux \<Rightarrow> MountScope \<Rightarrow> (MountPoint list \<Rightarrow> MountPoint list) \<Rightarrow> linux" where
  "edited l scope f =
     l\<lparr>ActiveMountPoints :=
         Some (\<lambda>sc. if mountScopesAreSeparate l \<and> sc \<noteq> scope then active l sc else f (active l sc))\<rparr>"

definition ready :: "linux \<Rightarrow> bool" where
  "ready l \<longleftrightarrow> ActiveMountPoints l \<noteq> None"

lemma mountScopesAreSeparate_upd [simp]:
  "mountScopesAreSeparate (l\<lparr>ActiveMountPoints := x\<rparr>) = mountScopesAreSeparate l"
  "mountScopesAreSeparate (l\<lparr>ActiveLUKSMappings := y\<rparr>) = mountScopesAreSeparate l"
  by (simp_all add: mountScopesAreSeparate_def)

lemma active_upd [simp]:
  "active (l\<lparr>ActiveLUKSMappings := y\<rparr>) = active l"
  "active (l\<lparr>ActiveMountPoints := Some t\<rparr>) = t"
  by (simp_all add: active_def fun_eq_iff)

lemma edit_active_run:
  assumes "ready (osst w)"
  shows "edit_active scope f w = (Inr (), w\<lparr>osst := edited (osst w) scope f\<rparr>)"
proof -
  from assms obtain t where t: "ActiveMountPoints (osst w) = Some t" by (auto simp: ready_def)
  then have a: "active (osst w) = t" by (simp add: active_def fun_eq_iff)
  show ?thesis
  proof (cases "mountScopesAreSeparate (osst w)")
    case True
    have "t(scope := f (t scope)) = (\<lambda>sc. if sc \<noteq> scope then t sc else f (t sc))"
      by (auto simp: fun_eq_iff)
    with True t show ?thesis
      unfolding edited_def a by (simp add: edit_active_def set_active_def io_defs a)
  next
    case False
    have "t(HostScope := f (t HostScope), LocalScope := f (t LocalScope)) = (\<lambda>sc. f (t sc))"
      using scope_cases by (auto simp: fun_eq_iff)
    with False t show ?thesis
      unfolding edited_def a by (simp add: edit_active_def set_active_def io_defs a)
  qed
qed

lemma returns_scoped: "cmd \<noteq> [] \<Longrightarrow> returns (Run h (scoped_command sc) cmd)"
  by (simp add: returns_Run scoped_command_def Command0_def)

lemma linux_MountDevice_cases:
  assumes "linux_MountDevice h p mp sc w = (r, w')" and "ready (osst w)"
  obtains (already) "r = Inr True" "w' = w"
      "\<exists>m \<in> set (active (osst w) sc). mp_DevicePath m = p \<and> mp_MountPath m = mp"
    | (failed) "r = Inr False" "osst w' = osst w"
    | (mounted) "r = Inr True"
      "osst w' = edited (osst w) sc
         (\<lambda>ms. ms @ [\<lparr>mp_DevicePath = p, mp_MountPath = mp, mp_Options = {}\<rparr>])"
proof (cases "list_ex (\<lambda>m. mp_DevicePath m = p \<and> mp_MountPath m = mp) (active (osst w) sc)")
  case True
  with assms have "r = Inr True" "w' = w"
    by (auto simp: linux_MountDevice_def io_defs)
  with True show ?thesis by (auto simp: list_ex_iff intro!: already)
next
  case not_mounted: False
  obtain o1 w1 where mk: "run h [''mkdir'', ''-m'', ''0700'', ''-p'', mp] w = (Inr o1, w1)"
    by (rule returnsE [OF returns_run]) auto
  obtain o2 w2 where mo: "Run h (scoped_command sc) [''mount'', p, mp] w1 = (Inr o2, w2)"
    by (rule returnsE [OF returns_scoped]) auto
  from mk have e1: "osst w1 = osst w" by simp
  from mo e1 have e2: "osst w2 = osst w" by simp
  show ?thesis
  proof (cases "snd o1 \<and> snd o2")
    case False
    with assms(1) not_mounted mk mo e1 e2 have "r = Inr False" "osst w' = osst w"
      by (auto simp: linux_MountDevice_def io_defs split: prod.splits if_splits)
    then show ?thesis by (rule failed)
  next
    case True
    with assms not_mounted mk mo e2 have "r = Inr True"
      "osst w' = edited (osst w) sc
         (\<lambda>ms. ms @ [\<lparr>mp_DevicePath = p, mp_MountPath = mp, mp_Options = {}\<rparr>])"
      by (auto simp: linux_MountDevice_def io_defs edit_active_run split: prod.splits if_splits)
    then show ?thesis by (rule mounted)
  qed
qed

lemma linux_UnmountDevice_cases:
  assumes "linux_UnmountDevice h x sc w = (r, w')" and "ready (osst w)"
  obtains (absent) "r = Inr True" "w' = w" "\<forall>m \<in> set (active (osst w) sc). mp_MountPath m \<noteq> x"
    | (failed) "r = Inr False" "osst w' = osst w"
    | (unmounted) "r = Inr True" "osst w' = edited (osst w) sc (\<lambda>ms. removeMountPoint ms x)"
proof (cases "list_ex (\<lambda>m. mp_MountPath m = x) (active (osst w) sc)")
  case False
  with assms have "r = Inr True" "w' = w"
    by (auto simp: linux_UnmountDevice_def io_defs)
  with False show ?thesis by (auto simp: list_ex_iff intro!: absent)
next
  case is_mounted: True
  obtain o1 w1 where um: "Run h (scoped_command sc) [''umount'', x] w = (Inr o1, w1)"
    by (rule returnsE [OF returns_scoped]) auto
  then have e1: "osst w1 = osst w" by simp
  show ?thesis
  proof (cases "snd o1")
    case False
    with assms(1) is_mounted um e1 have "r = Inr False" "osst w' = osst w"
      by (auto simp: linux_UnmountDevice_def io_defs split: prod.splits if_splits)
    then show ?thesis by (rule failed)
  next
    case True
    with assms is_mounted um e1 have "r = Inr True"
      "osst w' = edited (osst w) sc (\<lambda>ms. removeMountPoint ms x)"
      by (auto simp: linux_UnmountDevice_def io_defs edit_active_run split: prod.splits if_splits)
    then show ?thesis by (rule unmounted)
  qed
qed

lemma ready_edited [simp]: "ready (edited l sc f)"
  by (simp add: ready_def edited_def)

lemma active_edited:
  "active (edited l scope f) sc =
     (if mountScopesAreSeparate l \<and> sc \<noteq> scope then active l sc else f (active l sc))"
  by (simp add: edited_def)

lemma removeMountPoint_unmounted_at: "unmounted_at x ms (removeMountPoint ms x)"
proof (cases "\<exists>m \<in> set ms. mp_MountPath m = x")
  case True
  then have "\<exists>xs m ys. ms = xs @ m # ys \<and> removeMountPoint ms x = xs @ ys \<and> mp_MountPath m = x"
  proof (induction ms)
    case (Cons a ms)
    show ?case
    proof (cases "mp_MountPath a = x")
      case True
      then show ?thesis by (metis append_Nil removeMountPoint.simps(2))
    next
      case False
      with Cons obtain xs m ys where "ms = xs @ m # ys" "removeMountPoint ms x = xs @ ys"
        "mp_MountPath m = x" by auto
      with False have "a # ms = (a # xs) @ m # ys \<and> removeMountPoint (a # ms) x = (a # xs) @ ys
        \<and> mp_MountPath m = x" by simp
      then show ?thesis by blast
    qed
  qed simp
  with True show ?thesis by (simp add: unmounted_at_def)
next
  case False
  then have "removeMountPoint ms x = ms" by (induction ms) auto
  with False show ?thesis by (simp add: unmounted_at_def)
qed

end
