(* ===== verification/Go_Filepath.thy ===== *)
theory Go_Filepath
  imports Go_Strings
begin

text \<open>
  Go's package path/filepath on a Unix system: \<open>Clean\<close>, \<open>Join\<close>, \<open>Dir\<close> and \<open>Base\<close>, as its
  documentation defines them. \<open>Clean\<close> works on the components between slashes: it drops
  empty components and ".", lets ".." cancel the component before it, drops ".." at the
  root and keeps leading ".." of a relative path.
\<close>

section \<open>Definitions\<close>

fun clean_comps :: "bool \<Rightarrow> string list \<Rightarrow> string list \<Rightarrow> string list" where
  "clean_comps rooted acc [] = rev acc"
| "clean_comps rooted acc (c # cs) =
     (if c = [] \<or> c = ''.'' then clean_comps rooted acc cs
      else if c = ''..'' then
        (case acc of
           [] \<Rightarrow> clean_comps rooted (if rooted then [] else [''..'']) cs
         | d # ds \<Rightarrow> if d = ''..'' then clean_comps rooted (''..'' # acc) cs
                    else clean_comps rooted ds cs)
      else clean_comps rooted (c # acc) cs)"

definition Clean :: "string \<Rightarrow> string" where
  "Clean p =
     (let rooted = HasPrefix p ''/'';
          cs = clean_comps rooted [] (Split CHR ''/'' p)
      in if rooted then CHR ''/'' # Join ''/'' cs
         else if cs = [] then ''.'' else Join ''/'' cs)"

definition FpJoin :: "string list \<Rightarrow> string" where
  "FpJoin elems =
     (let es = dropWhile (\<lambda>e. e = []) elems in if es = [] then [] else Clean (Join ''/'' es))"

text \<open>Everything up to and including the last slash, and the rest.\<close>

definition dir_part :: "string \<Rightarrow> string" where
  "dir_part p = rev (dropWhile (\<lambda>c. c \<noteq> CHR ''/'') (rev p))"

definition file_part :: "string \<Rightarrow> string" where
  "file_part p = rev (takeWhile (\<lambda>c. c \<noteq> CHR ''/'') (rev p))"

definition Dir :: "string \<Rightarrow> string" where
  "Dir p = Clean (dir_part p)"

definition Base :: "string \<Rightarrow> string" where
  "Base p =
     (if p = [] then ''.''
      else let q = rev (dropWhile (\<lambda>c. c = CHR ''/'') (rev p))
           in if file_part q = [] then ''/'' else file_part q)"

section \<open>File names and the paths built from them\<close>

text \<open>A string that names one entry of a directory.\<close>

definition file_name :: "string \<Rightarrow> bool" where
  "file_name s \<longleftrightarrow> s \<noteq> [] \<and> s \<noteq> ''.'' \<and> s \<noteq> ''..'' \<and> CHR ''/'' \<notin> set s"

lemma file_nameD: "file_name s \<Longrightarrow> CHR ''/'' \<notin> set s \<and> s \<noteq> []"
  by (simp add: file_name_def)

lemma dropWhile_slash_free:
  "CHR ''/'' \<notin> set s \<Longrightarrow> dropWhile (\<lambda>c. c \<noteq> CHR ''/'') (s @ CHR ''/'' # r) = CHR ''/'' # r"
  by (induction s) auto

lemma takeWhile_slash_free:
  "CHR ''/'' \<notin> set s \<Longrightarrow> takeWhile (\<lambda>c. c \<noteq> CHR ''/'') (s @ CHR ''/'' # r) = s"
  by (induction s) auto

lemma dir_part_append: "CHR ''/'' \<notin> set s \<Longrightarrow> dir_part (d @ CHR ''/'' # s) = d @ ''/''"
  by (simp add: dir_part_def dropWhile_slash_free)

lemma file_part_append: "CHR ''/'' \<notin> set s \<Longrightarrow> file_part (d @ CHR ''/'' # s) = s"
  by (simp add: file_part_def takeWhile_slash_free)

lemma Base_append:
  assumes "file_name s"
  shows "Base (d @ CHR ''/'' # s) = s"
proof -
  from assms have s: "CHR ''/'' \<notin> set s" "s \<noteq> []" by (auto dest: file_nameD)
  then obtain c r where "rev s = c # r" "c \<noteq> CHR ''/''"
    by (metis in_set_conv_decomp_first list.set_intros(1) neq_Nil_conv rev_is_Nil_conv set_rev)
  then have "rev (dropWhile (\<lambda>c. c = CHR ''/'') (rev (d @ CHR ''/'' # s))) = d @ CHR ''/'' # s"
    by simp
  with s show ?thesis by (simp add: Base_def Let_def file_part_append)
qed

text \<open>The three directories below which the program mounts drives or keeps its flags.\<close>

definition srv_node :: string where
  "srv_node = ''/srv/node''"

lemma Split_srv_node:
  "Split CHR ''/'' (srv_node @ CHR ''/'' # s) = [] # ''srv'' # ''node'' # Split CHR ''/'' s"
  by (simp add: srv_node_def)

lemma Clean_srv_node:
  assumes "file_name s"
  shows "Clean (srv_node @ CHR ''/'' # s) = srv_node @ CHR ''/'' # s"
  using assms unfolding Clean_def Split_srv_node
  by (simp add: file_name_def HasPrefix_def srv_node_def)

lemma FpJoin_srv_node: "file_name s \<Longrightarrow> FpJoin [srv_node, s] = srv_node @ CHR ''/'' # s"
  using Clean_srv_node [of s] by (simp add: FpJoin_def file_name_def srv_node_def)

lemma Dir_srv_node: "file_name s \<Longrightarrow> Dir (srv_node @ CHR ''/'' # s) = srv_node"
  by (simp add: Dir_def dir_part_append file_name_def)
     (simp add: Clean_def srv_node_def HasPrefix_def)

lemma Base_srv_node: "file_name s \<Longrightarrow> Base (srv_node @ CHR ''/'' # s) = s"
  by (rule Base_append)

lemma Dir_run_swift_storage:
  "CHR ''/'' \<notin> set s \<Longrightarrow> Dir (''/run/swift-storage/'' @ s) = ''/run/swift-storage''"
  using dir_part_append [of s "''/run/swift-storage''"]
  by (simp add: Dir_def Clean_def HasPrefix_def)

text \<open>A path whose last component is not a file name leaves the directory.\<close>

lemma FpJoin_escapes: "FpJoin [srv_node, ''../../etc''] = ''/etc''"
  by (simp add: FpJoin_def srv_node_def Clean_def HasPrefix_def)

end
