(* ===== verification/Linux_Device.thy ===== *)
theory Linux_Device
  imports Linux_Mount Go_Filepath
begin

text \<open>
  \<open>pkg/os/linux_device.go\<close> (what a device contains, formatting it), \<open>pkg/os/linux_file.go\<close>
  (the swift-id file, chown) and \<open>evalSymlinksInChroot\<close> of \<open>pkg/os/linux.go\<close>.
\<close>

section \<open>Devices\<close>

text \<open>The three cases of the switch on the output of file(1).\<close>

definition device_type_of :: "string \<Rightarrow> DeviceType" where
  "device_type_of desc =
     (if HasPrefix desc ''LUKS encrypted file'' then DeviceTypeLUKS
      else if Contains desc ''filesystem data'' then DeviceTypeFilesystem
      else DeviceTypeUnknown)"

definition linux_ClassifyDevice :: "'k host \<Rightarrow> string \<Rightarrow> ('k lworld, DeviceType) io" where
  "linux_ClassifyDevice h devicePath =
     bindM (Run h (Command0\<lparr>NoChroot := True\<rparr>) [''file'', ''-bLs'', TrimPrefix devicePath ''/''])
       (\<lambda>(desc, ok). ret (if \<not> ok then DeviceTypeUnreadable else device_type_of desc))"

definition linux_FormatDevice :: "'k host \<Rightarrow> string \<Rightarrow> ('k lworld, bool) io" where
  "linux_FormatDevice h devicePath =
     bindM (run h [''mkfs.xfs'', ''-f'', devicePath]) (\<lambda>(_, ok). ret ok)"

section \<open>Files\<close>

definition swiftIDPathIn :: "string \<Rightarrow> string" where
  "swiftIDPathIn mountPath = TrimPrefix (FpJoin [mountPath, ''swift-id'']) ''/''"

definition linux_ReadSwiftID :: "'k host \<Rightarrow> string \<Rightarrow> ('k lworld, os_error + string) io" where
  "linux_ReadSwiftID h mountPath =
     bindM (sysM (sys_readfile h (swiftIDPathIn mountPath))) (\<lambda>r. ret (case r of
         Inr buf \<Rightarrow> Inr (TrimSpace buf)
       | Inl (NotExist _) \<Rightarrow> Inr []
       | Inl e \<Rightarrow> Inl e))"

definition linux_WriteSwiftID ::
    "'k host \<Rightarrow> string \<Rightarrow> string \<Rightarrow> ('k lworld, os_error option) io" where
  "linux_WriteSwiftID h mountPath swiftID =
     sysM (sys_writefile h (swiftIDPathIn mountPath) (swiftID @ ''\<newline>''))"

definition linux_Chown :: "'k host \<Rightarrow> string \<Rightarrow> string \<Rightarrow> string \<Rightarrow> ('k lworld, unit) io" where
  "linux_Chown h path user grp =
     (if path = [] then log_fatal ''Cannot chown empty path''
      else if user = [] then
        (if grp = [] then ret ()
         else thenM (run h [''chgrp'', grp, path]) (ret ()))
      else thenM (run h [''chown'', (if grp \<noteq> [] then user @ '':'' @ grp else user), path])
                 (ret ()))"

section \<open>Symbolic links\<close>

definition evalSymlinksInChroot ::
    "'k host \<Rightarrow> string \<Rightarrow> ('k lworld, string + string) io" where
  "evalSymlinksInChroot h path0 =
     (let path = TrimPrefix path0 ''/''
      in bindM (sysM (sys_evalsymlinks h path)) (\<lambda>r. ret (case r of
           Inl e \<Rightarrow> Inl (''readlink('' @ Quote (FpJoin [''/'', path]) @ '') failed: '' @ error_text e)
         | Inr result \<Rightarrow> Inr (if HasPrefix result ''/'' then result else ''/'' @ result))))"

section \<open>Lemmas\<close>

lemma returns_ClassifyDevice [returns_intros]: "returns (linux_ClassifyDevice h p)"
  unfolding linux_ClassifyDevice_def
  by (auto simp: Command0_def intro!: returns_intros returns_Run)

lemma returns_FormatDevice [returns_intros]: "returns (linux_FormatDevice h p)"
  unfolding linux_FormatDevice_def by (auto intro!: returns_intros)

lemma returns_ReadSwiftID [returns_intros]: "returns (linux_ReadSwiftID h p)"
  unfolding linux_ReadSwiftID_def by (auto intro!: returns_intros)

lemma returns_WriteSwiftID [returns_intros]: "returns (linux_WriteSwiftID h p i)"
  unfolding linux_WriteSwiftID_def by (auto intro!: returns_intros)

lemma returns_Chown [returns_intros]: "p \<noteq> [] \<Longrightarrow> returns (linux_Chown h p u g)"
  unfolding linux_Chown_def by (auto intro!: returns_intros)

lemma keeps_ClassifyDevice [keeps_intros]: "keeps (\<lambda>w. P (osst w)) (linux_ClassifyDevice h p)"
  unfolding linux_ClassifyDevice_def by (auto intro!: keeps_intros)

lemma keeps_FormatDevice [keeps_intros]: "keeps (\<lambda>w. P (osst w)) (linux_FormatDevice h p)"
  unfolding linux_FormatDevice_def by (auto intro!: keeps_intros)

lemma keeps_ReadSwiftID [keeps_intros]: "keeps (\<lambda>w. P (osst w)) (linux_ReadSwiftID h p)"
  unfolding linux_ReadSwiftID_def by (auto intro!: keeps_intros)

lemma keeps_WriteSwiftID [keeps_intros]: "keeps (\<lambda>w. P (osst w)) (linux_WriteSwiftID h p i)"
  unfolding linux_WriteSwiftID_def by (auto intro!: keeps_intros)

lemma keeps_Chown [keeps_intros]: "keeps (\<lambda>w. P (osst w)) (linux_Chown h p u g)"
  unfolding linux_Chown_def by (auto intro!: keeps_intros)

lemma keeps_evalSymlinks [keeps_intros]: "keeps (\<lambda>w. P (osst w)) (evalSymlinksInChroot h p)"
  unfolding evalSymlinksInChroot_def Let_def by (auto intro!: keeps_intros)

end
