(* ===== verification/Linux_Luks.thy ===== *)
theory Linux_Luks
  imports Linux_Device
begin

text \<open>
  \<open>pkg/os/linux_luks.go\<close>: creating, opening and closing LUKS containers with cryptsetup, and
  the table of active LUKS mappings (backing device to mapped device) that is read with
  lsblk, dmsetup and cryptsetup.
\<close>

section \<open>Containers\<close>

definition linux_CreateLUKSContainer ::
    "'k host \<Rightarrow> string \<Rightarrow> string \<Rightarrow> ('k lworld, bool) io" where
  "linux_CreateLUKSContainer h devicePath key =
     bindM (Run h (Command0\<lparr>Stdin := key @ ''\<newline>''\<rparr>) [''cryptsetup'', ''luksFormat'', devicePath])
       (\<lambda>(_, ok). ret ok)"

definition dev_mapper :: "string \<Rightarrow> string" where
  "dev_mapper name = ''/dev/mapper/'' @ name"

text \<open>\<open>l.ActiveLUKSMappings[k] = v\<close>; \<open>make\<close> replaces a nil map by an empty one.\<close>

definition mappings :: "linux \<Rightarrow> string \<rightharpoonup> string" where
  "mappings l = (case ActiveLUKSMappings l of None \<Rightarrow> Map.empty | Some m \<Rightarrow> m)"

definition add_mapping :: "string \<Rightarrow> string \<Rightarrow> ('k lworld, unit) io" where
  "add_mapping k v =
     bindM get_os (\<lambda>l. put_os (l\<lparr>ActiveLUKSMappings := Some ((mappings l)(k \<mapsto> v))\<rparr>))"

fun linux_OpenLUKSContainer ::
    "'k host \<Rightarrow> string \<Rightarrow> string \<Rightarrow> string list \<Rightarrow> ('k lworld, string \<times> bool) io" where
  "linux_OpenLUKSContainer h devicePath mappingName [] = ret ([], False)"
| "linux_OpenLUKSContainer h devicePath mappingName (key # keys) =
     bindM (Run h (Command0\<lparr>Stdin := key @ ''\<newline>'', SkipLog := True\<rparr>)
              [''cryptsetup'', ''luksOpen'', devicePath, mappingName]) (\<lambda>(_, ok).
     if ok then
       thenM (add_mapping devicePath (dev_mapper mappingName))
             (ret (dev_mapper mappingName, True))
     else linux_OpenLUKSContainer h devicePath mappingName keys)"

definition linux_CloseLUKSContainer :: "'k host \<Rightarrow> string \<Rightarrow> ('k lworld, bool) io" where
  "linux_CloseLUKSContainer h mappingName =
     bindM (run h [''cryptsetup'', ''close'', mappingName]) (\<lambda>(_, ok). ret ok)"

section \<open>The table of mappings\<close>

text \<open>
  The regexp \<open>(?m)^\s*device:\s*(\S+)\s*$\<close> on the output of \<open>cryptsetup status\<close>. The flag
  says whether only white space has been seen since the start of the line.
\<close>

fun backingDeviceRx :: "bool \<Rightarrow> string \<Rightarrow> string option" where
  "backingDeviceRx bol [] = None"
| "backingDeviceRx bol (c # s) =
     (case (if bol \<and> HasPrefix (c # s) ''device:'' then word_to_eol (drop 7 (c # s)) else None) of
        Some word \<Rightarrow> Some word
      | None \<Rightarrow> backingDeviceRx (c = CHR ''\<newline>'' \<or> (bol \<and> re_space c)) s)"

text \<open>\<open>must.Return\<close> is \<open>logg.Fatal\<close> on an error.\<close>

definition must_Return :: "string + 'a \<Rightarrow> (('k, 's) world, 'a) io" where
  "must_Return r = (case r of Inl e \<Rightarrow> log_fatal e | Inr x \<Rightarrow> ret x)"

definition getBackingDevicePath :: "'k host \<Rightarrow> string \<Rightarrow> ('k lworld, string option) io" where
  "getBackingDevicePath h mapName =
     bindM (Run h (Command0\<lparr>ExitOnError := True\<rparr>) [''cryptsetup'', ''status'', mapName])
       (\<lambda>(stdout, _).
     case backingDeviceRx True stdout of
       None \<Rightarrow> log_fatal (''cannot find backing device for /dev/mapper/'' @ mapName)
     | Some m1 \<Rightarrow>
         if m1 = ''(null)'' then
           thenM (log_error (''skipping /dev/mapper/'' @ mapName @
                    '': `cryptsetup status` reports backing device as `(null)` (the kernel log probably has an IO error for the underlying device)''))
                 (ret None)
         else bindM (bindM (evalSymlinksInChroot h m1) must_Return)
                (\<lambda>devicePath. ret (Some (if devicePath \<noteq> m1 then devicePath else m1))))"

definition ParseLsblkOutput :: "'k host \<Rightarrow> string \<Rightarrow> string + LsblkDevice list" where
  "ParseLsblkOutput h buf = json_lsblk h buf"

definition run_lsblk :: "'k host \<Rightarrow> ('k lworld, LsblkDevice list) io" where
  "run_lsblk h =
     bindM (Run h (Command0\<lparr>ExitOnError := True\<rparr>) [''lsblk'', ''-J'']) (\<lambda>(stdout, _).
     case ParseLsblkOutput h stdout of
       Inl e \<Rightarrow> log_fatal (''cannot parse `lsblk -J` output: '' @ e)
     | Inr lsblkOutput \<Rightarrow> ret lsblkOutput)"

text \<open>The body of the loop over the lines of \<open>dmsetup ls\<close>.\<close>

definition refresh_mapping_line ::
    "'k host \<Rightarrow> LsblkDevice list \<Rightarrow> string \<Rightarrow> ('k lworld, unit) io" where
  "refresh_mapping_line h lsblkOutput line =
     (case Fields line of
        [] \<Rightarrow> ret ()
      | mappingName # _ \<Rightarrow>
          bindM (case FindBackingDeviceForLUKS lsblkOutput mappingName of
                   Inl e \<Rightarrow> exitM e
                 | Inr (Some p) \<Rightarrow> ret (Some p)
                 | Inr None \<Rightarrow> getBackingDevicePath h mappingName) (\<lambda>backingDevicePath.
          case backingDevicePath of
            None \<Rightarrow> ret ()
          | Some p \<Rightarrow>
              thenM (add_mapping p (dev_mapper mappingName))
              (bindM (evalSymlinksInChroot h p) (\<lambda>r. case r of
                 Inl e \<Rightarrow> log_fatal (''while resolving symlinks in '' @ p @ '': '' @ e)
               | Inr canonical \<Rightarrow> add_mapping canonical (dev_mapper mappingName)))))"

definition linux_RefreshLUKSMappings :: "'k host \<Rightarrow> ('k lworld, unit) io" where
  "linux_RefreshLUKSMappings h =
     bindM (run_lsblk h) (\<lambda>lsblkOutput.
     bindM get_os (\<lambda>l.
     thenM (put_os (l\<lparr>ActiveLUKSMappings := Some Map.empty\<rparr>))
     (bindM (Run h (Command0\<lparr>ExitOnError := True\<rparr>) [''dmsetup'', ''ls'', ''--target=crypt''])
       (\<lambda>(stdout, _).
        if TrimSpace stdout = ''No devices found'' then ret ()
        else forM (Split CHR ''\<newline>'' stdout) (refresh_mapping_line h lsblkOutput)))))"

definition linux_GetLUKSMappingOf :: "string \<Rightarrow> ('k lworld, string) io" where
  "linux_GetLUKSMappingOf devicePath =
     bindM get_os (\<lambda>l. ret (case mappings l devicePath of None \<Rightarrow> [] | Some p \<Rightarrow> p))"

section \<open>Lemmas\<close>

lemma returns_CreateLUKSContainer [returns_intros]: "returns (linux_CreateLUKSContainer h p key)"
  unfolding linux_CreateLUKSContainer_def
  by (auto simp: Command0_def intro!: returns_intros returns_Run)

lemma returns_add_mapping [returns_intros]: "returns (add_mapping k v)"
  unfolding add_mapping_def by (auto intro!: returns_intros)

lemma returns_OpenLUKSContainer [returns_intros]: "returns (linux_OpenLUKSContainer h p n ks)"
proof (induction ks)
  case Nil
  show ?case by (simp only: linux_OpenLUKSContainer.simps returns_ret)
next
  case (Cons k ks)
  have "returns (Run h (Command0\<lparr>Stdin := key, SkipLog := True\<rparr>) [''cryptsetup'', ''luksOpen'', p, n])"
    for key by (simp add: returns_Run)
  with Cons show ?case
    unfolding linux_OpenLUKSContainer.simps
    by (auto intro!: returns_bindM returns_thenM returns_add_mapping returns_ret)
qed

lemma returns_CloseLUKSContainer [returns_intros]: "returns (linux_CloseLUKSContainer h n)"
  unfolding linux_CloseLUKSContainer_def by (auto intro!: returns_intros)

lemma keeps_CreateLUKSContainer [keeps_intros]:
  "keeps (\<lambda>w. P (osst w)) (linux_CreateLUKSContainer h p key)"
  unfolding linux_CreateLUKSContainer_def by (auto intro!: keeps_intros)

lemma keeps_CloseLUKSContainer [keeps_intros]:
  "keeps (\<lambda>w. P (osst w)) (linux_CloseLUKSContainer h n)"
  unfolding linux_CloseLUKSContainer_def by (auto intro!: keeps_intros)

lemma add_mapping_run:
  "add_mapping k v w =
     (Inr (), w\<lparr>osst := (osst w)\<lparr>ActiveLUKSMappings := Some ((mappings (osst w))(k \<mapsto> v))\<rparr>\<rparr>)"
  by (simp add: add_mapping_def io_defs)

lemma mappings_upd [simp]:
  "mappings (l\<lparr>ActiveLUKSMappings := Some m\<rparr>) = m"
  "mappings (l\<lparr>ActiveMountPoints := x\<rparr>) = mappings l"
  by (simp_all add: mappings_def)

text \<open>Opening a container either changes nothing or enters the one mapping.\<close>

lemma linux_OpenLUKSContainer_effect:
  "linux_OpenLUKSContainer h p n ks w = (Inr (q, ok), w') \<Longrightarrow>
     (if ok then q = dev_mapper n \<and>
        osst w' = (osst w)\<lparr>ActiveLUKSMappings := Some ((mappings (osst w))(p \<mapsto> q))\<rparr>
      else osst w' = osst w)"
proof (induction h p n ks arbitrary: w rule: linux_OpenLUKSContainer.induct)
  case (2 h p n key ks)
  from 2(2) obtain a b w1 where
    r: "Run h (Command0\<lparr>Stdin := key @ ''\<newline>'', SkipLog := True\<rparr>)
          [''cryptsetup'', ''luksOpen'', p, n] w = (Inr (a, b), w1)"
    and rest: "(if b then thenM (add_mapping p (dev_mapper n)) (ret (dev_mapper n, True))
      else linux_OpenLUKSContainer h p n ks) w1 = (Inr (q, ok), w')"
    by (auto elim!: bindM_InrE)
  from r have e: "osst w1 = osst w" by simp
  show ?case
  proof (cases b)
    case True
    with rest e show ?thesis by (auto simp: add_mapping_run io_defs)
  next
    case False
    with rest have "linux_OpenLUKSContainer h p n ks w1 = (Inr (q, ok), w')" by simp
    with "2.IH" False e show ?thesis by metis
  qed
qed simp

end
