(* ===== verification/Util.thy ===== *)
theory Util
  imports Command Go_Filepath
begin

text \<open>
  \<open>pkg/util\<close>: the loop over the symbolic links of a directory (\<open>io.go\<close>) and the triggers of
  the collectors and the hooks of the integration tests (\<open>testmode.go\<close>).
\<close>

section \<open>ForeachSymlinkIn\<close>

text \<open>The handler assigns to variables of its caller, \<open>v\<close>. Opening the directory and reading
  it are one call.\<close>

definition visit_entry ::
    "'k host \<Rightarrow> string \<Rightarrow> (string \<Rightarrow> string \<Rightarrow> 'v \<Rightarrow> 'v) \<Rightarrow> string \<times> bool \<Rightarrow> bool \<times> 'v
     \<Rightarrow> (('k, 's) world, bool \<times> 'v) io" where
  "visit_entry h path handler fi acc =
     (if \<not> snd fi then ret acc
      else
        bindM (sysM (sys_readlink h (FpJoin [path, fst fi]))) (\<lambda>r.
        case r of
          Inr linkTarget \<Rightarrow> ret (fst acc, handler (fst fi) linkTarget (snd acc))
        | Inl err \<Rightarrow> thenM (log_error (error_text err)) (ret (False, snd acc))))"

definition ForeachSymlinkIn ::
    "'k host \<Rightarrow> string \<Rightarrow> (string \<Rightarrow> string \<Rightarrow> 'v \<Rightarrow> 'v) \<Rightarrow> 'v \<Rightarrow> (('k, 's) world, bool \<times> 'v) io" where
  "ForeachSymlinkIn h path handler v =
     bindM (sysM (sys_readdir h path)) (\<lambda>r.
     case r of
       Inl err \<Rightarrow> thenM (log_error (error_text err)) (ret (False, v))
     | Inr fis \<Rightarrow> foldM fis (visit_entry h path handler) (True, v))"

section \<open>The integration tests\<close>

definition InTestMode :: "'k host \<Rightarrow> bool" where
  "InTestMode h \<longleftrightarrow> getenv h ''TEST_MODE'' = ''1''"

text \<open>The two goroutines that \<open>SetupTestMode\<close> starts: one writes an empty line to stdout every
  second, the other waits for the signal SIGPIPE. \<open>test_turn\<close> is what one does when it wakes up.\<close>

datatype test_goroutine = BlankLines | SigpipeHandler

definition SetupTestMode :: "test_goroutine list" where
  "SetupTestMode = [BlankLines, SigpipeHandler]"

primrec test_turn :: "test_goroutine \<Rightarrow> (('k, 's) world, unit) io" where
  "test_turn BlankLines = logM LRaw ''\<newline>''"
| "test_turn SigpipeHandler = exitM (Exited 0)"

section \<open>Triggers\<close>

text \<open>One turn of the loop of \<open>testTrigger\<close>, after its sleep: whether it triggers, and the
  time that it remembers. Times are nanoseconds since 1970.\<close>

definition testTrigger_turn :: "'k host \<Rightarrow> string \<Rightarrow> int \<Rightarrow> (('k, 's) world, bool \<times> int) io" where
  "testTrigger_turn h path lastModTime =
     bindM (sysM (sys_stat h path)) (\<lambda>r.
     case r of
       Inr mtime \<Rightarrow> ret (mtime \<noteq> lastModTime, mtime)
     | Inl (NotExist e) \<Rightarrow> ret (0 \<noteq> lastModTime, 0)
     | Inl (OtherError e) \<Rightarrow> thenM (log_error e) (ret (False, lastModTime)))"

text \<open>The number of triggers that \<open>n\<close> turns send.\<close>

definition testTrigger :: "'k host \<Rightarrow> string \<Rightarrow> nat \<Rightarrow> (('k, 's) world, nat \<times> int) io" where
  "testTrigger h path n =
     foldM [0..<n] (\<lambda>_ (sent, lastModTime).
       bindM (testTrigger_turn h path lastModTime) (\<lambda>(fires, mtime).
       ret (if fires then sent + 1 else sent, mtime))) (0, 0)"

text \<open>The triggers that have been sent after \<open>n\<close> turns: one at the start when asked for, and
  outside of the tests one per turn.\<close>

definition StandardTrigger :: "'k host \<Rightarrow> string \<Rightarrow> bool \<Rightarrow> nat \<Rightarrow> (('k, 's) world, nat) io" where
  "StandardTrigger h testModeTriggerPath atStartup n =
     (let start = (if atStartup then 1 else 0)
      in if InTestMode h
         then bindM (testTrigger h testModeTriggerPath n) (\<lambda>(sent, _). ret (start + sent))
         else ret (start + n))"

definition GetJobInterval :: "'k host \<Rightarrow> 'a \<Rightarrow> 'a \<Rightarrow> 'a" where
  "GetJobInterval h normalInterval testModeInterval =
     (if InTestMode h then testModeInterval else normalInterval)"

section \<open>Lemmas\<close>

lemma returns_visit_entry [returns_intros]: "returns (visit_entry h path f fi acc)"
  unfolding visit_entry_def by (auto split: sum.splits intro!: returns_intros)

lemma returns_ForeachSymlinkIn [returns_intros]: "returns (ForeachSymlinkIn h path f v)"
  unfolding ForeachSymlinkIn_def by (auto split: sum.splits intro!: returns_intros)

lemma keeps_visit_entry [keeps_intros]: "keeps (\<lambda>w. P (osst w)) (visit_entry h path f fi acc)"
  unfolding visit_entry_def by (auto split: sum.splits intro!: keeps_intros)

lemma keeps_ForeachSymlinkIn [keeps_intros]: "keeps (\<lambda>w. P (osst w)) (ForeachSymlinkIn h path f v)"
  unfolding ForeachSymlinkIn_def by (auto split: sum.splits intro!: keeps_intros)

end
