(* ===== verification/Linux.thy ===== *)
theory Linux
  imports Linux_Luks Util
begin

text \<open>
  \<open>pkg/os/linux.go\<close>: the constructor with the detection of the mount propagation mode from
  /proc/self/mountinfo, and the record \<open>linux_osi\<close> that gathers the methods of \<open>*Linux\<close> as an
  \<open>os.Interface\<close>.
\<close>

section \<open>NewLinux\<close>

text \<open>The loop over the optional fields, which start at \<open>fields[6]\<close> and end at "-".\<close>

fun has_propagation_field :: "string list \<Rightarrow> exit + bool" where
  "has_propagation_field [] = Inl (Panic ''index out of range'')"
| "has_propagation_field (field # flds) =
     (if field = ''-'' then Inr False
      else if HasPrefix field ''shared:'' \<or> HasPrefix field ''master:''
        \<or> HasPrefix field ''propagate_from:'' then Inr True
      else has_propagation_field flds)"

fun scan_mountinfo :: "string \<Rightarrow> string list \<Rightarrow> exit + (string + MountPropagationMode)" where
  "scan_mountinfo chrootPath [] =
     Inr (Inl (''could not find mount for '' @ chrootPath @ '' in /proc/self/mountinfo''))"
| "scan_mountinfo chrootPath (line # lines) =
     (if TrimSpace line = [] then scan_mountinfo chrootPath lines
      else
        let flds = Fields (TrimSpace line)
        in if length flds < 5 then Inl (Panic ''index out of range'')
           else if Clean (flds ! 4) \<noteq> chrootPath then scan_mountinfo chrootPath lines
           else (case has_propagation_field (drop 6 flds) of
                   Inl e \<Rightarrow> Inl e
                 | Inr connected \<Rightarrow>
                     Inr (Inr (if connected then ConnectedMountNamespaces
                               else SeparateMountNamespaces))))"

definition detectMountPropagationMode ::
    "'k host \<Rightarrow> (('k, 's) world, string + MountPropagationMode) io" where
  "detectMountPropagationMode h =
     bindM (sysM (sys_getwd h)) (\<lambda>r.
     case r of
       Inl e \<Rightarrow> ret (Inl (error_text e))
     | Inr cwd \<Rightarrow>
         if Clean cwd = ''/'' then ret (Inr OneMountNamespace)
         else
           bindM (sysM (sys_readfile h ''/proc/self/mountinfo'')) (\<lambda>r.
           case r of
             Inl e \<Rightarrow> ret (Inl (error_text e))
           | Inr buf \<Rightarrow>
               (case scan_mountinfo (Clean cwd) (Split CHR ''\<newline>'' buf) of
                  Inl e \<Rightarrow> exitM e
                | Inr res \<Rightarrow> ret res)))"

primrec mode_name :: "MountPropagationMode \<Rightarrow> string" where
  "mode_name OneMountNamespace = ''identical''"
| "mode_name ConnectedMountNamespaces = ''connected''"
| "mode_name SeparateMountNamespaces = ''separate''"

definition NewLinux :: "'k host \<Rightarrow> (('k, 's) world, string + linux) io" where
  "NewLinux h =
     bindM (detectMountPropagationMode h) (\<lambda>r.
     case r of
       Inl e \<Rightarrow> ret (Inl (''mount propagation detection failed: '' @ e))
     | Inr mpm \<Rightarrow>
         thenM (whenM (\<not> InTestMode h) (log_info (''mount namespaces are: '' @ mode_name mpm)))
         (ret (Inr \<lparr>ActiveMountPoints = None, ActiveLUKSMappings = None, PropagationMode = mpm\<rparr>)))"

section \<open>The methods of *Linux as os.Interface\<close>

definition linux_osi :: "'k host \<Rightarrow> 'k lworld os_interface" where
  "linux_osi h =
     \<lparr>ClassifyDevice = linux_ClassifyDevice h,
      FormatDevice = linux_FormatDevice h,
      MountDevice = linux_MountDevice h,
      UnmountDevice = linux_UnmountDevice h,
      RefreshMountPoints = linux_RefreshMountPoints h,
      GetMountPointsIn = linux_GetMountPointsIn,
      GetMountPointsOf = linux_GetMountPointsOf,
      CreateLUKSContainer = linux_CreateLUKSContainer h,
      OpenLUKSContainer = linux_OpenLUKSContainer h,
      CloseLUKSContainer = linux_CloseLUKSContainer h,
      RefreshLUKSMappings = linux_RefreshLUKSMappings h,
      GetLUKSMappingOf = linux_GetLUKSMappingOf,
      ReadSwiftID = linux_ReadSwiftID h,
      WriteSwiftID = linux_WriteSwiftID h,
      Chown = linux_Chown h\<rparr>"

end
