(* ===== verification/Sample_Host.thy ===== *)
theory Sample_Host
  imports Os_Interface
begin

text \<open>
  Small concrete machines, on which the theorems of the other theories are applied: a host
  whose kernel is the list of the commands run and the files written so far, and an
  operating system interface without a state of its own.
\<close>

type_synonym trace = "string list list"

definition silent :: exec_result where
  "silent = \<lparr>exec_stdout = [], exec_stderr = [], exec_err = None\<rparr>"

definition failing :: "string \<Rightarrow> exec_result" where
  "failing e = \<lparr>exec_stdout = [], exec_stderr = [], exec_err = Some e\<rparr>"

definition printing :: "string \<Rightarrow> exec_result" where
  "printing s = \<lparr>exec_stdout = s, exec_stderr = [], exec_err = None\<rparr>"

text \<open>The arguments say what the commands print, where the links point to and what the
  files hold.\<close>

definition sample_host ::
    "(string list \<Rightarrow> exec_result) \<Rightarrow> (string \<Rightarrow> os_error + string) \<Rightarrow> (string \<Rightarrow> os_error + string)
     \<Rightarrow> trace host" where
  "sample_host out links files =
     \<lparr>geteuid = 0, getenv = (\<lambda>_. []), md5_hex = (\<lambda>_. ''d41d8cd9''), stack_limit = 100,
      json_lsblk = (\<lambda>_. Inr []),
      sys_exec = (\<lambda>argv stdin k. (out argv, k @ [argv])),
      sys_readlink = (\<lambda>p k. (links p, k)),
      sys_evalsymlinks = (\<lambda>p k. (Inr p, k)),
      sys_readfile = (\<lambda>p k. (files p, k)),
      sys_writefile = (\<lambda>p s k. (None, k @ [[''write'', p, s]])),
      sys_remove = (\<lambda>p k. (None, k @ [[''remove'', p]])),
      sys_readdir = (\<lambda>p k. (Inr [], k)),
      sys_glob = (\<lambda>p k. (Inr [], k)),
      sys_getwd = (\<lambda>k. (Inr ''/'', k)),
      sys_chdir = (\<lambda>p k. (None, k)),
      sys_stat = (\<lambda>p k. (Inl (NotExist []), k))\<rparr>"

definition quiet_host :: "trace host" where
  "quiet_host = sample_host (\<lambda>_. silent) (\<lambda>_. Inl (NotExist [])) (\<lambda>_. Inl (NotExist []))"

text \<open>An interface that classifies by \<open>ty\<close>, reads swift-ids by \<open>ids\<close>, has no mounts and
  writes down what it is asked to do.\<close>

definition sample_osi ::
    "(string \<Rightarrow> DeviceType) \<Rightarrow> (string \<Rightarrow> os_error + string)
     \<Rightarrow> (trace, 's) world os_interface" where
  "sample_osi ty ids =
     \<lparr>ClassifyDevice = (\<lambda>p. ret (ty p)),
      FormatDevice = (\<lambda>p. sysM (\<lambda>k. (True, k @ [[''format'', p]]))),
      MountDevice = (\<lambda>p mp sc. sysM (\<lambda>k. (True, k @ [[''mount'', p, mp, scope_name sc]]))),
      UnmountDevice = (\<lambda>mp sc. sysM (\<lambda>k. (True, k @ [[''umount'', mp, scope_name sc]]))),
      RefreshMountPoints = ret (),
      GetMountPointsIn = (\<lambda>p sc. ret []),
      GetMountPointsOf = (\<lambda>p sc. ret []),
      CreateLUKSContainer = (\<lambda>p key. sysM (\<lambda>k. (True, k @ [[''luksFormat'', p]]))),
      OpenLUKSContainer = (\<lambda>p n ks. sysM (\<lambda>k. ((''/dev/mapper/'' @ n, True), k @ [[''luksOpen'', p, n]]))),
      CloseLUKSContainer = (\<lambda>n. sysM (\<lambda>k. (True, k @ [[''luksClose'', n]]))),
      RefreshLUKSMappings = ret (),
      GetLUKSMappingOf = (\<lambda>p. ret []),
      ReadSwiftID = (\<lambda>p. ret (ids p)),
      WriteSwiftID = (\<lambda>p i. sysM (\<lambda>k. (None, k @ [[''swift-id'', p, i]]))),
      Chown = (\<lambda>p u g. ret ())\<rparr>"

end
