(* ===== verification/Core_Model.thy ===== *)
theory Core_Model
  imports Os_Contract Go_Filepath Sample_Host
begin

text \<open>
  The data of package core (\<open>pkg/core/model.go\<close>, \<open>assignment.go\<close>, \<open>drive.go\<close>) and the
  methods that only read it. A nil \<open>Device\<close> or \<open>*Assignment\<close> is \<open>None\<close>. A device is owned
  by exactly one drive or one LUKS device, so it is a value inside its owner.
\<close>

section \<open>Devices\<close>

datatype device =
  XFSDevice (dev_path: string) (dev_formatted: bool) (dev_mountPath: string)
| LUKSDevice (dev_path: string) (dev_formatted: bool) (dev_mapped: "device option")
    (dev_mappingName: string)

fun Device_MountedPath :: "device \<Rightarrow> string" where
  "Device_MountedPath (XFSDevice p f m) = m"
| "Device_MountedPath (LUKSDevice p f None n) = []"
| "Device_MountedPath (LUKSDevice p f (Some d) n) = Device_MountedPath d"

text \<open>\<open>newDevice\<close>: nil for an unreadable device.\<close>

definition newDevice ::
    "('k, 's) world os_interface \<Rightarrow> string \<Rightarrow> bool \<Rightarrow> (('k, 's) world, device option) io" where
  "newDevice osi path preferLUKS =
     bindM (ClassifyDevice osi path) (\<lambda>ty. ret (case ty of
         DeviceTypeUnreadable \<Rightarrow> None
       | DeviceTypeUnknown \<Rightarrow>
           if preferLUKS then Some (LUKSDevice path False None [])
           else Some (XFSDevice path False [])
       | DeviceTypeLUKS \<Rightarrow> Some (LUKSDevice path True None [])
       | DeviceTypeFilesystem \<Rightarrow> Some (XFSDevice path True [])))"

section \<open>Assignments\<close>

datatype AssignmentError =
  AssignmentOK | AssignmentMissing | AssignmentPending | AssignmentBlocked
| AssignmentDuplicate | AssignmentMismatch

text \<open>The constants of type \<open>AssignmentError\<close>, with the swift-id put in for \<open>%s\<close>.\<close>

primrec assignment_text :: "AssignmentError \<Rightarrow> string \<Rightarrow> string" where
  "assignment_text AssignmentOK i = []"
| "assignment_text AssignmentMissing i = ''no swift-id file found on device''"
| "assignment_text AssignmentPending i =
     ''no swift-id file found on device, will try to assign one''"
| "assignment_text AssignmentBlocked i =
     ''no swift-id file found on device, cannot auto-assign because of broken drives''"
| "assignment_text AssignmentDuplicate i =
     ''found multiple drives with swift-id \"'' @ i @ ''\" (not mounting any of them)''"
| "assignment_text AssignmentMismatch i = ''mountpoint mismatches swift-id \"'' @ i @ ''\"''"

record assignment =
  SwiftID :: string
  AssignError :: AssignmentError

definition spare :: string where
  "spare = ''spare''"

text \<open>\<open>(*Assignment).MountPath\<close>\<close>

definition Assignment_MountPath :: "assignment option \<Rightarrow> string" where
  "Assignment_MountPath oa =
     (case oa of
        None \<Rightarrow> []
      | Some a \<Rightarrow> if SwiftID a = spare \<or> AssignError a \<noteq> AssignmentOK then []
                  else FpJoin [srv_node, SwiftID a])"

section \<open>Drives\<close>

record drive =
  DevicePath :: string
  Device :: "device option"
  Broken :: bool
  DriveID :: string
  Assignment :: "assignment option"
  Keys :: "string list"

definition MountedPath :: "drive \<Rightarrow> string" where
  "MountedPath d = (case Device d of None \<Rightarrow> [] | Some dev \<Rightarrow> Device_MountedPath dev)"

text \<open>
  \<open>(*Drive).MountPath\<close>. The method asks the drive where it is mounted right now. While a
  device of the drive is being set up, the answer is the field \<open>mountPath\<close> of the innermost
  device, which the running method may just have changed; so the path where the drive is
  mounted is an argument of \<open>MountPathAt\<close>.
\<close>

definition MountPathAt :: "drive \<Rightarrow> string \<Rightarrow> string" where
  "MountPathAt d mountedPath =
     (let path = Assignment_MountPath (Assignment d)
      in if path = [] then
           (if mountedPath \<noteq> [] then mountedPath else ''/run/swift-storage/'' @ DriveID d)
         else path)"

definition MountPath :: "drive \<Rightarrow> string" where
  "MountPath d = MountPathAt d (MountedPath d)"

definition TransientBrokenFlagPath :: "drive \<Rightarrow> string" where
  "TransientBrokenFlagPath d = ''/run/swift-storage/broken/'' @ DriveID d"

definition DurableBrokenFlagPath :: "drive \<Rightarrow> string" where
  "DurableBrokenFlagPath d = ''/var/lib/swift-storage/broken/'' @ DriveID d"

definition EligibleForAutoAssignment :: "drive \<Rightarrow> bool" where
  "EligibleForAutoAssignment d \<longleftrightarrow>
     \<not> Broken d \<and> (case Assignment d of None \<Rightarrow> False
                      | Some a \<Rightarrow> AssignError a = AssignmentPending)"

text \<open>\<open>(*Assignment).ErrorMessage\<close>\<close>

definition ErrorMessage :: "assignment option \<Rightarrow> drive \<Rightarrow> string" where
  "ErrorMessage oa d =
     (case oa of
        None \<Rightarrow> []
      | Some a \<Rightarrow>
          if AssignError a = AssignmentOK then []
          else
            let msg = assignment_text (AssignError a) (SwiftID a); mounted = MountedPath d
            in if mounted = [] then ''invalid assignment for '' @ DevicePath d @ '': '' @ msg
               else ''invalid assignment for '' @ DevicePath d @ '' (mounted at '' @ mounted @ ''): ''
                 @ msg)"

text \<open>\<open>Assignment.Apply\<close>\<close>

definition Apply :: "assignment \<Rightarrow> drive \<Rightarrow> (('k, 's) world, drive) io" where
  "Apply a d =
     (let prevErrorMsg = ErrorMessage (Assignment d) d; currErrorMsg = ErrorMessage (Some a) d
      in thenM
           (whenM (prevErrorMsg \<noteq> currErrorMsg \<and> currErrorMsg \<noteq> [])
             (if AssignError a = AssignmentPending then log_info currErrorMsg
              else log_error currErrorMsg))
           (ret (d\<lparr>Assignment := Some a\<rparr>)))"

section \<open>Lemmas\<close>

lemma MountedPath_upd [simp]:
  "MountedPath (d\<lparr>Assignment := a\<rparr>) = MountedPath d"
  "MountedPath (d\<lparr>Broken := b\<rparr>) = MountedPath d"
  "MountedPath (d\<lparr>Device := Some dev\<rparr>) = Device_MountedPath dev"
  by (simp_all add: MountedPath_def)

lemma MountPath_innermost: "MountPath (d\<lparr>Device := Some dev\<rparr>) = MountPathAt d (Device_MountedPath dev)"
  by (simp add: MountPath_def MountPathAt_def Let_def)

lemma Device_MountedPath_inner [simp]:
  "Device_MountedPath (LUKSDevice p f od n) =
     (case od of None \<Rightarrow> [] | Some d \<Rightarrow> Device_MountedPath d)"
  by (cases od) auto

lemma Apply_run:
  "\<exists>ls. Apply a d w = (Inr (d\<lparr>Assignment := Some a\<rparr>), w\<lparr>logs := logs w @ ls\<rparr>)"
proof -
  have "w = w\<lparr>logs := logs w @ []\<rparr>" by simp
  then show ?thesis by (auto simp: Apply_def Let_def io_defs intro: exI [of _ "[]"])
qed

lemma returns_Apply [returns_intros]: "returns (Apply a d)"
  unfolding Apply_def Let_def by (auto intro!: returns_intros)

lemma Dir_nonempty_srv: "Dir [] \<noteq> srv_node"
  by (simp add: Dir_def dir_part_def Clean_def HasPrefix_def srv_node_def)

lemma clean_comps_nonempty:
  "\<forall>c \<in> set acc. c \<noteq> [] \<Longrightarrow> \<forall>c \<in> set (clean_comps r acc xs). c \<noteq> []"
proof (induction xs arbitrary: acc)
  case Nil
  then show ?case by simp
next
  case (Cons c cs)
  consider "c = [] \<or> c = ''.''" | "c = ''..''" | "c \<noteq> []" "c \<noteq> ''.''" "c \<noteq> ''..''" by blast
  then show ?case
  proof cases
    case 1
    then show ?thesis using Cons.IH [OF Cons.prems] by auto
  next
    case 2
    have "\<forall>c \<in> set (tl acc). c \<noteq> []" using Cons.prems by (cases acc) auto
    then have *: "\<forall>c \<in> set (clean_comps r (tl acc) cs). c \<noteq> []" by (rule Cons.IH)
    have "\<forall>c \<in> set (''..'' # acc). c \<noteq> []" using Cons.prems by simp
    then have **: "\<forall>c \<in> set (clean_comps r (''..'' # acc) cs). c \<noteq> []" by (rule Cons.IH)
    show ?thesis
    proof (cases acc)
      case Nil
      with 2 * ** show ?thesis by (cases r) simp_all
    next
      case (Cons d ds)
      then consider (a) "clean_comps r acc (c # cs) = clean_comps r (''..'' # acc) cs"
        | (b) "clean_comps r acc (c # cs) = clean_comps r (tl acc) cs"
        by (cases "d = ''..''") (simp_all add: 2)
      then show ?thesis
      proof cases
        case a
        show ?thesis unfolding a by (rule **)
      next
        case b
        show ?thesis unfolding b by (rule *)
      qed
    qed
  next
    case 3
    have "\<forall>x \<in> set (c # acc). x \<noteq> []" using Cons.prems 3 by auto
    then have *: "\<forall>x \<in> set (clean_comps r (c # acc) cs). x \<noteq> []" by (rule Cons.IH)
    have eq: "clean_comps r acc (c # cs) = clean_comps r (c # acc) cs" using 3 by simp
    show ?thesis unfolding eq by (rule *)
  qed
qed

lemma Join_not_Nil: "cs \<noteq> [] \<Longrightarrow> \<forall>c \<in> set cs. c \<noteq> [] \<Longrightarrow> Join sep cs \<noteq> []"
  by (induction sep cs rule: Join.induct) auto

lemma Clean_not_Nil: "Clean p \<noteq> []"
  unfolding Clean_def Let_def
  using Join_not_Nil [OF _ clean_comps_nonempty [of "[]" False "Split CHR ''/'' p"], of "''/''"]
  by simp

lemma FpJoin_srv_node_not_Nil: "FpJoin [srv_node, i] \<noteq> []"
  by (simp add: FpJoin_def srv_node_def Clean_not_Nil)

lemma Assignment_MountPath_Nil:
  "Assignment_MountPath oa = [] \<longleftrightarrow>
     (case oa of None \<Rightarrow> True | Some a \<Rightarrow> SwiftID a = spare \<or> AssignError a \<noteq> AssignmentOK)"
  by (auto simp: Assignment_MountPath_def FpJoin_srv_node_not_Nil split: option.splits)

lemma MountPath_not_Nil: "MountPath d \<noteq> []"
  by (simp add: MountPath_def MountPathAt_def Let_def)

lemma MountPathAt_fixpoint: "MountPathAt d (MountPathAt d m) = MountPathAt d m"
  by (simp add: MountPathAt_def Let_def)

text \<open>A drive with an XFS filesystem, for the applications of the theorems below.\<close>

definition xfs_drive :: "string \<Rightarrow> string \<Rightarrow> drive" where
  "xfs_drive p mountedAt =
     \<lparr>DevicePath = p, Device = Some (XFSDevice p True mountedAt), Broken = False,
      DriveID = file_part p, Assignment = None, Keys = []\<rparr>"

end
