(* ===== verification/Core_XFS.thy ===== *)
theory Core_XFS
  imports Core_Model
begin

text \<open>
  \<open>pkg/core/xfs.go\<close>: a device with an XFS filesystem. The methods of \<open>*XFSDevice\<close> become
  functions of its fields \<open>path\<close>, \<open>formatted\<close> and \<open>mountPath\<close> that return the fields they
  change. The lemmas that only need the mount table are proved in the locale
  \<open>mount_contract\<close>.
\<close>

section \<open>Validate\<close>

text \<open>The loop over the mounts of one scope; \<open>mp\<close> is \<open>d.mountPath\<close>.\<close>

fun XFS_Validate_mounts ::
    "string \<Rightarrow> MountScope \<Rightarrow> MountPoint list \<Rightarrow> string \<Rightarrow> (('k, 's) world, string option \<times> string) io"
where
  "XFS_Validate_mounts path scope [] mp = ret (None, mp)"
| "XFS_Validate_mounts path scope (m # ms) mp =
     (if ''ro'' \<in> mp_Options m then
        ret (Some (''mount of '' @ path @ '' at '' @ mp_MountPath m @ '' is read-only in '' @
               scope_name scope @ '' mount namespace (could be due to a disk error)''), mp)
      else if mp = [] then
        thenM (log_info (''discovered '' @ path @ '' to be mounted at '' @ mp_MountPath m
                 @ '' already in '' @ scope_name scope @ '' mount namespace''))
              (XFS_Validate_mounts path scope ms (mp_MountPath m))
      else if mp_MountPath m \<noteq> mp then
        ret (Some (''expected '' @ path @ '' to be mounted at '' @ mp @ '', but is actually mounted at ''
               @ mp_MountPath m @ '' in '' @ scope_name scope @ '' mount namespace''), mp)
      else XFS_Validate_mounts path scope ms mp)"

definition XFS_Validate_scope ::
    "('k, 's) world os_interface \<Rightarrow> string \<Rightarrow> MountScope \<Rightarrow> string
     \<Rightarrow> (('k, 's) world, string option \<times> string) io" where
  "XFS_Validate_scope osi path scope mp =
     bindM (GetMountPointsOf osi path scope) (\<lambda>mounts.
     if mounts = [] then
       (if mp = [] then ret (None, mp)
        else ret (Some (''expected '' @ path @ '' to be mounted at '' @ mp @
               '', but is not mounted anymore in '' @ scope_name scope @ '' mount namespace''), []))
     else XFS_Validate_mounts path scope mounts mp)"

definition XFS_Validate ::
    "('k, 's) world os_interface \<Rightarrow> string \<Rightarrow> string \<Rightarrow> (('k, 's) world, string option \<times> string) io"
where
  "XFS_Validate osi path mp = ForeachMountScopeOrError (XFS_Validate_scope osi path) mp"

section \<open>Setup\<close>

text \<open>"format on first use": whether to go on, and \<open>d.formatted\<close>.\<close>

definition XFS_Format ::
    "('k, 's) world os_interface \<Rightarrow> string \<Rightarrow> bool \<Rightarrow> (('k, 's) world, bool \<times> bool) io" where
  "XFS_Format osi path fmt =
     (if fmt then ret (True, fmt)
      else
        bindM (ClassifyDevice osi path) (\<lambda>ty.
        if ty \<noteq> DeviceTypeUnknown then
          thenM (log_error (''XFSDevice.Setup called on '' @ path @ '', but is not empty!''))
                (ret (False, fmt))
        else bindM (FormatDevice osi path) (\<lambda>ok. ret (ok, ok))))"

definition unmount_others ::
    "('k, 's) world os_interface \<Rightarrow> string \<Rightarrow> string \<Rightarrow> MountScope \<Rightarrow> (('k, 's) world, bool) io" where
  "unmount_others osi path mountPath scope =
     bindM (GetMountPointsOf osi path scope) (\<lambda>mounts.
       all_okM mounts (\<lambda>m.
         if mp_MountPath m \<noteq> mountPath then UnmountDevice osi (mp_MountPath m) scope
         else ret True))"

definition unmount_propagation_dir :: string where
  "unmount_propagation_dir = ''/run/swift-storage/state/unmount-propagation''"

definition clear_unmount_propagation :: "'k host \<Rightarrow> string \<Rightarrow> (('k, 's) world, unit) io" where
  "clear_unmount_propagation h mountPath =
     whenM (Dir mountPath = srv_node)
       (bindM (sysM (sys_remove h (FpJoin [unmount_propagation_dir, Base mountPath]))) (\<lambda>err.
        case err of
          Some (OtherError e) \<Rightarrow> log_error e
        | _ \<Rightarrow> ret ()))"

text \<open>The result is \<open>ok\<close> and the device as the method leaves it.\<close>

definition XFS_Setup ::
    "'k host \<Rightarrow> ('k, 's) world os_interface \<Rightarrow> drive \<Rightarrow> string \<Rightarrow> bool \<Rightarrow> string
     \<Rightarrow> (('k, 's) world, bool \<times> device) io" where
  "XFS_Setup h osi drv path fmt mp =
     bindM (XFS_Validate osi path mp) (\<lambda>(err, mp).
     case err of
       Some e \<Rightarrow> thenM (log_error e) (ret (False, XFSDevice path fmt mp))
     | None \<Rightarrow>
     bindM (XFS_Format osi path fmt) (\<lambda>(ok, fmt).
     if \<not> ok then ret (False, XFSDevice path fmt mp)
     else
     let mountPath = MountPathAt drv mp in
     bindM (ForeachMountScope (unmount_others osi path mountPath)) (\<lambda>ok.
     if \<not> ok then ret (False, XFSDevice path fmt mp)
     else
     let mp = (if mp \<noteq> mountPath then [] else mp) in
     bindM (ForeachMountScope (MountDevice osi path mountPath)) (\<lambda>ok.
     if \<not> ok then ret (False, XFSDevice path fmt mp)
     else thenM (clear_unmount_propagation h mountPath)
                (ret (True, XFSDevice path fmt mountPath))))))"

section \<open>Teardown\<close>

definition propagate_unmount :: "'k host \<Rightarrow> drive \<Rightarrow> string \<Rightarrow> (('k, 's) world, unit) io" where
  "propagate_unmount h drv x =
     whenM (Dir x = srv_node)
       (thenM (run h [''ln'', ''-sTf'', DevicePath drv,
                      unmount_propagation_dir @ ''/'' @ Base x])
              (ret ()))"

definition unmount_all ::
    "'k host \<Rightarrow> ('k, 's) world os_interface \<Rightarrow> drive \<Rightarrow> string \<Rightarrow> MountScope
     \<Rightarrow> (('k, 's) world, bool) io" where
  "unmount_all h osi drv path scope =
     bindM (GetMountPointsOf osi path scope) (\<lambda>mounts.
       all_okM mounts (\<lambda>m.
         thenM (propagate_unmount h drv (mp_MountPath m))
               (UnmountDevice osi (mp_MountPath m) scope)))"

definition XFS_Teardown ::
    "'k host \<Rightarrow> ('k, 's) world os_interface \<Rightarrow> drive \<Rightarrow> string \<Rightarrow> bool \<Rightarrow> string
     \<Rightarrow> (('k, 's) world, bool \<times> device) io" where
  "XFS_Teardown h osi drv path fmt mp =
     bindM (ForeachMountScope (unmount_all h osi drv path)) (\<lambda>ok.
       ret (ok, XFSDevice path fmt (if ok then [] else mp)))"

section \<open>Validate accepts exactly the consistent tables\<close>

text \<open>Where the device is mounted according to \<open>mp\<close> and then the mounts \<open>ms\<close>.\<close>

definition settle :: "string \<Rightarrow> MountPoint list \<Rightarrow> string" where
  "settle mp ms = (if mp = [] \<and> ms \<noteq> [] then mp_MountPath (hd ms) else mp)"

definition all_at :: "string \<Rightarrow> MountPoint list \<Rightarrow> bool" where
  "all_at x ms \<longleftrightarrow> (\<forall>m \<in> set ms. ''ro'' \<notin> mp_Options m \<and> mp_MountPath m = x)"

definition has_paths :: "MountPoint list \<Rightarrow> bool" where
  "has_paths ms \<longleftrightarrow> (\<forall>m \<in> set ms. mp_MountPath m \<noteq> [])"

lemma XFS_Validate_mounts_spec:
  assumes "has_paths ms"
  shows "\<exists>err mp' ls. XFS_Validate_mounts p sc ms mp w = (Inr (err, mp'), w\<lparr>logs := logs w @ ls\<rparr>) \<and>
    (err = None \<longleftrightarrow> all_at (settle mp ms) ms) \<and> (err = None \<longrightarrow> mp' = settle mp ms)"
  using assms
proof (induction ms arbitrary: mp w)
  case Nil
  have "w = w\<lparr>logs := logs w @ []\<rparr>" by simp
  then show ?case by (auto simp: settle_def all_at_def intro: exI [of _ "[]"])
next
  case (Cons m ms)
  from Cons.prems have m: "mp_MountPath m \<noteq> []" and ms: "has_paths ms"
    by (auto simp: has_paths_def)
  have w: "w = w\<lparr>logs := logs w @ []\<rparr>" by simp
  show ?case
  proof (cases "''ro'' \<in> mp_Options m \<or> (mp \<noteq> [] \<and> mp_MountPath m \<noteq> mp)")
    case True
    with w show ?thesis by (auto simp: settle_def all_at_def intro: exI [of _ "[]"])
  next
    case ok: False
    show ?thesis
    proof (cases "mp = []")
      case True
      let ?l = "(LInfo, ''discovered '' @ p @ '' to be mounted at '' @ mp_MountPath m
                 @ '' already in '' @ scope_name sc @ '' mount namespace'')"
      from Cons.IH [OF ms, of "mp_MountPath m" "w\<lparr>logs := logs w @ [?l]\<rparr>"]
      obtain err mp' ls where
        "XFS_Validate_mounts p sc ms (mp_MountPath m) (w\<lparr>logs := logs w @ [?l]\<rparr>) =
           (Inr (err, mp'), w\<lparr>logs := logs w @ (?l # ls)\<rparr>)"
        "err = None \<longleftrightarrow> all_at (mp_MountPath m) ms" "err = None \<longrightarrow> mp' = mp_MountPath m"
        using m by (auto simp: settle_def)
      with ok True m show ?thesis by (auto simp: io_defs settle_def all_at_def)
    next
      case False
      with Cons.IH [OF ms, of mp w] ok show ?thesis
        by (auto simp: settle_def all_at_def)
    qed
  qed
qed

text \<open>What \<open>Validate\<close> accepts, scope by scope, and the same seen from outside.\<close>

definition scope_accepted :: "string \<Rightarrow> MountPoint list \<Rightarrow> bool" where
  "scope_accepted mp ms \<longleftrightarrow> (if ms = [] then mp = [] else all_at (settle mp ms) ms)"

definition consistent_mounts :: "string \<Rightarrow> MountPoint list \<Rightarrow> MountPoint list \<Rightarrow> bool" where
  "consistent_mounts mp hostMounts localMounts \<longleftrightarrow>
     (mp = [] \<and> hostMounts = [] \<and> localMounts = []) \<or>
     (\<exists>x. (mp = x \<or> mp = []) \<and> localMounts \<noteq> [] \<and> (hostMounts \<noteq> [] \<or> mp = []) \<and>
          all_at x hostMounts \<and> all_at x localMounts)"

lemma all_at_Nil [simp]: "all_at x []"
  by (simp add: all_at_def)

lemma all_at_hd: "all_at x ms \<Longrightarrow> ms \<noteq> [] \<Longrightarrow> mp_MountPath (hd ms) = x"
  by (simp add: all_at_def)

lemma scope_accepted_both:
  assumes "has_paths H" and "has_paths L"
  shows "scope_accepted mp H \<and> scope_accepted (settle mp H) L \<longleftrightarrow> consistent_mounts mp H L"
proof (cases "H = []")
  case H: True
  show ?thesis
  proof (cases "L = []")
    case False
    with H show ?thesis
      by (auto simp: scope_accepted_def settle_def consistent_mounts_def all_at_Nil dest: all_at_hd)
  qed (use H in \<open>simp add: scope_accepted_def settle_def consistent_mounts_def\<close>)
next
  case H: False
  let ?x = "settle mp H"
  have x: "?x \<noteq> []" using H assms(1) by (cases H) (auto simp: settle_def has_paths_def)
  have sx: "settle ?x L = ?x" using x unfolding settle_def [of ?x] by simp
  have un: "y = ?x" if "all_at y H" "mp = y \<or> mp = []" for y
    using all_at_hd [OF that(1) H] that(2) H by (auto simp: settle_def)
  have mpx: "mp = ?x \<or> mp = []" by (simp add: settle_def)
  have split: "scope_accepted mp H \<and> scope_accepted ?x L \<longleftrightarrow> all_at ?x H \<and> L \<noteq> [] \<and> all_at ?x L"
    using H x sx by (simp add: scope_accepted_def)
  have fwd: "consistent_mounts mp H L" if "all_at ?x H \<and> L \<noteq> [] \<and> all_at ?x L"
    unfolding consistent_mounts_def
    by (rule disjI2, rule exI [of _ ?x]) (use that H mpx in simp)
  have conv: "all_at ?x H \<and> L \<noteq> [] \<and> all_at ?x L" if c: "consistent_mounts mp H L"
  proof -
    from c H obtain y where y: "mp = y \<or> mp = []" "L \<noteq> []" "all_at y H" "all_at y L"
      unfolding consistent_mounts_def by auto
    from un [OF y(3) y(1)] have "y = ?x" .
    with y(2,3,4) show ?thesis by (simp only: simp_thms)
  qed
  show ?thesis unfolding split by (rule iffI) (erule fwd, erule conv)
qed

context mount_contract
begin

lemma XFS_Validate_scope_spec:
  assumes "has_paths (mounts_of p (mounts (osst w) sc))"
  shows "\<exists>err mp' ls. XFS_Validate_scope osi p sc mp w = (Inr (err, mp'), w\<lparr>logs := logs w @ ls\<rparr>) \<and>
    (err = None \<longleftrightarrow> scope_accepted mp (mounts_of p (mounts (osst w) sc))) \<and>
    (err = None \<longrightarrow> mp' = settle mp (mounts_of p (mounts (osst w) sc)))"
proof (cases "mounts_of p (mounts (osst w) sc) = []")
  case True
  have w: "w = w\<lparr>logs := logs w @ []\<rparr>" by simp
  with True show ?thesis
    by (auto simp: XFS_Validate_scope_def bindM_def get_of scope_accepted_def settle_def
             intro: exI [of _ "[]"])
next
  case False
  with XFS_Validate_mounts_spec [OF assms, of p sc mp w] show ?thesis
    by (auto simp: XFS_Validate_scope_def bindM_def get_of scope_accepted_def)
qed

lemma XFS_Validate_spec:
  assumes "\<And>sc. has_paths (mounts_of p (mounts (osst w) sc))"
  shows "\<exists>err mp' ls. XFS_Validate osi p mp w = (Inr (err, mp'), w\<lparr>logs := logs w @ ls\<rparr>) \<and>
    (err = None \<longleftrightarrow> consistent_mounts mp (mounts_of p (mounts (osst w) HostScope))
                                       (mounts_of p (mounts (osst w) LocalScope)))"
proof -
  let ?H = "mounts_of p (mounts (osst w) HostScope)" and ?L = "mounts_of p (mounts (osst w) LocalScope)"
  obtain err mp1 ls where h: "XFS_Validate_scope osi p HostScope mp w = (Inr (err, mp1), w\<lparr>logs := logs w @ ls\<rparr>)"
    "err = None \<longleftrightarrow> scope_accepted mp ?H" "err = None \<longrightarrow> mp1 = settle mp ?H"
    using XFS_Validate_scope_spec [OF assms, of HostScope mp] by blast
  let ?w = "w\<lparr>logs := logs w @ ls\<rparr>"
  have "has_paths (mounts_of p (mounts (osst ?w) LocalScope))" using assms by simp
  from XFS_Validate_scope_spec [OF this, of mp1]
  obtain err2 mp2 ls2 where l: "XFS_Validate_scope osi p LocalScope mp1 ?w = (Inr (err2, mp2), w\<lparr>logs := logs w @ (ls @ ls2)\<rparr>)"
    "err2 = None \<longleftrightarrow> scope_accepted mp1 ?L"
    by auto
  show ?thesis
  proof (cases err)
    case None
    with h l scope_accepted_both [OF assms assms, of mp HostScope LocalScope] show ?thesis
      by (auto simp: XFS_Validate_def ForeachMountScopeOrError_def bindM_def)
  next
    case (Some e)
    with h scope_accepted_both [OF assms assms, of mp HostScope LocalScope] show ?thesis
      by (auto simp: XFS_Validate_def ForeachMountScopeOrError_def bindM_def)
  qed
qed

end

section \<open>What Setup and Teardown achieve\<close>

lemma thenM_ret [simp]: "thenM (ret x) m = m"
  by (simp add: thenM_def)

lemma set_filter_path: "mset xs \<subseteq># mset (map f (filter P ys)) \<Longrightarrow> \<forall>y. P y \<longrightarrow> f y = a \<Longrightarrow> set xs \<subseteq> {a}"
  by (drule set_mset_mono) auto

context mount_contract
begin

lemma unmount_others_spec:
  assumes u: "unmount_others osi p x sc w = (Inr True, w')"
    and r: "ready (osst w)" and e: "exclusive p (mounts (osst w) sc)"
  shows "ready (osst w') \<and> (\<forall>sc'. set (mounts (osst w') sc') \<subseteq> set (mounts (osst w) sc')) \<and>
    set (dev_paths p (mounts (osst w') sc)) \<subseteq> {x}"
proof -
  let ?R = "mounts_of p (mounts (osst w) sc)"
  from u have "all_okM ?R (\<lambda>m. if mp_MountPath m \<noteq> x
      then thenM (ret ()) (UnmountDevice osi (mp_MountPath m) sc) else ret True) w = (Inr True, w')"
    unfolding thenM_ret by (simp add: unmount_others_def bindM_def get_of)
  from unmount_loop [OF this _ r e, of "{#}"]
  have *: "ready (osst w') \<and> (\<forall>sc'. set (mounts (osst w') sc') \<subseteq> set (mounts (osst w) sc')) \<and>
    mset (dev_paths p (mounts (osst w') sc)) \<subseteq># mset (map mp_MountPath (filter (\<lambda>m. \<not> mp_MountPath m \<noteq> x) ?R))"
    by (simp add: frames_ret dev_paths_def)
  with set_filter_path [of "dev_paths p (mounts (osst w') sc)" mp_MountPath "\<lambda>m. \<not> mp_MountPath m \<noteq> x" ?R x]
  show ?thesis by simp
qed

lemma unmount_all_spec:
  assumes u: "unmount_all h osi drv p sc w = (Inr True, w')"
    and r: "ready (osst w)" and e: "exclusive p (mounts (osst w) sc)"
  shows "ready (osst w') \<and> (\<forall>sc'. set (mounts (osst w') sc') \<subseteq> set (mounts (osst w) sc')) \<and>
    dev_paths p (mounts (osst w') sc) = []"
proof -
  let ?R = "mounts_of p (mounts (osst w) sc)"
  from u have "all_okM ?R (\<lambda>m. if True
      then thenM (propagate_unmount h drv (mp_MountPath m)) (UnmountDevice osi (mp_MountPath m) sc)
      else ret True) w = (Inr True, w')"
    by (simp add: unmount_all_def bindM_def get_of)
  from unmount_loop [OF this _ r e, of "{#}"] show ?thesis
    by (auto simp: propagate_unmount_def dev_paths_def intro!: frames_intros)
qed

text \<open>Both scopes, one after the other.\<close>

lemma unmount_others_both:
  assumes "ForeachMountScope (unmount_others osi p x) w = (Inr True, w')"
    and "ready (osst w)" and "\<And>sc. exclusive p (mounts (osst w) sc)"
  shows "ready (osst w') \<and> (\<forall>sc. set (dev_paths p (mounts (osst w') sc)) \<subseteq> {x})"
proof -
  from assms(1) obtain w1 where h: "unmount_others osi p x HostScope w = (Inr True, w1)"
    and l: "unmount_others osi p x LocalScope w1 = (Inr True, w')"
    by (rule ForeachMountScope_TrueE)
  from unmount_others_spec [OF h assms(2,3)] have 1: "ready (osst w1)"
    "\<And>sc'. set (mounts (osst w1) sc') \<subseteq> set (mounts (osst w) sc')"
    "set (dev_paths p (mounts (osst w1) HostScope)) \<subseteq> {x}" by blast+
  from unmount_others_spec [OF l 1(1) exclusive_subset [OF assms(3) 1(2)]]
  have 2: "ready (osst w')" "\<And>sc'. set (mounts (osst w') sc') \<subseteq> set (mounts (osst w1) sc')"
    "set (dev_paths p (mounts (osst w') LocalScope)) \<subseteq> {x}" by blast+
  from dev_paths_subset [OF 2(2)] 1(3) have "set (dev_paths p (mounts (osst w') HostScope)) \<subseteq> {x}"
    by blast
  with 2(3) have "set (dev_paths p (mounts (osst w') sc)) \<subseteq> {x}" for sc by (cases sc) simp_all
  with 2(1) show ?thesis by blast
qed

lemma mount_both:
  assumes "ForeachMountScope (MountDevice osi p x) w = (Inr True, w')"
    and "ready (osst w)" and "\<And>sc. set (dev_paths p (mounts (osst w) sc)) \<subseteq> {x}"
  shows "ready (osst w') \<and> (\<forall>sc. set (dev_paths p (mounts (osst w') sc)) = {x})"
proof -
  from assms(1) obtain w1 where h: "MountDevice osi p x HostScope w = (Inr True, w1)"
    and l: "MountDevice osi p x LocalScope w1 = (Inr True, w')"
    by (rule ForeachMountScope_TrueE)
  note r1 = mount_ready [OF h assms(2)]
  have up: "set (dev_paths p (mounts (osst w') sc)) \<subseteq> {x}" for sc
    using mount_grows(2) [OF h assms(2), of sc] mount_grows(2) [OF l r1, of sc] assms(3) [of sc] by blast
  have "x \<in> set (dev_paths p (mounts (osst w') HostScope))"
    using mount_ok [OF h assms(2)] mount_grows(1) [OF l r1] by blast
  moreover have "x \<in> set (dev_paths p (mounts (osst w') LocalScope))"
    using mount_ok [OF l r1] .
  ultimately have "x \<in> set (dev_paths p (mounts (osst w') sc))" for sc by (cases sc) auto
  with up mount_ready [OF l r1] show ?thesis by blast
qed

lemma XFS_Validate_frame [frames_intros]: "frames v (XFS_Validate osi p mp)"
proof -
  have loop: "frames v (XFS_Validate_mounts p sc ms mp)" for sc ms mp
    by (induction p sc ms mp rule: XFS_Validate_mounts.induct) (auto intro!: frames_intros)
  show ?thesis
    unfolding XFS_Validate_def XFS_Validate_scope_def by (intro frames_intros loop)
qed

lemma XFS_Format_frame [frames_intros]: "frames tables (XFS_Format osi p f)"
  unfolding XFS_Format_def by (intro frames_intros)

lemma clear_unmount_propagation_frame [frames_intros]: "frames v (clear_unmount_propagation h x)"
  unfolding clear_unmount_propagation_def
  by (auto split: option.split os_error.split intro!: frames_intros)

lemma XFS_Setup_True:
  assumes s: "XFS_Setup h osi drv p f mp w = (Inr (True, d'), w')"
    and r: "ready (osst w)"
  shows "\<exists>x. d' = XFSDevice p True x \<and> x = MountPathAt drv x \<and>
    ((\<forall>sc. exclusive p (mounts (osst w) sc)) \<longrightarrow>
     ready (osst w') \<and> (\<forall>sc. set (dev_paths p (mounts (osst w') sc)) = {x}))"
proof -
  from s obtain mp1 w1 where v: "XFS_Validate osi p mp w = (Inr (None, mp1), w1)"
    and s1: "bindM (XFS_Format osi p f) (\<lambda>(ok, fmt).
     if \<not> ok then ret (False, XFSDevice p fmt mp1)
     else
     let mountPath = MountPathAt drv mp1 in
     bindM (ForeachMountScope (unmount_others osi p mountPath)) (\<lambda>ok.
     if \<not> ok then ret (False, XFSDevice p fmt mp1)
     else
     let mp = (if mp1 \<noteq> mountPath then [] else mp1) in
     bindM (ForeachMountScope (MountDevice osi p mountPath)) (\<lambda>ok.
     if \<not> ok then ret (False, XFSDevice p fmt mp)
     else thenM (clear_unmount_propagation h mountPath)
                (ret (True, XFSDevice p fmt mountPath))))) w1 = (Inr (True, d'), w')"
    unfolding XFS_Setup_def
    by (elim bindM_InrE) (auto elim!: thenM_InrE split: option.splits)
  define x where "x = MountPathAt drv mp1"
  from s1 obtain fmt w2 w3 w4 where fm: "XFS_Format osi p f w1 = (Inr (True, fmt), w2)"
    and u: "ForeachMountScope (unmount_others osi p x) w2 = (Inr True, w3)"
    and m: "ForeachMountScope (MountDevice osi p x) w3 = (Inr True, w4)"
    and c: "thenM (clear_unmount_propagation h x) (ret (True, XFSDevice p fmt x)) w4 = (Inr (True, d'), w')"
    unfolding x_def Let_def by (elim bindM_InrE) (auto elim!: bindM_InrE split: if_splits)
  from fm have "fmt" by (auto simp: XFS_Format_def elim!: bindM_InrE thenM_InrE split: if_splits)
  from framesD [OF XFS_Validate_frame [of tables] v] framesD [OF XFS_Format_frame fm]
  have t: "mounts (osst w2) = mounts (osst w)" "ready (osst w2) = ready (osst w)" by simp_all
  from c obtain a w5 where c1: "clear_unmount_propagation h x w4 = (Inr a, w5)"
    and d': "d' = XFSDevice p fmt x" and w5: "w5 = w'"
    by (auto elim!: thenM_InrE)
  have "ready (osst w') \<and> (\<forall>sc. set (dev_paths p (mounts (osst w') sc)) = {x})"
    if e: "\<forall>sc. exclusive p (mounts (osst w) sc)"
  proof -
    have o: "ready (osst w3) \<and> (\<forall>sc. set (dev_paths p (mounts (osst w3) sc)) \<subseteq> {x})"
      by (rule unmount_others_both [OF u]) (simp_all add: t r e)
    have "ready (osst w4) \<and> (\<forall>sc. set (dev_paths p (mounts (osst w4) sc)) = {x})"
      by (rule mount_both [OF m]) (use o in auto)
    with w5 framesD [OF clear_unmount_propagation_frame [of tables] c1] show ?thesis by simp
  qed
  moreover have "x = MountPathAt drv x" by (simp add: x_def MountPathAt_fixpoint)
  ultimately show ?thesis using d' \<open>fmt\<close> by blast
qed

lemma XFS_Teardown_True:
  assumes t: "XFS_Teardown h osi drv p f mp w = (Inr (True, d'), w')"
    and r: "ready (osst w)" and e: "\<And>sc. exclusive p (mounts (osst w) sc)"
  shows "d' = XFSDevice p f [] \<and> ready (osst w') \<and> (\<forall>sc. dev_paths p (mounts (osst w') sc) = [])"
proof -
  from t have "ForeachMountScope (unmount_all h osi drv p) w = (Inr True, w')" and d: "d' = XFSDevice p f []"
    by (auto simp: XFS_Teardown_def elim!: bindM_InrE)
  then obtain w1 where h: "unmount_all h osi drv p HostScope w = (Inr True, w1)"
    and l: "unmount_all h osi drv p LocalScope w1 = (Inr True, w')"
    by (auto elim: ForeachMountScope_TrueE)
  from unmount_all_spec [OF h r e] have 1: "ready (osst w1)"
    "\<And>sc'. set (mounts (osst w1) sc') \<subseteq> set (mounts (osst w) sc')"
    "dev_paths p (mounts (osst w1) HostScope) = []" by blast+
  from unmount_all_spec [OF l 1(1) exclusive_subset [OF e 1(2)]]
  have 2: "ready (osst w')" "\<And>sc'. set (mounts (osst w') sc') \<subseteq> set (mounts (osst w1) sc')"
    "dev_paths p (mounts (osst w') LocalScope) = []" by blast+
  from dev_paths_subset [OF 2(2), of p HostScope] 1(3) have "dev_paths p (mounts (osst w') HostScope) = []"
    by simp
  with 2(3) have "dev_paths p (mounts (osst w') sc) = []" for sc by (cases sc) auto
  with d 2(1) show ?thesis by blast
qed

end

end
