(* ===== verification/Core_LUKS.thy ===== *)
theory Core_LUKS
  imports Core_XFS
begin

text \<open>
  \<open>pkg/core/luks.go\<close> and the dynamic dispatch of the interface \<open>Device\<close>
  (\<open>pkg/core/model.go\<close>). The methods of \<open>*LUKSDevice\<close> take the calls on \<open>d.mapped\<close> as
  arguments; \<open>Device_Validate\<close>, \<open>Device_Setup\<close> and \<open>Device_Teardown\<close> tie the knot.

  A LUKS container may hold another one, and the devices inside are created while the
  methods run, so nothing in the program bounds the depth of the recursion of \<open>Validate\<close>
  and \<open>Setup\<close>. The model counts it: a call at depth 0 is Go's stack overflow, which ends
  the process. \<open>Teardown\<close> only walks down devices that exist already.
\<close>

section \<open>Validate\<close>

definition luks_discover ::
    "('k, 's) world os_interface \<Rightarrow> string \<Rightarrow> device option \<Rightarrow> string
     \<Rightarrow> (('k, 's) world, string option \<times> device option) io" where
  "luks_discover osi path mapped mappedDevicePath =
     (if mappedDevicePath = [] then
        (case mapped of
           Some m \<Rightarrow> ret (Some (''LUKS container in '' @ path @ '' should be open at '' @ dev_path m
                         @ '', but is not''), mapped)
         | None \<Rightarrow> ret (None, mapped))
      else (case mapped of
           None \<Rightarrow>
             thenM (log_info (''discovered '' @ path @ '' to be mapped to '' @ mappedDevicePath
                      @ '' already''))
             (bindM (newDevice osi mappedDevicePath False) (\<lambda>mapped. ret (None, mapped)))
         | Some m \<Rightarrow>
             if mappedDevicePath \<noteq> dev_path m then
               ret (Some (''LUKS container in '' @ path @ '' should be open at '' @ dev_path m
                      @ '', but is actually open at '' @ mappedDevicePath), mapped)
             else ret (None, mapped)))"

definition luks_not_mounted ::
    "('k, 's) world os_interface \<Rightarrow> string \<Rightarrow> (('k, 's) world, string option) io" where
  "luks_not_mounted osi path =
     bindM (ForeachMountScopeOrError (\<lambda>scope u.
        bindM (GetMountPointsOf osi path scope) (\<lambda>ms.
          if ms \<noteq> [] then
            ret (Some (path @ '' contains an open LUKS container, but is also mounted directly in ''
                   @ scope_name scope @ '' mount namespace''), u)
          else ret (None, u))) ()) (\<lambda>(err, _). ret err)"

definition LUKS_Validate ::
    "(device \<Rightarrow> (('k, 's) world, string option \<times> device) io)
     \<Rightarrow> ('k, 's) world os_interface \<Rightarrow> string \<Rightarrow> device option
     \<Rightarrow> (('k, 's) world, string option \<times> device option) io" where
  "LUKS_Validate mapped_Validate osi path mapped =
     bindM (GetLUKSMappingOf osi path) (\<lambda>mappedDevicePath.
     bindM (luks_discover osi path mapped mappedDevicePath) (\<lambda>(err, mapped).
     case err of Some e \<Rightarrow> ret (Some e, mapped) | None \<Rightarrow>
     bindM (luks_not_mounted osi path) (\<lambda>err.
     case err of Some e \<Rightarrow> ret (Some e, mapped) | None \<Rightarrow>
     case mapped of
       None \<Rightarrow> ret (None, None)
     | Some m \<Rightarrow> bindM (mapped_Validate m) (\<lambda>(err, m). ret (err, Some m)))))"

section \<open>Setup\<close>

definition LUKS_Format ::
    "('k, 's) world os_interface \<Rightarrow> drive \<Rightarrow> string \<Rightarrow> bool \<Rightarrow> (('k, 's) world, bool \<times> bool) io" where
  "LUKS_Format osi drv path fmt =
     (if fmt then ret (True, fmt)
      else
        bindM (ClassifyDevice osi path) (\<lambda>ty.
        if ty \<noteq> DeviceTypeUnknown then
          thenM (log_error (''LUKSDevice.Setup called on '' @ path @ '', but is not empty!''))
                (ret (False, fmt))
        else bindM (CreateLUKSContainer osi path (hd (Keys drv))) (\<lambda>ok. ret (ok, ok))))"

text \<open>"decrypt if necessary": whether to go on, \<open>d.mapped\<close> and \<open>d.mappingName\<close>.\<close>

definition LUKS_Open ::
    "('k, 's) world os_interface \<Rightarrow> drive \<Rightarrow> string \<Rightarrow> device option \<Rightarrow> string
     \<Rightarrow> (('k, 's) world, bool \<times> device option \<times> string) io" where
  "LUKS_Open osi drv path mapped mappingName =
     (case mapped of
        Some m \<Rightarrow> ret (True, Some m, mappingName)
      | None \<Rightarrow>
          bindM (OpenLUKSContainer osi path (DriveID drv) (Keys drv)) (\<lambda>(mappedDevicePath, ok).
          if ok then
            thenM (log_info (''LUKS container at '' @ path @ '' opened as '' @ mappedDevicePath))
            (bindM (newDevice osi mappedDevicePath False) (\<lambda>mapped.
             ret (True, mapped, DriveID drv)))
          else
            thenM (log_error (''exec(cryptsetup luksOpen '' @ path @ '' '' @ DriveID drv
                     @ '') failed: none of the configured keys was accepted''))
                  (ret (False, None, mappingName))))"

definition LUKS_Setup ::
    "(device \<Rightarrow> (('k, 's) world, string option \<times> device) io)
     \<Rightarrow> (device \<Rightarrow> (('k, 's) world, bool \<times> device) io)
     \<Rightarrow> ('k, 's) world os_interface \<Rightarrow> drive \<Rightarrow> string \<Rightarrow> bool \<Rightarrow> device option \<Rightarrow> string
     \<Rightarrow> (('k, 's) world, bool \<times> device) io" where
  "LUKS_Setup mapped_Validate mapped_Setup osi drv path fmt mapped mappingName =
     bindM (LUKS_Validate mapped_Validate osi path mapped) (\<lambda>(err, mapped).
     case err of
       Some e \<Rightarrow> thenM (log_error e) (ret (False, LUKSDevice path fmt mapped mappingName))
     | None \<Rightarrow>
     if Keys drv = [] then
       thenM (log_error (''LUKSDevice.Setup called on '' @ path @ '', but no keys specified!''))
             (ret (False, LUKSDevice path fmt mapped mappingName))
     else
     bindM (LUKS_Format osi drv path fmt) (\<lambda>(ok, fmt).
     if \<not> ok then ret (False, LUKSDevice path fmt mapped mappingName)
     else
     bindM (LUKS_Open osi drv path mapped mappingName) (\<lambda>(ok, mapped, mappingName).
     if \<not> ok then ret (False, LUKSDevice path fmt mapped mappingName)
     else
     case mapped of
       None \<Rightarrow> ret (False, LUKSDevice path fmt None mappingName)
     | Some m \<Rightarrow>
         bindM (mapped_Setup m) (\<lambda>(ok, m). ret (ok, LUKSDevice path fmt (Some m) mappingName)))))"

section \<open>Teardown\<close>

text \<open>"unmap container if necessary", after the contents have been torn down.\<close>

definition LUKS_Close ::
    "('k, 's) world os_interface \<Rightarrow> string \<Rightarrow> bool \<Rightarrow> string \<Rightarrow> (('k, 's) world, bool \<times> device) io" where
  "LUKS_Close osi path fmt mappingName =
     (if mappingName = [] then ret (True, LUKSDevice path fmt None mappingName)
      else
        bindM (CloseLUKSContainer osi mappingName) (\<lambda>ok.
        if ok then
          thenM (log_info (''LUKS container /dev/mapper/'' @ mappingName @ '' closed''))
                (ret (True, LUKSDevice path fmt None []))
        else ret (False, LUKSDevice path fmt None mappingName)))"

section \<open>The methods of the interface Device\<close>

fun Device_Validate ::
    "nat \<Rightarrow> ('k, 's) world os_interface \<Rightarrow> device \<Rightarrow> (('k, 's) world, string option \<times> device) io" where
  "Device_Validate n osi (XFSDevice path fmt mp) =
     bindM (XFS_Validate osi path mp) (\<lambda>(err, mp). ret (err, XFSDevice path fmt mp))"
| "Device_Validate 0 osi (LUKSDevice path fmt mapped mappingName) =
     exitM (Panic ''stack overflow'')"
| "Device_Validate (Suc n) osi (LUKSDevice path fmt mapped mappingName) =
     bindM (LUKS_Validate (Device_Validate n osi) osi path mapped) (\<lambda>(err, mapped).
       ret (err, LUKSDevice path fmt mapped mappingName))"

fun Device_Setup ::
    "nat \<Rightarrow> 'k host \<Rightarrow> ('k, 's) world os_interface \<Rightarrow> drive \<Rightarrow> device
     \<Rightarrow> (('k, 's) world, bool \<times> device) io" where
  "Device_Setup n h osi drv (XFSDevice path fmt mp) = XFS_Setup h osi drv path fmt mp"
| "Device_Setup 0 h osi drv (LUKSDevice path fmt mapped mappingName) =
     exitM (Panic ''stack overflow'')"
| "Device_Setup (Suc n) h osi drv (LUKSDevice path fmt mapped mappingName) =
     LUKS_Setup (Device_Validate n osi) (Device_Setup n h osi drv) osi drv path fmt mapped mappingName"

fun Device_Teardown ::
    "'k host \<Rightarrow> ('k, 's) world os_interface \<Rightarrow> drive \<Rightarrow> device
     \<Rightarrow> (('k, 's) world, bool \<times> device) io" where
  "Device_Teardown h osi drv (XFSDevice path fmt mp) = XFS_Teardown h osi drv path fmt mp"
| "Device_Teardown h osi drv (LUKSDevice path fmt None mappingName) =
     LUKS_Close osi path fmt mappingName"
| "Device_Teardown h osi drv (LUKSDevice path fmt (Some m) mappingName) =
     bindM (Device_Teardown h osi drv m) (\<lambda>(ok, m).
       if ok then LUKS_Close osi path fmt mappingName
       else ret (False, LUKSDevice path fmt (Some m) mappingName))"

text \<open>The steps of a \<open>Setup\<close> that succeeds.\<close>

lemma LUKS_Setup_steps:
  assumes "LUKS_Setup v s osi drv p f od nm w = (Inr (True, d'), w')"
  obtains od1 w1 w2 m nm' w3 m' where
    "LUKS_Validate v osi p od w = (Inr (None, od1), w1)" and "Keys drv \<noteq> []"
    and "LUKS_Format osi drv p f w1 = (Inr (True, True), w2)"
    and "LUKS_Open osi drv p od1 nm w2 = (Inr (True, Some m, nm'), w3)"
    and "s m w3 = (Inr (True, m'), w')" and "d' = LUKSDevice p True (Some m') nm'"
proof -
  from assms obtain od1 w1 where V: "LUKS_Validate v osi p od w = (Inr (None, od1), w1)" and K: "Keys drv \<noteq> []"
    and s1: "bindM (LUKS_Format osi drv p f) (\<lambda>(ok, fmt).
     if \<not> ok then ret (False, LUKSDevice p fmt od1 nm)
     else
     bindM (LUKS_Open osi drv p od1 nm) (\<lambda>(ok, mapped, mappingName).
     if \<not> ok then ret (False, LUKSDevice p fmt mapped mappingName)
     else
     case mapped of
       None \<Rightarrow> ret (False, LUKSDevice p fmt None mappingName)
     | Some m \<Rightarrow>
         bindM (s m) (\<lambda>(ok, m). ret (ok, LUKSDevice p fmt (Some m) mappingName)))) w1
       = (Inr (True, d'), w')"
    unfolding LUKS_Setup_def
    by (elim bindM_InrE) (auto elim!: thenM_InrE split: option.splits if_splits)
  from s1 obtain fmt w2 where F: "LUKS_Format osi drv p f w1 = (Inr (True, fmt), w2)"
    and s2: "bindM (LUKS_Open osi drv p od1 nm) (\<lambda>(ok, mapped, mappingName).
     if \<not> ok then ret (False, LUKSDevice p fmt mapped mappingName)
     else
     case mapped of
       None \<Rightarrow> ret (False, LUKSDevice p fmt None mappingName)
     | Some m \<Rightarrow>
         bindM (s m) (\<lambda>(ok, m). ret (ok, LUKSDevice p fmt (Some m) mappingName))) w2
       = (Inr (True, d'), w')"
    by (elim bindM_InrE) (auto split: if_splits)
  from s2 obtain m nm' w3 where O: "LUKS_Open osi drv p od1 nm w2 = (Inr (True, Some m, nm'), w3)"
    and s3: "bindM (s m) (\<lambda>(ok, m). ret (ok, LUKSDevice p fmt (Some m) nm')) w3 = (Inr (True, d'), w')"
    by (elim bindM_InrE) (auto split: if_splits option.splits)
  from s3 obtain m' where S: "s m w3 = (Inr (True, m'), w')" and d: "d' = LUKSDevice p fmt (Some m') nm'"
    by (elim bindM_InrE) auto
  have "fmt" using F by (auto simp: LUKS_Format_def elim!: bindM_InrE thenM_InrE split: if_splits)
  with V K F O S d show ?thesis by (intro that) simp_all
qed

text \<open>The device that holds, or would hold, the filesystem.\<close>

fun innermost :: "device \<Rightarrow> device" where
  "innermost (XFSDevice p f m) = XFSDevice p f m"
| "innermost (LUKSDevice p f None n) = LUKSDevice p f None n"
| "innermost (LUKSDevice p f (Some d) n) = innermost d"

lemma MountedPath_innermost: "Device_MountedPath (innermost d) = Device_MountedPath d"
  by (induction d rule: innermost.induct) auto

section \<open>Formatting\<close>

text \<open>
  \<open>spares S osi g c\<close>: no device in \<open>S\<close> ever classifies as empty, and the two operations that
  overwrite a device, \<open>g\<close> and \<open>c\<close>, are the interface's own except perhaps on devices in
  \<open>S\<close>. A function that computes the same with \<open>g\<close> and \<open>c\<close> as with the interface's own
  operations overwrites no device in \<open>S\<close>.
\<close>

definition spares ::
    "string set \<Rightarrow> ('k, 's) world os_interface \<Rightarrow> (string \<Rightarrow> (('k, 's) world, bool) io)
     \<Rightarrow> (string \<Rightarrow> string \<Rightarrow> (('k, 's) world, bool) io) \<Rightarrow> bool" where
  "spares S osi g c \<longleftrightarrow>
     (\<forall>p \<in> S. \<forall>w w'. ClassifyDevice osi p w \<noteq> (Inr DeviceTypeUnknown, w')) \<and>
     (\<forall>p. p \<notin> S \<longrightarrow> g p = FormatDevice osi p) \<and>
     (\<forall>p key. p \<notin> S \<longrightarrow> c p key = CreateLUKSContainer osi p key)"

definition overwriting ::
    "('k, 's) world os_interface \<Rightarrow> (string \<Rightarrow> (('k, 's) world, bool) io)
     \<Rightarrow> (string \<Rightarrow> string \<Rightarrow> (('k, 's) world, bool) io) \<Rightarrow> ('k, 's) world os_interface" where
  "overwriting osi g c = osi\<lparr>FormatDevice := g, CreateLUKSContainer := c\<rparr>"

lemma overwriting_select [simp]:
  "ClassifyDevice (overwriting osi g c) = ClassifyDevice osi"
  "FormatDevice (overwriting osi g c) = g"
  "MountDevice (overwriting osi g c) = MountDevice osi"
  "UnmountDevice (overwriting osi g c) = UnmountDevice osi"
  "RefreshMountPoints (overwriting osi g c) = RefreshMountPoints osi"
  "GetMountPointsIn (overwriting osi g c) = GetMountPointsIn osi"
  "GetMountPointsOf (overwriting osi g c) = GetMountPointsOf osi"
  "CreateLUKSContainer (overwriting osi g c) = c"
  "OpenLUKSContainer (overwriting osi g c) = OpenLUKSContainer osi"
  "CloseLUKSContainer (overwriting osi g c) = CloseLUKSContainer osi"
  "RefreshLUKSMappings (overwriting osi g c) = RefreshLUKSMappings osi"
  "GetLUKSMappingOf (overwriting osi g c) = GetLUKSMappingOf osi"
  "ReadSwiftID (overwriting osi g c) = ReadSwiftID osi"
  "WriteSwiftID (overwriting osi g c) = WriteSwiftID osi"
  "Chown (overwriting osi g c) = Chown osi"
  by (simp_all add: overwriting_def)

lemma bindM_never:
  assumes "\<And>w w'. m w \<noteq> (Inr x, w')" and "\<And>y. y \<noteq> x \<Longrightarrow> f y = f' y"
  shows "bindM m f = bindM m f'"
proof
  fix w
  obtain r w' where m: "m w = (r, w')" by fastforce
  show "bindM m f w = bindM m f' w"
  proof (cases r)
    case (Inr y)
    with m assms(1) have "y \<noteq> x" by auto
    with m Inr assms(2) show ?thesis by (simp add: bindM_def)
  qed (simp add: bindM_def m)
qed

lemma XFS_Format_spares:
  assumes "spares S osi g c" shows "XFS_Format (overwriting osi g c) p f = XFS_Format osi p f"
proof (cases "p \<in> S")
  case True
  with assms have "ClassifyDevice osi p w \<noteq> (Inr DeviceTypeUnknown, w')" for w w'
    by (auto simp: spares_def)
  then show ?thesis unfolding XFS_Format_def overwriting_select
    by (auto intro!: bindM_never [where x = DeviceTypeUnknown])
next
  case False
  with assms have eq: "g p = FormatDevice osi p" by (simp add: spares_def)
  show ?thesis unfolding XFS_Format_def overwriting_select eq by (rule refl)
qed

lemma LUKS_Format_spares:
  assumes "spares S osi g c" shows "LUKS_Format (overwriting osi g c) drv p f = LUKS_Format osi drv p f"
proof (cases "p \<in> S")
  case True
  with assms have "ClassifyDevice osi p w \<noteq> (Inr DeviceTypeUnknown, w')" for w w'
    by (auto simp: spares_def)
  then show ?thesis unfolding LUKS_Format_def overwriting_select
    by (auto intro!: bindM_never [where x = DeviceTypeUnknown])
next
  case False
  with assms have eq: "c p key = CreateLUKSContainer osi p key" for key by (simp add: spares_def)
  show ?thesis unfolding LUKS_Format_def overwriting_select eq by (rule refl)
qed

text \<open>Everything else does not look at the two operations.\<close>

lemma XFS_overwriting [simp]:
  "XFS_Validate (overwriting osi g c) p m = XFS_Validate osi p m"
  "unmount_others (overwriting osi g c) p x sc = unmount_others osi p x sc"
  "unmount_all h (overwriting osi g c) drv p sc = unmount_all h osi drv p sc"
  unfolding XFS_Validate_def XFS_Validate_scope_def unmount_others_def unmount_all_def
    overwriting_select by simp_all

lemma LUKS_overwriting [simp]:
  "newDevice (overwriting osi g c) p b = newDevice osi p b"
  "LUKS_Validate v (overwriting osi g c) p od = LUKS_Validate v osi p od"
  "LUKS_Open (overwriting osi g c) drv p od n = LUKS_Open osi drv p od n"
  "LUKS_Close (overwriting osi g c) p f n = LUKS_Close osi p f n"
  unfolding LUKS_Validate_def LUKS_Open_def LUKS_Close_def luks_discover_def luks_not_mounted_def
    newDevice_def overwriting_select by simp_all

lemma Device_Validate_overwriting [simp]:
  "Device_Validate n (overwriting osi g c) = Device_Validate n osi"
proof (induction n)
  case 0
  show ?case
  proof
    fix d show "Device_Validate 0 (overwriting osi g c) d = Device_Validate 0 osi d"
      by (cases d) simp_all
  qed
next
  case (Suc n)
  show ?case
  proof
    fix d show "Device_Validate (Suc n) (overwriting osi g c) d = Device_Validate (Suc n) osi d"
      by (cases d) (simp_all add: Suc)
  qed
qed

lemma XFS_Setup_spares:
  "spares S osi g c \<Longrightarrow> XFS_Setup h (overwriting osi g c) drv p f m = XFS_Setup h osi drv p f m"
  unfolding XFS_Setup_def XFS_overwriting overwriting_select by (simp only: XFS_Format_spares)

lemma unmount_others_overwriting [simp]:
  "unmount_others (overwriting osi g c) p x = unmount_others osi p x"
  by (rule ext) simp

lemma Device_Setup_spares:
  assumes "spares S osi g c"
  shows "Device_Setup n h (overwriting osi g c) drv = Device_Setup n h osi drv"
proof (induction n)
  case 0
  show ?case
  proof
    fix d show "Device_Setup 0 h (overwriting osi g c) drv d = Device_Setup 0 h osi drv d"
      by (cases d) (simp_all add: XFS_Setup_spares [OF assms])
  qed
next
  case (Suc n)
  show ?case
  proof
    fix d show "Device_Setup (Suc n) h (overwriting osi g c) drv d = Device_Setup (Suc n) h osi drv d"
    proof (cases d)
      case (LUKSDevice p f od nm)
      show ?thesis
        unfolding LUKSDevice Device_Setup.simps LUKS_Setup_def Suc Device_Validate_overwriting
          LUKS_overwriting LUKS_Format_spares [OF assms] by (rule refl)
    qed (simp add: XFS_Setup_spares [OF assms])
  qed
qed

lemma Device_Teardown_overwriting [simp]:
  "Device_Teardown h (overwriting osi g c) drv d = Device_Teardown h osi drv d"
proof (induction h osi drv d rule: Device_Teardown.induct)
  case (1 h osi drv p f m)
  have "unmount_all h (overwriting osi g c) drv p = unmount_all h osi drv p" by (rule ext) simp
  then show ?case by (simp add: XFS_Teardown_def)
next
  case (3 h osi drv p f m n)
  show ?case unfolding Device_Teardown.simps 3 LUKS_overwriting by (rule refl)
qed simp_all

end
