(* ===== verification/Core_Device.thy ===== *)
theory Core_Device
  imports Core_LUKS
begin

text \<open>
  What \<open>Setup\<close>, \<open>Teardown\<close> and \<open>Validate\<close> of any device achieve, proved from the contract
  of \<open>os.Interface\<close>: the filesystem at the bottom of a device is mounted at exactly one
  place after a successful \<open>Setup\<close> and nowhere after a successful \<open>Teardown\<close>, and with a
  sane operating system none of the methods ends the process.
\<close>

section \<open>Frames of the LUKS methods\<close>

context os_contract
begin

lemma newDevice_frame [frames_intros]:
  "frames tables (newDevice osi p b)" "frames luks (newDevice osi p b)"
  unfolding newDevice_def by (intro frames_intros)+

lemma luks_discover_frame [frames_intros]:
  "frames tables (luks_discover osi p od q)" "frames luks (luks_discover osi p od q)"
  unfolding luks_discover_def by (auto split: option.split intro!: frames_intros)

lemma luks_not_mounted_frame [frames_intros]: "frames v (luks_not_mounted osi p)"
  unfolding luks_not_mounted_def by (auto intro!: frames_intros)

lemma LUKS_Validate_frame:
  assumes "\<And>d. frames tables (v d)" shows "frames tables (LUKS_Validate v osi p od)"
  unfolding LUKS_Validate_def by (auto split: option.split intro!: frames_intros assms)

lemma LUKS_Format_frame [frames_intros]: "frames tables (LUKS_Format osi drv p f)"
  unfolding LUKS_Format_def by (auto intro!: frames_intros)

lemma LUKS_Open_frame [frames_intros]: "frames tables (LUKS_Open osi drv p od n)"
  unfolding LUKS_Open_def by (auto split: option.split intro!: frames_intros)

lemma LUKS_Close_frame [frames_intros]: "frames tables (LUKS_Close osi p f n)"
  unfolding LUKS_Close_def by (auto intro!: frames_intros)

lemma Device_Validate_frame: "frames tables (Device_Validate n osi d)"
proof (induction n arbitrary: d)
  case 0
  then show ?case by (cases d) (auto intro!: frames_intros)
next
  case (Suc n)
  then show ?case by (cases d) (auto intro!: frames_intros LUKS_Validate_frame)
qed

section \<open>After a successful Setup\<close>

lemma LUKS_Setup_TrueE:
  assumes s: "LUKS_Setup v s osi drv p f od nm w = (Inr (True, d'), w')"
    and v: "\<And>d. frames tables (v d)"
  obtains m w1 m' f' nm' where "tables (osst w1) = tables (osst w)" and "s m w1 = (Inr (True, m'), w')"
    and "d' = LUKSDevice p f' (Some m') nm'"
proof -
  from s obtain od1 w1 w2 m nm' w3 m' where V: "LUKS_Validate v osi p od w = (Inr (None, od1), w1)"
    and F: "LUKS_Format osi drv p f w1 = (Inr (True, True), w2)"
    and O: "LUKS_Open osi drv p od1 nm w2 = (Inr (True, Some m, nm'), w3)"
    and S: "s m w3 = (Inr (True, m'), w')" and d: "d' = LUKSDevice p True (Some m') nm'"
    by (rule LUKS_Setup_steps)
  have "tables (osst w3) = tables (osst w)"
    using framesD [OF LUKS_Validate_frame [OF v] V] framesD [OF LUKS_Format_frame F]
      framesD [OF LUKS_Open_frame O] by simp
  then show ?thesis using S d by (rule that)
qed

lemma Device_Setup_True:
  assumes "Device_Setup n h osi drv d w = (Inr (True, d'), w')" and "ready (osst w)"
  shows "\<exists>q x. innermost d' = XFSDevice q True x \<and> x = MountPathAt drv x \<and>
    ((\<forall>sc. exclusive q (mounts (osst w) sc)) \<longrightarrow>
     ready (osst w') \<and> (\<forall>sc. set (dev_paths q (mounts (osst w') sc)) = {x}))"
  using assms
proof (induction n arbitrary: d w d')
  case 0
  then show ?case by (cases d) (auto dest!: XFS_Setup_True)
next
  case (Suc n)
  show ?case
  proof (cases d)
    case (XFSDevice p f m)
    with Suc.prems XFS_Setup_True [of h drv p f m w d' w'] show ?thesis by auto
  next
    case (LUKSDevice p f od nm)
    with Suc.prems have "LUKS_Setup (Device_Validate n osi) (Device_Setup n h osi drv) osi drv p f od nm w
      = (Inr (True, d'), w')" by simp
    then obtain m w1 m' f' nm' where t: "tables (osst w1) = tables (osst w)"
      and s: "Device_Setup n h osi drv m w1 = (Inr (True, m'), w')"
      and d': "d' = LUKSDevice p f' (Some m') nm'"
      by (rule LUKS_Setup_TrueE) (rule Device_Validate_frame)
    from t Suc.prems have "ready (osst w1)" by simp
    from Suc.IH [OF s this] t d' show ?thesis by simp
  qed
qed

section \<open>After a successful Teardown\<close>

lemma LUKS_Close_True:
  assumes "LUKS_Close osi p f nm w = (Inr (True, d'), w')"
  shows "d' = LUKSDevice p f None [] \<and> tables (osst w') = tables (osst w)"
proof -
  from assms have "d' = LUKSDevice p f None []"
    by (auto simp: LUKS_Close_def elim!: bindM_InrE thenM_InrE split: if_splits)
  with framesD [OF LUKS_Close_frame assms] show ?thesis by simp
qed

lemma Device_Teardown_True:
  assumes "Device_Teardown h osi drv d w = (Inr (True, d'), w')" and "ready (osst w)"
    and "\<And>sc. exclusive (dev_path (innermost d)) (mounts (osst w) sc)"
  shows "Device_MountedPath d' = [] \<and> ready (osst w') \<and>
    (\<forall>q f m. innermost d = XFSDevice q f m \<longrightarrow> (\<forall>sc. dev_paths q (mounts (osst w') sc) = []))"
  using assms
proof (induction d arbitrary: d' w' rule: innermost.induct)
  case (1 p f m)
  then show ?case using XFS_Teardown_True [of h drv p f m w d' w'] by auto
next
  case (2 p f n)
  then show ?case using LUKS_Close_True [of p f n w d' w'] by auto
next
  case (3 p f m n)
  from 3(2) obtain m' w1 where t: "Device_Teardown h osi drv m w = (Inr (True, m'), w1)"
    and c: "LUKS_Close osi p f n w1 = (Inr (True, d'), w')"
    by (auto elim!: bindM_InrE split: if_splits)
  have "Device_MountedPath m' = [] \<and> ready (osst w1) \<and>
    (\<forall>q f x. innermost m = XFSDevice q f x \<longrightarrow> (\<forall>sc. dev_paths q (mounts (osst w1) sc) = []))"
    using 3(1) [OF t 3(3)] 3(4) by simp
  with LUKS_Close_True [OF c] show ?case by simp
qed

section \<open>No method ends the process\<close>

end

fun ranked :: "(string \<Rightarrow> nat) \<Rightarrow> device \<Rightarrow> bool" where
  "ranked rank (XFSDevice p f m) \<longleftrightarrow> True"
| "ranked rank (LUKSDevice p f None n) \<longleftrightarrow> True"
| "ranked rank (LUKSDevice p f (Some d) n) \<longleftrightarrow> rank (dev_path d) < rank p \<and> ranked rank d"

definition ranked_below :: "(string \<Rightarrow> nat) \<Rightarrow> string \<Rightarrow> device option \<Rightarrow> bool" where
  "ranked_below rank p od \<longleftrightarrow> (\<forall>d. od = Some d \<longrightarrow> rank (dev_path d) < rank p \<and> ranked rank d)"

lemma ranked_LUKS [simp]: "ranked rank (LUKSDevice p f od n) \<longleftrightarrow> ranked_below rank p od"
  by (cases od) (auto simp: ranked_below_def)

lemma ranked_below_None [simp]: "ranked_below rank p None"
  by (simp add: ranked_below_def)

lemma ranked_below_Some [simp]:
  "ranked_below rank p (Some d) \<longleftrightarrow> rank (dev_path d) < rank p \<and> ranked rank d"
  by (simp add: ranked_below_def)

context os_contract
begin

lemma newDevice_returns [returns_intros]: "returns (newDevice osi p b)"
  unfolding newDevice_def by (intro returns_intros)

lemma newDevice_value:
  "newDevice osi q b w = (Inr od, w') \<Longrightarrow> od = Some d \<Longrightarrow> dev_path d = q \<and> ranked rank d"
  by (auto simp: newDevice_def elim!: bindM_InrE split: DeviceType.splits if_splits)

lemma safe_newDevice:
  "rank q < rank p \<Longrightarrow> safe (sane rank) (newDevice osi q b) (ranked_below rank p)"
  by (rule safe_val [OF safe_frames]) (auto simp: ranked_below_def dest: newDevice_value intro!: returns_intros frames_intros)

lemma safe_get_luks:
  "safe (sane rank) (GetLUKSMappingOf osi p) (\<lambda>q. q \<noteq> [] \<longrightarrow> rank q < rank p)"
  by (rule safeI) (simp add: get_luks sane_tables_def)

lemma safe_log: "safe (sane rank) (logM l msg) (\<lambda>_. True)"
  by (rule safe_frames) (auto intro!: returns_intros frames_intros)

lemma safe_luks_discover:
  assumes "q \<noteq> [] \<longrightarrow> rank q < rank p" and "ranked_below rank p od"
  shows "safe (sane rank) (luks_discover osi p od q) (\<lambda>(err, od'). ranked_below rank p od')"
  unfolding luks_discover_def using assms
  by (auto split: option.split intro!: safe_ret safe_thenM safe_log safe_bindM [OF safe_newDevice])

lemma luks_not_mounted_returns [returns_intros]: "returns (luks_not_mounted osi p)"
  unfolding luks_not_mounted_def by (auto intro!: returns_intros)

lemma safe_LUKS_Validate:
  assumes v: "\<And>m. rank (dev_path m) < rank p \<Longrightarrow> ranked rank m \<Longrightarrow>
      safe (sane rank) (v m) (\<lambda>(err, m'). dev_path m' = dev_path m \<and> ranked rank m')"
    and "ranked_below rank p od"
  shows "safe (sane rank) (LUKS_Validate v osi p od) (\<lambda>(err, od'). ranked_below rank p od')"
  unfolding LUKS_Validate_def
proof (rule safe_bindM [OF safe_get_luks], rule safe_bindM [OF safe_luks_discover [OF _ assms(2)]],
    assumption, clarify)
  fix err :: "string option" and od1 assume od1: "ranked_below rank p od1"
  have nm: "safe (sane rank) (luks_not_mounted osi p) (\<lambda>_. True)"
    by (rule safe_frames) (auto intro!: returns_intros frames_intros)
  have tail: "safe (sane rank) (case od1 of None \<Rightarrow> ret (None, None)
     | Some m \<Rightarrow> bindM (v m) (\<lambda>(err, m). ret (err, Some m))) (\<lambda>(err, od'). ranked_below rank p od')"
  proof (cases od1)
    case None
    then show ?thesis by (simp add: safe_ret safe_Pair)
  next
    case (Some m)
    with od1 have m: "rank (dev_path m) < rank p" "ranked rank m" by simp_all
    have "safe (sane rank) (bindM (v m) (\<lambda>(err, m). ret (err, Some m)))
        (\<lambda>(err, od'). ranked_below rank p od')"
      by (rule safe_bindM [OF v [OF m]]) (use m in \<open>auto intro!: safe_ret safe_Pair\<close>)
    with Some show ?thesis by simp
  qed
  have inner: "safe (sane rank) (case e of Some e \<Rightarrow> ret (Some e, od1) | None \<Rightarrow>
      case od1 of None \<Rightarrow> ret (None, None)
      | Some m \<Rightarrow> bindM (v m) (\<lambda>(err, m). ret (err, Some m))) (\<lambda>(err, od'). ranked_below rank p od')" for e
    by (cases e) (use tail od1 in \<open>auto intro!: safe_ret safe_Pair\<close>)
  show "safe (sane rank) (case err of Some e \<Rightarrow> ret (Some e, od1) | None \<Rightarrow>
     bindM (luks_not_mounted osi p) (\<lambda>err.
     case err of Some e \<Rightarrow> ret (Some e, od1) | None \<Rightarrow>
     case od1 of
       None \<Rightarrow> ret (None, None)
     | Some m \<Rightarrow> bindM (v m) (\<lambda>(err, m). ret (err, Some m)))) (\<lambda>(err, od'). ranked_below rank p od')"
  proof (cases err)
    case None
    with safe_bindM [OF nm inner] show ?thesis by simp
  next
    case (Some e)
    with od1 show ?thesis by (simp add: safe_ret safe_Pair)
  qed
qed

lemma XFS_Validate_returns [returns_intros]: "returns (XFS_Validate osi p m)"
proof -
  have loop: "returns (XFS_Validate_mounts p sc ms mp)" for sc ms mp
    by (induction p sc ms mp rule: XFS_Validate_mounts.induct) (auto intro!: returns_intros)
  show ?thesis
    unfolding XFS_Validate_def XFS_Validate_scope_def by (intro returns_intros loop)
qed

lemma clear_unmount_propagation_returns [returns_intros]: "returns (clear_unmount_propagation h x)"
  unfolding clear_unmount_propagation_def
  by (auto split: option.split os_error.split intro!: returns_intros)

lemma XFS_Format_returns [returns_intros]: "returns (XFS_Format osi p f)"
  unfolding XFS_Format_def by (intro returns_intros)

lemma LUKS_Format_returns [returns_intros]: "returns (LUKS_Format osi drv p f)"
  unfolding LUKS_Format_def by (intro returns_intros)

lemma Format_luks [frames_intros]:
  "frames luks (XFS_Format osi p f)" "frames luks (LUKS_Format osi drv p f)"
  unfolding XFS_Format_def LUKS_Format_def by (intro frames_intros)+

lemma safe_mounts_of: "safe (sane rank) (GetMountPointsOf osi p sc) (\<lambda>_. True)"
  by (rule safe_frames) (intro returns_intros frames_intros)+

lemma safe_unmount_others: "safe (sane rank) (unmount_others osi p x sc) (\<lambda>_. True)"
  unfolding unmount_others_def
  by (rule safe_bindM [OF safe_mounts_of], rule safe_all_okM, rule safe_if [OF safe_unmount])
     (rule safe_ret, rule TrueI)

lemma safe_unmount_all: "safe (sane rank) (unmount_all h osi drv p sc) (\<lambda>_. True)"
proof -
  have p: "safe (sane rank) (propagate_unmount h drv x) (\<lambda>_. True)" for x
    unfolding propagate_unmount_def
    by (rule safe_frames; (intro returns_intros frames_intros returns_run)?) simp
  show ?thesis
    unfolding unmount_all_def
    by (rule safe_bindM [OF safe_mounts_of], rule safe_all_okM, rule safe_thenM [OF p safe_unmount])
qed

abbreviation keeps_place :: "(string \<Rightarrow> nat) \<Rightarrow> string \<Rightarrow> bool \<times> device \<Rightarrow> bool" where
  "keeps_place rank p \<equiv> \<lambda>(ok, d'). dev_path d' = p \<and> ranked rank d'"

lemma XFS_Setup_safe: "safe (sane rank) (XFS_Setup h osi drv p f m) (keeps_place rank p)"
proof -
  have v: "safe (sane rank) (XFS_Validate osi p m) (\<lambda>_. True)"
    by (rule safe_frames) (intro returns_intros frames_intros)+
  have f: "safe (sane rank) (XFS_Format osi p f) (\<lambda>_. True)"
    by (rule safe_frames) (intro returns_intros frames_intros)+
  have u: "safe (sane rank) (ForeachMountScope (unmount_others osi p x)) (\<lambda>_. True)" for x
    by (rule safe_ForeachMountScope [OF safe_unmount_others])
  have m: "safe (sane rank) (ForeachMountScope (MountDevice osi p x)) (\<lambda>_. True)" for x
    by (rule safe_ForeachMountScope [OF safe_mount])
  have c: "safe (sane rank) (clear_unmount_propagation h x) (\<lambda>_. True)" for x
    by (rule safe_frames) (intro returns_intros frames_intros)+
  have r: "safe (sane rank) (ret (b, XFSDevice p g y)) (keeps_place rank p)" for b g y
    by (rule safe_ret) simp
  show ?thesis
    unfolding XFS_Setup_def Let_def
    by (rule safe_bindM [OF v])
       (auto split: option.split intro!: safe_thenM [OF safe_log r] safe_bindM [OF f] r safe_bindM [OF u]
          safe_bindM [OF m] safe_thenM [OF c r])
qed

lemma XFS_Teardown_safe: "safe (sane rank) (XFS_Teardown h osi drv p f m) (keeps_place rank p)"
  unfolding XFS_Teardown_def
  by (rule safe_bindM [OF safe_ForeachMountScope [OF safe_unmount_all]]) (rule safe_ret, simp)

lemma Device_Validate_safe:
  "rank (dev_path d) < n \<Longrightarrow> ranked rank d \<Longrightarrow>
   safe (sane rank) (Device_Validate n osi d) (\<lambda>(err, d'). dev_path d' = dev_path d \<and> ranked rank d')"
proof (induction n arbitrary: d)
  case (Suc n)
  show ?case
  proof (cases d)
    case (XFSDevice p f m)
    have v: "safe (sane rank) (XFS_Validate osi p m) (\<lambda>_. True)"
      by (rule safe_frames) (intro returns_intros frames_intros)+
    show ?thesis
      unfolding XFSDevice Device_Validate.simps by (rule safe_bindM [OF v]) (auto intro!: safe_ret)
  next
    case (LUKSDevice p f od nm)
    have v: "safe (sane rank) (LUKS_Validate (Device_Validate n osi) osi p od)
        (\<lambda>(err, od'). ranked_below rank p od')"
      by (rule safe_LUKS_Validate [OF Suc.IH]) (use Suc.prems LUKSDevice in auto)
    show ?thesis
      unfolding LUKSDevice Device_Validate.simps by (rule safe_bindM [OF v]) (auto intro!: safe_ret)
  qed
qed simp

lemma LUKS_Open_safe:
  assumes "ranked_below rank p od"
    and o: "\<And>w q w'. OpenLUKSContainer osi p (DriveID drv) (Keys drv) w = (Inr (q, True), w') \<Longrightarrow> rank q < rank p"
  shows "safe (sane rank) (LUKS_Open osi drv p od nm) (\<lambda>(ok, od', nm'). ranked_below rank p od')"
proof -
  have s: "safe (sane rank) (OpenLUKSContainer osi p (DriveID drv) (Keys drv)) (\<lambda>(q, ok). ok \<longrightarrow> rank q < rank p)"
  proof (rule safeI)
    fix w assume i: "sane rank w"
    obtain q ok w' where m: "OpenLUKSContainer osi p (DriveID drv) (Keys drv) w = (Inr (q, ok), w')"
      by (rule returnsE [OF open_returns]) auto
    have "sane rank w'"
      using i open_luks [OF m] framesD [OF open_frame m] o m
      by (cases ok) (auto simp: sane_tables_def)
    with m o show "\<exists>x w'. OpenLUKSContainer osi p (DriveID drv) (Keys drv) w = (Inr x, w') \<and>
        sane rank w' \<and> (case x of (q, ok) \<Rightarrow> ok \<longrightarrow> rank q < rank p)" by auto
  qed
  show ?thesis
    unfolding LUKS_Open_def using assms(1)
    by (auto split: option.split intro!: safe_ret safe_Pair safe_bindM [OF s] safe_thenM [OF safe_log]
        safe_bindM [OF safe_newDevice])
qed

text \<open>The steps of \<open>LUKSDevice.Setup\<close> after the formatting, and the whole method, when \<open>v\<close> and \<open>s\<close> are
  the methods of the device in the container.\<close>

lemma LUKS_opened_safe:
  assumes s: "\<And>m. rank (dev_path m) < rank p \<Longrightarrow> ranked rank m \<Longrightarrow>
      safe (sane rank) (s m) (keeps_place rank (dev_path m))"
    and o: "\<And>w q w'. OpenLUKSContainer osi p (DriveID drv) (Keys drv) w = (Inr (q, True), w') \<Longrightarrow> rank q < rank p"
    and "ranked_below rank p od"
  shows "safe (sane rank) (bindM (LUKS_Open osi drv p od nm) (\<lambda>(ok, mapped, mappingName).
     if \<not> ok then ret (False, LUKSDevice p fmt mapped mappingName)
     else case mapped of None \<Rightarrow> ret (False, LUKSDevice p fmt None mappingName)
     | Some m \<Rightarrow> bindM (s m) (\<lambda>(ok, m). ret (ok, LUKSDevice p fmt (Some m) mappingName)))) (keeps_place rank p)"
proof -
  have inner: "safe (sane rank) (bindM (s m) (\<lambda>(ok, m). ret (ok, LUKSDevice p fmt (Some m) nm))) (keeps_place rank p)"
    if "rank (dev_path m) < rank p" "ranked rank m" for m fmt nm
    by (rule safe_bindM [OF s [OF that]]) (use that in \<open>auto intro!: safe_ret\<close>)
  have tail: "safe (sane rank) (case od of None \<Rightarrow> ret (False, LUKSDevice p fmt None nm)
     | Some m \<Rightarrow> bindM (s m) (\<lambda>(ok, m). ret (ok, LUKSDevice p fmt (Some m) nm))) (keeps_place rank p)"
    if "ranked_below rank p od" for od fmt nm
    by (cases od) (use that inner in \<open>auto intro!: safe_ret\<close>)
  have r: "safe (sane rank) (ret (b, LUKSDevice p fmt od nm)) (keeps_place rank p)"
    if "ranked_below rank p od" for b fmt od nm
    by (rule safe_ret) (use that in simp)
  show ?thesis
    by (rule safe_bindM [OF LUKS_Open_safe [OF assms(3) o]], assumption)
       (clarsimp simp del: ranked_LUKS, intro conjI impI r tail, assumption+)
qed

lemma LUKS_Setup_safe:
  assumes v: "\<And>m. rank (dev_path m) < rank p \<Longrightarrow> ranked rank m \<Longrightarrow>
      safe (sane rank) (v m) (\<lambda>(err, m'). dev_path m' = dev_path m \<and> ranked rank m')"
    and s: "\<And>m. rank (dev_path m) < rank p \<Longrightarrow> ranked rank m \<Longrightarrow>
      safe (sane rank) (s m) (keeps_place rank (dev_path m))"
    and o: "\<And>w q w'. OpenLUKSContainer osi p (DriveID drv) (Keys drv) w = (Inr (q, True), w') \<Longrightarrow> rank q < rank p"
    and "ranked_below rank p od"
  shows "safe (sane rank) (LUKS_Setup v s osi drv p f od nm) (keeps_place rank p)"
proof -
  have f: "safe (sane rank) (LUKS_Format osi drv p f) (\<lambda>_. True)"
    by (rule safe_frames) (intro returns_intros frames_intros)+
  have r: "safe (sane rank) (ret (b, LUKSDevice p fmt od nm)) (keeps_place rank p)"
    if "ranked_below rank p od" for b fmt od nm
    by (rule safe_ret) (use that in simp)
  have valid: "safe (sane rank) (case err of
      Some e \<Rightarrow> thenM (log_error e) (ret (False, LUKSDevice p f od1 nm))
    | None \<Rightarrow>
      if Keys drv = [] then
        thenM (log_error (''LUKSDevice.Setup called on '' @ p @ '', but no keys specified!''))
           (ret (False, LUKSDevice p f od1 nm))
      else bindM (LUKS_Format osi drv p f) (\<lambda>(ok, fmt).
        if \<not> ok then ret (False, LUKSDevice p fmt od1 nm)
        else bindM (LUKS_Open osi drv p od1 nm) (\<lambda>(ok, mapped, mappingName).
          if \<not> ok then ret (False, LUKSDevice p fmt mapped mappingName)
          else case mapped of None \<Rightarrow> ret (False, LUKSDevice p fmt None mappingName)
          | Some m \<Rightarrow> bindM (s m)
              (\<lambda>(ok, m). ret (ok, LUKSDevice p fmt (Some m) mappingName))))) (keeps_place rank p)"
    if "ranked_below rank p od1" for err :: "string option" and od1
    using that LUKS_opened_safe [OF s o that]
    by (cases err) (auto split del: if_split intro!: safe_if safe_thenM [OF safe_log] r safe_bindM [OF f])
  show ?thesis
    unfolding LUKS_Setup_def
    by (rule safe_bindM [OF safe_LUKS_Validate [OF v assms(4)]]) (auto simp del: ranked_LUKS intro: valid)
qed

lemma Device_Setup_safe:
  assumes o: "\<And>p w q w'. OpenLUKSContainer osi p (DriveID drv) (Keys drv) w = (Inr (q, True), w') \<Longrightarrow>
      rank q < rank p"
  shows "rank (dev_path d) < n \<Longrightarrow> ranked rank d \<Longrightarrow>
    safe (sane rank) (Device_Setup n h osi drv d) (keeps_place rank (dev_path d))"
proof (induction n arbitrary: d)
  case (Suc n)
  show ?case
  proof (cases d)
    case (XFSDevice p f m)
    then show ?thesis by (simp add: XFS_Setup_safe)
  next
    case (LUKSDevice p f od nm)
    with Suc.prems have below: "rank p < Suc n" "ranked_below rank p od" by simp_all
    show ?thesis
      unfolding LUKSDevice Device_Setup.simps device.sel
      by (rule LUKS_Setup_safe [OF Device_Validate_safe Suc.IH o below(2)]) (use below(1) in auto)
  qed
qed simp

lemma safe_LUKS_Close: "safe (sane rank) (LUKS_Close osi p f nm) (keeps_place rank p)"
proof -
  have c: "safe (sane rank) (CloseLUKSContainer osi nm) (\<lambda>_. True)"
    by (rule safe_frames) (intro returns_intros frames_intros)+
  show ?thesis
    unfolding LUKS_Close_def
    by (auto intro!: safe_ret safe_bindM [OF c] safe_thenM [OF safe_log])
qed

lemma Device_Teardown_safe:
  "ranked rank d \<Longrightarrow> safe (sane rank) (Device_Teardown h osi drv d) (keeps_place rank (dev_path d))"
proof (induction d rule: innermost.induct)
  case (1 p f m)
  then show ?case by (simp add: XFS_Teardown_safe)
next
  case (2 p f nm)
  then show ?case using safe_LUKS_Close by simp
next
  case (3 p f m nm)
  then show ?case
    by (auto intro!: safe_bindM [OF "3.IH"] safe_LUKS_Close safe_ret)
qed

end

end
