(* ===== verification/Core_Drive.thy ===== *)
theory Core_Drive
  imports Core_Device
begin

text \<open>
  \<open>pkg/core/drive.go\<close>: the life of a drive. A method that changes the receiver returns the
  drive as it leaves it. \<open>stack_limit\<close> of the host bounds the nesting of LUKS containers
  that \<open>Setup\<close> descends into (see theory \<open>Core_LUKS\<close>).
\<close>

section \<open>The operations\<close>

definition MarkAsBroken :: "'k host \<Rightarrow> drive \<Rightarrow> (('k, 's) world, drive) io" where
  "MarkAsBroken h d =
     (let flagPath = TransientBrokenFlagPath d
      in thenM (log_info (''flagging '' @ DevicePath d @ '' as broken because of previous error''))
         (bindM (run h [''ln'', ''-sfT'', DevicePath d, flagPath]) (\<lambda>(_, ok).
          thenM (whenM ok
                   (log_info (''To reinstate this drive into the cluster, delete the symlink at ''
                      @ flagPath)))
          (ret (d\<lparr>Broken := True, Assignment := None\<rparr>)))))"

text \<open>One iteration of the loop over the two broken-flags in \<open>NewDrive\<close>.\<close>

definition check_broken_flag ::
    "'k host \<Rightarrow> string \<Rightarrow> drive \<Rightarrow> (('k, 's) world, drive) io" where
  "check_broken_flag h brokenFlagPath d =
     bindM (sysM (sys_readlink h (TrimPrefix brokenFlagPath ''/''))) (\<lambda>r.
     case r of
       Inr _ \<Rightarrow>
         thenM (log_info (DevicePath d
                  @ '' was flagged as broken by a previous run of swift-drive-autopilot''))
               (MarkAsBroken h d)
     | Inl (NotExist _) \<Rightarrow> ret d
     | Inl (OtherError e) \<Rightarrow> thenM (log_error e) (ret d))"

text \<open>The fallback value for \<open>DriveID\<close>.\<close>

definition ensure_drive_id :: "'k host \<Rightarrow> drive \<Rightarrow> (('k, 's) world, drive) io" where
  "ensure_drive_id h d =
     (if DriveID d = [] then
        let i = md5_hex h (DevicePath d)
        in thenM (log_error (''cannot determine serial number for '' @ DevicePath d
                    @ '', will use device ID '' @ i @ '' instead''))
                 (ret (d\<lparr>DriveID := i\<rparr>))
      else ret d)"

definition NewDrive ::
    "'k host \<Rightarrow> ('k, 's) world os_interface \<Rightarrow> string \<Rightarrow> string \<Rightarrow> string list
     \<Rightarrow> (('k, 's) world, drive) io" where
  "NewDrive h osi devicePath serialNumber keys =
     bindM (newDevice osi devicePath (length keys > 0)) (\<lambda>dev.
     bindM (ensure_drive_id h
              \<lparr>DevicePath = devicePath, Device = dev, Broken = False, DriveID = serialNumber,
               Assignment = None, Keys = keys\<rparr>) (\<lambda>d.
     let d = d\<lparr>Broken := (dev = None)\<rparr>
     in foldM [TransientBrokenFlagPath d, DurableBrokenFlagPath d] (check_broken_flag h) d))"

text \<open>\<open>d.Device.Teardown(d, osi)\<close>, whose result the callers ignore. The call on a nil
  interface value panics.\<close>

definition teardown_device ::
    "'k host \<Rightarrow> ('k, 's) world os_interface \<Rightarrow> drive \<Rightarrow> (('k, 's) world, drive) io" where
  "teardown_device h osi d =
     (case Device d of
        None \<Rightarrow> exitM (Panic ''invalid memory address or nil pointer dereference'')
      | Some dev \<Rightarrow>
          bindM (Device_Teardown h osi d dev) (\<lambda>(_, dev). ret (d\<lparr>Device := Some dev\<rparr>)))"

definition Drive_Converge ::
    "'k host \<Rightarrow> ('k, 's) world os_interface \<Rightarrow> drive \<Rightarrow> (('k, 's) world, drive) io" where
  "Drive_Converge h osi d =
     (if Broken d then teardown_device h osi d
      else
        case Device d of
          None \<Rightarrow> exitM (Panic ''invalid memory address or nil pointer dereference'')
        | Some dev \<Rightarrow>
            bindM (Device_Setup (stack_limit h) h osi d dev) (\<lambda>(ok, dev).
            let d = d\<lparr>Device := Some dev\<rparr>
            in if \<not> ok then bindM (MarkAsBroken h d) (teardown_device h osi)
               else ret d))"

definition Drive_Teardown ::
    "'k host \<Rightarrow> ('k, 's) world os_interface \<Rightarrow> drive \<Rightarrow> (('k, 's) world, drive) io" where
  "Drive_Teardown h osi d = (if Device d \<noteq> None then teardown_device h osi d else ret d)"

section \<open>What changes and what does not\<close>

text \<open>The fields that tell drives apart never change after \<open>NewDrive\<close>.\<close>

definition same_drive :: "drive \<Rightarrow> drive \<Rightarrow> bool" where
  "same_drive d d' \<longleftrightarrow>
     DevicePath d' = DevicePath d \<and> DriveID d' = DriveID d \<and> Keys d' = Keys d"

lemma same_drive_refl [simp]: "same_drive d d"
  by (simp add: same_drive_def)

lemma same_drive_trans: "same_drive a b \<Longrightarrow> same_drive b c \<Longrightarrow> same_drive a c"
  by (simp add: same_drive_def)

lemma same_drive_upd [simp]:
  "same_drive d (e\<lparr>Device := v\<rparr>) = same_drive d e"
  "same_drive d (e\<lparr>Broken := b\<rparr>) = same_drive d e"
  "same_drive d (e\<lparr>Assignment := a\<rparr>) = same_drive d e"
  by (simp_all add: same_drive_def)

lemma MarkAsBroken_value:
  "MarkAsBroken h d w = (Inr d', w') \<Longrightarrow>
   d' = d\<lparr>Broken := True, Assignment := None\<rparr> \<and> osst w' = osst w"
  by (auto simp: MarkAsBroken_def Let_def whenM_def elim!: bindM_InrE thenM_InrE split: if_splits)

lemma returns_MarkAsBroken [returns_intros]: "returns (MarkAsBroken h d)"
  unfolding MarkAsBroken_def Let_def by (auto intro!: returns_intros)

lemma frames_MarkAsBroken [frames_intros]: "frames v (MarkAsBroken h d)"
  unfolding MarkAsBroken_def Let_def by (auto intro!: frames_intros)

lemma teardown_device_value:
  "teardown_device h osi d w = (Inr d', w') \<Longrightarrow> \<exists>dev. d' = d\<lparr>Device := Some dev\<rparr>"
  by (auto simp: teardown_device_def elim!: bindM_InrE split: option.splits)

text \<open>What \<open>Converge\<close> may do to the fields of a drive.\<close>

lemma Drive_Converge_value:
  assumes "Drive_Converge h osi d w = (Inr d', w')"
  shows "same_drive d d' \<and> Device d \<noteq> None \<and> Device d' \<noteq> None \<and>
    (Broken d \<longrightarrow> Broken d' \<and> Assignment d' = Assignment d) \<and>
    (\<not> Broken d \<longrightarrow> Assignment d' = (if Broken d' then None else Assignment d))"
proof (cases "Broken d")
  case True
  with assms have t: "teardown_device h osi d w = (Inr d', w')" by (simp add: Drive_Converge_def)
  have "Device d \<noteq> None" using t by (auto simp: teardown_device_def split: option.splits)
  with True teardown_device_value [OF t] show ?thesis by auto
next
  case False
  with assms obtain dev ok dev' w1 where D: "Device d = Some dev"
    and T: "(if \<not> ok then bindM (MarkAsBroken h (d\<lparr>Device := Some dev'\<rparr>)) (teardown_device h osi)
             else ret (d\<lparr>Device := Some dev'\<rparr>)) w1 = (Inr d', w')"
    unfolding Drive_Converge_def Let_def by (auto elim!: bindM_InrE split: option.splits)
  show ?thesis
  proof (cases ok)
    case True
    with T D False show ?thesis by auto
  next
    case no: False
    with T obtain d1 w2 where m: "MarkAsBroken h (d\<lparr>Device := Some dev'\<rparr>) w1 = (Inr d1, w2)"
      and t: "teardown_device h osi d1 w2 = (Inr d', w')"
      by (auto elim!: bindM_InrE)
    from MarkAsBroken_value [OF m] teardown_device_value [OF t] D False show ?thesis
      by (auto simp: same_drive_def)
  qed
qed

text \<open>What \<open>NewDrive\<close> builds, whatever it finds.\<close>

lemma check_broken_flag_value:
  assumes "check_broken_flag h p d w = (Inr d', w')"
  shows "d' = (if \<exists>t. fst (sys_readlink h (TrimPrefix p ''/'') (kern w)) = Inr t
               then d\<lparr>Broken := True, Assignment := None\<rparr> else d)"
  using assms
  by (auto simp: check_broken_flag_def sysM_def dest: MarkAsBroken_value
      elim!: bindM_InrE thenM_InrE split: sum.splits os_error.splits prod.splits)

lemma check_broken_flag_same:
  "check_broken_flag h p d w = (Inr d', w') \<Longrightarrow>
   d' = d \<or> d' = d\<lparr>Broken := True, Assignment := None\<rparr>"
  by (drule check_broken_flag_value) (simp split: if_splits)

lemma returns_check_broken_flag [returns_intros]: "returns (check_broken_flag h p d)"
  unfolding check_broken_flag_def by (auto split: sum.split os_error.split intro!: returns_intros)

lemma frames_check_broken_flag [frames_intros]: "frames v (check_broken_flag h p d)"
  unfolding check_broken_flag_def by (auto split: sum.split os_error.split intro!: frames_intros)

lemma ensure_drive_id_value:
  "ensure_drive_id h d w = (Inr d', w') \<Longrightarrow>
   d' = d\<lparr>DriveID := (if DriveID d = [] then md5_hex h (DevicePath d) else DriveID d)\<rparr>"
  by (auto simp: ensure_drive_id_def Let_def elim!: thenM_InrE split: if_splits)

lemma NewDrive_value:
  assumes "NewDrive h osi p serial keys w = (Inr d, w')"
  shows "DevicePath d = p \<and> Keys d = keys \<and> Assignment d = None \<and>
    DriveID d = (if serial = [] then md5_hex h p else serial) \<and>
    (Device d = None \<longrightarrow> Broken d) \<and> (\<forall>dev. Device d = Some dev \<longrightarrow> dev_path dev = p \<and> innermost dev = dev \<and> MountedPath d = [])"
proof -
  from assms obtain dev w1 d1 w2 where n: "newDevice osi p (length keys > 0) w = (Inr dev, w1)"
    and e: "ensure_drive_id h \<lparr>DevicePath = p, Device = dev, Broken = False, DriveID = serial,
               Assignment = None, Keys = keys\<rparr> w1 = (Inr d1, w2)"
    and f: "foldM [TransientBrokenFlagPath (d1\<lparr>Broken := (dev = None)\<rparr>),
             DurableBrokenFlagPath (d1\<lparr>Broken := (dev = None)\<rparr>)] (check_broken_flag h)
             (d1\<lparr>Broken := (dev = None)\<rparr>) w2 = (Inr d, w')"
    unfolding NewDrive_def Let_def by (elim bindM_InrE) blast
  from ensure_drive_id_value [OF e] have d1: "d1 = \<lparr>DevicePath = p, Device = dev, Broken = False,
      DriveID = (if serial = [] then md5_hex h p else serial), Assignment = None, Keys = keys\<rparr>"
    by simp
  from f have "d = d1\<lparr>Broken := (dev = None)\<rparr> \<or> d = d1\<lparr>Broken := True, Assignment := None\<rparr>"
    by (auto elim!: bindM_InrE dest!: check_broken_flag_same)
  moreover from n have "\<forall>x. dev = Some x \<longrightarrow> dev_path x = p \<and> innermost x = x \<and> Device_MountedPath x = []"
    by (auto simp: newDevice_def elim!: bindM_InrE split: DeviceType.splits if_splits)
  ultimately show ?thesis unfolding d1 by (auto simp: MountedPath_def split: option.splits)
qed

section \<open>A broken drive is only torn down\<close>

text \<open>The interface with other operations for everything that brings a device up.\<close>

definition inert ::
    "('k, 's) world os_interface \<Rightarrow> ('k, 's) world os_interface \<Rightarrow> ('k, 's) world os_interface" where
  "inert other osi = osi\<lparr>
     ClassifyDevice := ClassifyDevice other, FormatDevice := FormatDevice other,
     MountDevice := MountDevice other, CreateLUKSContainer := CreateLUKSContainer other,
     OpenLUKSContainer := OpenLUKSContainer other, ReadSwiftID := ReadSwiftID other,
     WriteSwiftID := WriteSwiftID other, Chown := Chown other\<rparr>"

lemma inert_select [simp]:
  "UnmountDevice (inert other osi) = UnmountDevice osi"
  "GetMountPointsOf (inert other osi) = GetMountPointsOf osi"
  "CloseLUKSContainer (inert other osi) = CloseLUKSContainer osi"
  by (simp_all add: inert_def)

lemma unmount_all_inert [simp]: "unmount_all h (inert other osi) drv p = unmount_all h osi drv p"
  by (rule ext) (simp add: unmount_all_def)

lemma LUKS_Close_inert [simp]: "LUKS_Close (inert other osi) p f n = LUKS_Close osi p f n"
  by (simp add: LUKS_Close_def)

lemma Device_Teardown_inert [simp]:
  "Device_Teardown h (inert other osi) drv d = Device_Teardown h osi drv d"
proof (induction d rule: innermost.induct)
  case (1 p f m)
  show ?case by (simp add: XFS_Teardown_def)
next
  case (3 p f d n)
  show ?case unfolding Device_Teardown.simps 3 LUKS_Close_inert by (rule refl)
qed simp

lemma teardown_device_inert: "teardown_device h (inert other osi) d = teardown_device h osi d"
  unfolding teardown_device_def Device_Teardown_inert by (rule refl)

section \<open>Converge and Teardown under the contract of the operating system\<close>

lemma innermost_ranked: "innermost d = d \<Longrightarrow> ranked rank d"
proof (induction d rule: innermost.induct)
  case (3 p f d n)
  have "size (innermost d) \<le> size d"
    by (induction d rule: innermost.induct) auto
  with 3(2) have "size (LUKSDevice p f (Some d) n) \<le> size d" by simp
  then show ?case by simp
qed auto

text \<open>One mount path, one device.\<close>

definition separate_mounts :: "(MountScope \<Rightarrow> MountPoint list) \<Rightarrow> bool" where
  "separate_mounts tab \<longleftrightarrow> (\<forall>p sc. exclusive p (tab sc))"

text \<open>The drive's filesystem is mounted in both scopes, at the drive's mount path only.\<close>

definition drive_mounted :: "(MountScope \<Rightarrow> MountPoint list) \<Rightarrow> drive \<Rightarrow> bool" where
  "drive_mounted tab d \<longleftrightarrow>
     (\<exists>dev q. Device d = Some dev \<and> innermost dev = XFSDevice q True (MountPath d) \<and>
        (\<forall>sc. set (dev_paths q (tab sc)) = {MountPath d}))"

text \<open>The device is there and its LUKS containers are nested less than \<open>n\<close> deep.\<close>

definition drive_ok :: "(string \<Rightarrow> nat) \<Rightarrow> nat \<Rightarrow> drive \<Rightarrow> bool" where
  "drive_ok rank n d \<longleftrightarrow>
     (\<exists>dev. Device d = Some dev \<and> rank (dev_path dev) < n \<and> ranked rank dev)"

definition opens_below :: "('k, 's) world os_interface \<Rightarrow> (string \<Rightarrow> nat) \<Rightarrow> bool" where
  "opens_below osi rank \<longleftrightarrow>
     (\<forall>p name ks w q w'. OpenLUKSContainer osi p name ks w = (Inr (q, True), w') \<longrightarrow> rank q < rank p)"

lemma opens_belowD:
  "opens_below osi rank \<Longrightarrow> OpenLUKSContainer osi p name ks w = (Inr (q, True), w') \<Longrightarrow> rank q < rank p"
  unfolding opens_below_def by blast

context os_contract
begin

lemma Drive_Converge_outcome:
  assumes c: "Drive_Converge h osi d w = (Inr d', w')" and b: "\<not> Broken d" and r: "ready (osst w)"
  shows "same_drive d d' \<and>
    (if Broken d' then Assignment d' = None
     else Assignment d' = Assignment d \<and>
       (separate_mounts (mounts (osst w)) \<longrightarrow> ready (osst w') \<and> drive_mounted (mounts (osst w')) d'))"
proof -
  from c b obtain dev ok dev' w1 where D: "Device d = Some dev"
    and S: "Device_Setup (stack_limit h) h osi d dev w = (Inr (ok, dev'), w1)"
    and T: "(if \<not> ok then bindM (MarkAsBroken h (d\<lparr>Device := Some dev'\<rparr>)) (teardown_device h osi)
             else ret (d\<lparr>Device := Some dev'\<rparr>)) w1 = (Inr d', w')"
    unfolding Drive_Converge_def Let_def by (auto elim!: bindM_InrE split: option.splits)
  show ?thesis
  proof (cases ok)
    case False
    with T obtain d1 w2 where m: "MarkAsBroken h (d\<lparr>Device := Some dev'\<rparr>) w1 = (Inr d1, w2)"
      and t: "teardown_device h osi d1 w2 = (Inr d', w')"
      by (auto elim!: bindM_InrE)
    from MarkAsBroken_value [OF m] teardown_device_value [OF t] show ?thesis
      by (auto simp: same_drive_def)
  next
    case True
    with T have d': "d' = d\<lparr>Device := Some dev'\<rparr>" and w': "w' = w1" by simp_all
    from S True have "Device_Setup (stack_limit h) h osi d dev w = (Inr (True, dev'), w1)" by simp
    from Device_Setup_True [OF this r]
    obtain q x where x: "innermost dev' = XFSDevice q True x" "x = MountPathAt d x"
      "(\<forall>sc. exclusive q (mounts (osst w) sc)) \<longrightarrow>
        ready (osst w1) \<and> (\<forall>sc. set (dev_paths q (mounts (osst w1) sc)) = {x})"
      by blast
    from x(1) MountedPath_innermost [of dev'] have "Device_MountedPath dev' = x" by simp
    with x(2) have "MountPath d' = x" unfolding d' MountPath_innermost by simp
    with x d' w' b show ?thesis by (auto simp: drive_mounted_def separate_mounts_def)
  qed
qed

lemma teardown_device_safe:
  assumes "drive_ok rank n d"
  shows "safe (sane rank) (teardown_device h osi d) (\<lambda>d'. drive_ok rank n d' \<and> same_drive d d' \<and>
    Broken d' = Broken d \<and> Assignment d' = Assignment d)"
proof -
  from assms obtain dev where dev: "Device d = Some dev" "rank (dev_path dev) < n" "ranked rank dev"
    unfolding drive_ok_def by blast
  have "safe (sane rank) (bindM (Device_Teardown h osi d dev) (\<lambda>(_, dev). ret (d\<lparr>Device := Some dev\<rparr>)))
    (\<lambda>d'. drive_ok rank n d' \<and> same_drive d d' \<and> Broken d' = Broken d \<and> Assignment d' = Assignment d)"
    by (rule safe_bindM [OF Device_Teardown_safe [OF dev(3)]])
       (use dev(2) in \<open>auto intro!: safe_ret simp: drive_ok_def\<close>)
  then show ?thesis by (simp add: teardown_device_def dev(1))
qed

lemma MarkAsBroken_safe:
  assumes "drive_ok rank n d"
  shows "safe (sane rank) (MarkAsBroken h d) (\<lambda>d'. drive_ok rank n d' \<and> same_drive d d')"
proof (rule safe_val [OF safe_frames])
  fix w d' w' assume "MarkAsBroken h d w = (Inr d', w')"
  from MarkAsBroken_value [OF this] assms show "drive_ok rank n d' \<and> same_drive d d'"
    by (auto simp: drive_ok_def)
qed (intro returns_intros frames_intros)+

lemma Drive_Converge_safe:
  assumes d: "drive_ok rank (stack_limit h) d" and o: "opens_below osi rank"
  shows "safe (sane rank) (Drive_Converge h osi d) (\<lambda>d'. drive_ok rank (stack_limit h) d' \<and> same_drive d d')"
proof -
  let ?n = "stack_limit h" and ?Q = "\<lambda>d'. drive_ok rank (stack_limit h) d' \<and> same_drive d d'"
  from d obtain dev where dev: "Device d = Some dev" "rank (dev_path dev) < ?n" "ranked rank dev"
    unfolding drive_ok_def by blast
  have broken: "safe (sane rank) (bindM (MarkAsBroken h e) (teardown_device h osi)) ?Q"
    if e: "drive_ok rank ?n e" "same_drive d e" for e
  proof (rule safe_bindM [OF MarkAsBroken_safe [OF e(1)]])
    fix x assume x: "drive_ok rank ?n x \<and> same_drive e x"
    then have "drive_ok rank ?n x" ..
    then show "safe (sane rank) (teardown_device h osi x) ?Q"
      by (rule safe_conseq [OF teardown_device_safe])
         (use x e(2) same_drive_trans in \<open>metis (no_types)\<close>)
  qed
  have up: "safe (sane rank) (Device_Setup ?n h osi d dev) (keeps_place rank (dev_path dev))"
    by (rule Device_Setup_safe [OF _ dev(2,3)]) (rule opens_belowD [OF o])
  show ?thesis
  proof (cases "Broken d")
    case True
    have "safe (sane rank) (teardown_device h osi d) ?Q"
      by (rule safe_conseq [OF teardown_device_safe [OF d]]) simp
    with True show ?thesis by (simp add: Drive_Converge_def)
  next
    case False
    have "safe (sane rank) (bindM (Device_Setup ?n h osi d dev) (\<lambda>(ok, dev).
        let d = d\<lparr>Device := Some dev\<rparr>
        in if \<not> ok then bindM (MarkAsBroken h d) (teardown_device h osi) else ret d)) ?Q"
    proof (rule safe_bindM [OF up], clarify)
      fix ok dev' assume "dev_path dev' = dev_path dev" "ranked rank dev'"
      with dev(2) have e: "drive_ok rank ?n (d\<lparr>Device := Some dev'\<rparr>)" by (simp add: drive_ok_def)
      then show "safe (sane rank) (let d = d\<lparr>Device := Some dev'\<rparr>
          in if \<not> ok then bindM (MarkAsBroken h d) (teardown_device h osi) else ret d) ?Q"
        using broken [OF e] by (cases ok) (simp_all add: Let_def safe_ret)
    qed
    with False dev(1) show ?thesis by (simp add: Drive_Converge_def)
  qed
qed

lemma Drive_Teardown_safe:
  "drive_ok rank n d \<Longrightarrow> safe (sane rank) (Drive_Teardown h osi d) (\<lambda>_. True)"
  unfolding Drive_Teardown_def
  by (rule safe_if) (blast intro: safe_conseq teardown_device_safe, simp add: safe_ret)

lemma NewDrive_safe:
  assumes "rank p < n"
  shows "safe (sane rank) (NewDrive h osi p serial keys)
    (\<lambda>d. DevicePath d = p \<and> Assignment d = None \<and> (Device d = None \<and> Broken d \<or> drive_ok rank n d))"
proof (rule safe_val [OF safe_frames])
  show "returns (NewDrive h osi p serial keys)"
    unfolding NewDrive_def ensure_drive_id_def Let_def
    by (auto intro!: returns_intros)
  show "frames tables (NewDrive h osi p serial keys)" "frames luks (NewDrive h osi p serial keys)"
    unfolding NewDrive_def ensure_drive_id_def Let_def
    by (auto intro!: frames_intros)
  fix w d w' assume n: "NewDrive h osi p serial keys w = (Inr d, w')"
  have "ranked rank dev" if "Device d = Some dev" for dev
    using NewDrive_value [OF n] that innermost_ranked by metis
  then show "DevicePath d = p \<and> Assignment d = None \<and> (Device d = None \<and> Broken d \<or> drive_ok rank n d)"
    using NewDrive_value [OF n] assms by (cases "Device d") (simp_all add: drive_ok_def)
qed

end

section \<open>Properties\<close>

text \<open>C8: A broken drive is only ever torn down. The pass of the converger over a broken
  drive does the same with any other implementation of the operations that classify,
  format, mount, open or create, so it uses none of them: no broken drive is mounted,
  unlocked or overwritten.\<close>

theorem broken_drive_only_torn_down:
  assumes "Broken d"
  shows "Drive_Converge h (inert other osi) d = Drive_Converge h osi d"
  by (simp add: Drive_Converge_def assms teardown_device_inert)

theorem broken_drive_only_torn_down_witness:
  "Drive_Converge quiet_host
     (inert (sample_osi (\<lambda>_. DeviceTypeUnknown) (\<lambda>_. Inr [])) (sample_osi (\<lambda>_. DeviceTypeLUKS) (\<lambda>_. Inr [])))
     ((xfs_drive ''/dev/sda'' [])\<lparr>Broken := True\<rparr>) =
   Drive_Converge quiet_host (sample_osi (\<lambda>_. DeviceTypeLUKS) (\<lambda>_. Inr []))
     ((xfs_drive ''/dev/sda'' [])\<lparr>Broken := True\<rparr>)"
  by (rule broken_drive_only_torn_down) simp

text \<open>C7: No pass of the converger over a drive formats a device that holds anything. For
  every set \<open>S\<close> of devices that do not classify as empty, the pass does the same when
  \<open>mkfs\<close> and \<open>cryptsetup luksFormat\<close> are replaced by anything else on the devices in \<open>S\<close>;
  so it runs neither of them on such a device, at any depth of nested containers.\<close>

theorem converge_never_overwrites:
  assumes "spares S osi g c"
  shows "Drive_Converge h (overwriting osi g c) d = Drive_Converge h osi d"
  unfolding Drive_Converge_def teardown_device_def Device_Setup_spares [OF assms]
    Device_Teardown_overwriting by (rule refl)

theorem converge_never_overwrites_witness:
  "Drive_Converge quiet_host
     (overwriting (sample_osi (\<lambda>p. if p = ''/dev/sda'' then DeviceTypeFilesystem else DeviceTypeUnknown) (\<lambda>_. Inr []))
       (\<lambda>p. if p = ''/dev/sda'' then exitM (Panic ''overwritten'') else
          FormatDevice (sample_osi (\<lambda>p. DeviceTypeUnknown) (\<lambda>_. Inr [])) p)
       (\<lambda>p key. CreateLUKSContainer (sample_osi (\<lambda>p. DeviceTypeUnknown) (\<lambda>_. Inr [])) p key))
     ((xfs_drive ''/dev/sda'' [])\<lparr>Device := Some (XFSDevice ''/dev/sda'' False [])\<rparr>) =
   Drive_Converge quiet_host
     (sample_osi (\<lambda>p. if p = ''/dev/sda'' then DeviceTypeFilesystem else DeviceTypeUnknown) (\<lambda>_. Inr []))
     ((xfs_drive ''/dev/sda'' [])\<lparr>Device := Some (XFSDevice ''/dev/sda'' False [])\<rparr>)"
  by (rule converge_never_overwrites [where S = "{''/dev/sda''}"])
     (simp add: spares_def sample_osi_def)

end
