(* ===== verification/Core_Assignment.thy ===== *)
theory Core_Assignment
  imports Core_Drive
begin

text \<open>
  \<open>UpdateDriveAssignments\<close> of \<open>pkg/core/assignment.go\<close>: the scan of all drives for their
  swift-ids and the automatic assignment from the pool. The Go code works on a slice of
  pointers to drives and keeps such pointers in a map; here the drives are a list, and
  indices into it stand for the pointers. A declarative description of the result follows,
  with the proof that the scan computes it.
\<close>

section \<open>The scan\<close>

text \<open>
  The local variables of \<open>UpdateDriveAssignments\<close>. \<open>isAssignedSwiftID\<close> only ever holds
  true, so it is a set.
\<close>

record scan =
  sc_drives :: "drive list"
  drivesBySwiftID :: "string \<rightharpoonup> nat"
  hasMismountedDrives :: bool
  isAssignedSwiftID :: "string set"
  spareIdx :: nat

definition scan0 :: "drive list \<Rightarrow> scan" where
  "scan0 ds = \<lparr>sc_drives = ds, drivesBySwiftID = Map.empty, hasMismountedDrives = False,
               isAssignedSwiftID = {}, spareIdx = 0\<rparr>"

text \<open>\<open>Assignment{...}.Apply(drive)\<close> for the drive at an index.\<close>

definition apply_at :: "assignment \<Rightarrow> nat \<Rightarrow> scan \<Rightarrow> (('k, 's) world, scan) io" where
  "apply_at a i st =
     bindM (Apply a (sc_drives st ! i)) (\<lambda>d. ret (st\<lparr>sc_drives := (sc_drives st)[i := d]\<rparr>))"

definition mismounted :: "string \<Rightarrow> string \<Rightarrow> bool" where
  "mismounted mountedPath swiftID \<longleftrightarrow> Dir mountedPath = srv_node \<and> Base mountedPath \<noteq> swiftID"

text \<open>The part of the loop body that handles a swift-id other than "" and "spare".\<close>

definition scan_swift_id :: "string \<Rightarrow> string \<Rightarrow> nat \<Rightarrow> scan \<Rightarrow> (('k, 's) world, scan) io" where
  "scan_swift_id mountedPath swiftID i st =
     (let st = st\<lparr>isAssignedSwiftID := insert swiftID (isAssignedSwiftID st)\<rparr>
      in bindM
        (if mismounted mountedPath swiftID then
           bindM (apply_at \<lparr>SwiftID = swiftID, AssignError = AssignmentMismatch\<rparr> i st)
                 (\<lambda>st. ret (st\<lparr>hasMismountedDrives := True\<rparr>))
         else apply_at \<lparr>SwiftID = swiftID, AssignError = AssignmentOK\<rparr> i st) (\<lambda>st.
      case drivesBySwiftID st swiftID of
        Some otherDrive \<Rightarrow>
          bindM (apply_at \<lparr>SwiftID = swiftID, AssignError = AssignmentDuplicate\<rparr> i st)
                (apply_at \<lparr>SwiftID = swiftID, AssignError = AssignmentDuplicate\<rparr> otherDrive)
      | None \<Rightarrow> ret (st\<lparr>drivesBySwiftID := (drivesBySwiftID st)(swiftID \<mapsto> i)\<rparr>)))"

definition scan_drive ::
    "('k, 's) world os_interface \<Rightarrow> string list \<Rightarrow> bool \<Rightarrow> nat \<Rightarrow> scan \<Rightarrow> (('k, 's) world, scan) io"
where
  "scan_drive osi swiftIDPool hasBrokenDrives i st =
     (let mountedPath = MountedPath (sc_drives st ! i)
      in if mountedPath = [] then ret st
         else
           bindM (ReadSwiftID osi mountedPath) (\<lambda>r.
           case r of
             Inl err \<Rightarrow> thenM (log_error (error_text err)) (ret st)
           | Inr swiftID \<Rightarrow>
               if swiftID = [] then
                 apply_at \<lparr>SwiftID = [], AssignError =
                   (if length swiftIDPool > 0 then
                      if hasBrokenDrives then AssignmentBlocked else AssignmentPending
                    else AssignmentMissing)\<rparr> i st
               else if swiftID = spare then
                 bindM (apply_at \<lparr>SwiftID = spare, AssignError = AssignmentOK\<rparr> i st) (\<lambda>st.
                 ret (st\<lparr>isAssignedSwiftID :=
                           insert (''spare/'' @ Itoa (spareIdx st)) (isAssignedSwiftID st),
                         spareIdx := spareIdx st + 1\<rparr>))
               else scan_swift_id mountedPath swiftID i st))"

section \<open>Automatic assignment\<close>

text \<open>\<open>poolID\<close>: the first id of the pool that is not taken, "" if there is none.\<close>

definition first_free :: "string list \<Rightarrow> string set \<Rightarrow> string" where
  "first_free swiftIDPool taken =
     (case List.find (\<lambda>i. i \<notin> taken) swiftIDPool of None \<Rightarrow> [] | Some i \<Rightarrow> i)"

definition written_id :: "string \<Rightarrow> string" where
  "written_id poolID = (if HasPrefix poolID ''spare/'' then spare else poolID)"

definition auto_assign ::
    "('k, 's) world os_interface \<Rightarrow> string list \<Rightarrow> nat \<Rightarrow> drive list \<times> string set
     \<Rightarrow> (('k, 's) world, drive list \<times> string set) io" where
  "auto_assign osi swiftIDPool i = (\<lambda>(drives, taken).
     let drive = drives ! i
     in if \<not> EligibleForAutoAssignment drive then ret (drives, taken)
        else
          let poolID = first_free swiftIDPool taken
          in if poolID = [] then
               thenM (log_error (''tried to assign swift-id to '' @ DevicePath drive
                        @ '', but pool is exhausted''))
                     (ret (drives, taken))
             else
               let swiftID = written_id poolID
               in thenM (log_info (''assigning swift-id '' @ [CHR 0x27] @ swiftID @ [CHR 0x27]
                           @ '' to '' @ DevicePath drive))
                  (bindM (WriteSwiftID osi (MountPath drive) swiftID) (\<lambda>err.
                   case err of
                     Some e \<Rightarrow> thenM (log_error (error_text e)) (ret (drives, taken))
                   | None \<Rightarrow>
                       bindM (Apply \<lparr>SwiftID = swiftID, AssignError = AssignmentOK\<rparr> drive) (\<lambda>drive.
                       ret (drives[i := drive], insert poolID taken)))))"

definition UpdateDriveAssignments ::
    "drive list \<Rightarrow> string list \<Rightarrow> ('k, 's) world os_interface \<Rightarrow> (('k, 's) world, drive list) io"
where
  "UpdateDriveAssignments drives swiftIDPool osi =
     (let hasBrokenDrives = list_ex Broken drives
      in bindM (foldM [0..<length drives] (scan_drive osi swiftIDPool hasBrokenDrives)
                 (scan0 drives)) (\<lambda>st.
         if hasBrokenDrives \<or> hasMismountedDrives st \<or> length swiftIDPool = 0 then
           ret (sc_drives st)
         else
           bindM (foldM [0..<length drives] (auto_assign osi swiftIDPool)
                    (sc_drives st, isAssignedSwiftID st)) (\<lambda>(drives, _).
           ret drives)))"

section \<open>What the scan computes\<close>

text \<open>
  The swift-ids are read from files; \<open>f\<close> says what a read of each mount yields. \<open>found f d\<close>
  is the swift-id of the drive \<open>d\<close>, if it is mounted and the read succeeds.
\<close>

definition found :: "(string \<Rightarrow> os_error + string) \<Rightarrow> drive \<Rightarrow> string option" where
  "found f d =
     (if MountedPath d = [] then None
      else case f (MountedPath d) of Inl e \<Rightarrow> None | Inr i \<Rightarrow> Some i)"

definition regular_id :: "string \<Rightarrow> bool" where
  "regular_id i \<longleftrightarrow> i \<noteq> [] \<and> i \<noteq> spare"

text \<open>The verdict on the \<open>i\<close>-th drive when the first \<open>k\<close> drives have been looked at.\<close>

definition verdict ::
    "(string \<Rightarrow> os_error + string) \<Rightarrow> string list \<Rightarrow> drive list \<Rightarrow> nat \<Rightarrow> nat \<Rightarrow> assignment option"
where
  "verdict f pool ds k i =
     (if i \<ge> k then Assignment (ds ! i)
      else case found f (ds ! i) of
        None \<Rightarrow> Assignment (ds ! i)
      | Some x \<Rightarrow> Some
          (if x = [] then
             \<lparr>SwiftID = [], AssignError =
               (if pool = [] then AssignmentMissing
                else if list_ex Broken ds then AssignmentBlocked else AssignmentPending)\<rparr>
           else if x = spare then \<lparr>SwiftID = spare, AssignError = AssignmentOK\<rparr>
           else \<lparr>SwiftID = x, AssignError =
             (if \<exists>j<k. j \<noteq> i \<and> found f (ds ! j) = Some x then AssignmentDuplicate
              else if mismounted (MountedPath (ds ! i)) x then AssignmentMismatch
              else AssignmentOK)\<rparr>))"

definition judged ::
    "(string \<Rightarrow> os_error + string) \<Rightarrow> string list \<Rightarrow> drive list \<Rightarrow> nat \<Rightarrow> drive list" where
  "judged f pool ds k = map (\<lambda>i. (ds ! i)\<lparr>Assignment := verdict f pool ds k i\<rparr>) [0..<length ds]"

definition spares_found :: "(string \<Rightarrow> os_error + string) \<Rightarrow> drive list \<Rightarrow> nat" where
  "spares_found f ds = length (filter (\<lambda>d. found f d = Some spare) ds)"

definition taken_ids :: "(string \<Rightarrow> os_error + string) \<Rightarrow> drive list \<Rightarrow> string set" where
  "taken_ids f ds =
     set (filter regular_id (concat (map (\<lambda>d. case found f d of None \<Rightarrow> [] | Some x \<Rightarrow> [x]) ds))) \<union>
     set (map (\<lambda>n. ''spare/'' @ Itoa n) [0..<spares_found f ds])"

definition any_mismounted :: "(string \<Rightarrow> os_error + string) \<Rightarrow> drive list \<Rightarrow> bool" where
  "any_mismounted f ds \<longleftrightarrow>
     list_ex (\<lambda>d. case found f d of
         None \<Rightarrow> False
       | Some x \<Rightarrow> regular_id x \<and> mismounted (MountedPath d) x) ds"

text \<open>The drive that the scan remembers for an id is one that has it, and there is one if
  any of the first \<open>k\<close> drives has it.\<close>

definition index_ok ::
    "(string \<Rightarrow> os_error + string) \<Rightarrow> drive list \<Rightarrow> nat \<Rightarrow> (string \<rightharpoonup> nat) \<Rightarrow> bool" where
  "index_ok f ds k m \<longleftrightarrow>
     (\<forall>x j. m x = Some j \<longrightarrow> j < k \<and> found f (ds ! j) = Some x) \<and>
     (\<forall>j<k. \<forall>x. found f (ds ! j) = Some x \<longrightarrow> regular_id x \<longrightarrow> m x \<noteq> None)"

definition scan_inv ::
    "(string \<Rightarrow> os_error + string) \<Rightarrow> string list \<Rightarrow> drive list \<Rightarrow> nat \<Rightarrow> scan \<Rightarrow> bool" where
  "scan_inv f pool ds k st \<longleftrightarrow>
     sc_drives st = judged f pool ds k \<and>
     index_ok f ds k (drivesBySwiftID st) \<and>
     hasMismountedDrives st = any_mismounted f (take k ds) \<and>
     isAssignedSwiftID st = taken_ids f (take k ds) \<and>
     spareIdx st = spares_found f (take k ds)"

section \<open>The scan computes the verdicts\<close>

lemma spare_not_Nil [simp]: "spare \<noteq> []"
  by (simp add: spare_def)

lemma drive_Assignment_collapse [simp]:
  "(d\<lparr>Assignment := a\<rparr>)\<lparr>Assignment := b\<rparr> = d\<lparr>Assignment := b\<rparr>" for d :: drive
  by simp

lemma length_judged [simp]: "length (judged f pool ds k) = length ds"
  by (simp add: judged_def)

lemma judged_nth [simp]:
  "i < length ds \<Longrightarrow> judged f pool ds k ! i = (ds ! i)\<lparr>Assignment := verdict f pool ds k i\<rparr>"
  by (simp add: judged_def)

lemma judged_0: "judged f pool ds 0 = ds"
  by (rule nth_equalityI) (simp_all add: verdict_def)

lemma apply_at_run:
  "\<exists>ls. apply_at a i st w = (Inr (st\<lparr>sc_drives := (sc_drives st)[i := (sc_drives st ! i)\<lparr>Assignment := Some a\<rparr>]\<rparr>),
     w\<lparr>logs := logs w @ ls\<rparr>)"
  using Apply_run [of a "sc_drives st ! i" w] by (auto simp: apply_at_def bindM_def)

lemma apply_atE:
  obtains w' where "apply_at a i st w =
    (Inr (st\<lparr>sc_drives := (sc_drives st)[i := (sc_drives st ! i)\<lparr>Assignment := Some a\<rparr>]\<rparr>), w')"
  using apply_at_run [of a i st w] by blast

lemma verdict_new:
  "found f (ds ! k) = None \<Longrightarrow> verdict f pool ds (Suc k) k = Assignment (ds ! k)"
  "found f (ds ! k) = Some [] \<Longrightarrow> verdict f pool ds (Suc k) k = Some \<lparr>SwiftID = [], AssignError =
     (if pool = [] then AssignmentMissing
      else if list_ex Broken ds then AssignmentBlocked else AssignmentPending)\<rparr>"
  "found f (ds ! k) = Some spare \<Longrightarrow>
     verdict f pool ds (Suc k) k = Some \<lparr>SwiftID = spare, AssignError = AssignmentOK\<rparr>"
  "found f (ds ! k) = Some x \<Longrightarrow> regular_id x \<Longrightarrow> j < k \<Longrightarrow> found f (ds ! j) = Some x \<Longrightarrow>
     verdict f pool ds (Suc k) k = Some \<lparr>SwiftID = x, AssignError = AssignmentDuplicate\<rparr>"
  "found f (ds ! k) = Some x \<Longrightarrow> regular_id x \<Longrightarrow> \<forall>j<k. found f (ds ! j) \<noteq> Some x \<Longrightarrow>
     verdict f pool ds (Suc k) k = Some \<lparr>SwiftID = x, AssignError =
       (if mismounted (MountedPath (ds ! k)) x then AssignmentMismatch else AssignmentOK)\<rparr>"
  by (auto simp: verdict_def regular_id_def spare_def less_Suc_eq)

lemma verdict_old:
  assumes "i \<noteq> k" and "\<forall>x. found f (ds ! k) = Some x \<longrightarrow> regular_id x \<longrightarrow> found f (ds ! i) = Some x \<longrightarrow>
      (\<exists>j<k. j \<noteq> i \<and> found f (ds ! j) = Some x)"
  shows "verdict f pool ds (Suc k) i = verdict f pool ds k i"
proof (cases "found f (ds ! i)")
  case None
  then show ?thesis by (simp add: verdict_def)
next
  case (Some x)
  show ?thesis
  proof (cases "regular_id x \<and> i < k")
    case False
    with Some assms(1) show ?thesis by (auto simp: verdict_def regular_id_def)
  next
    case True
    have "(\<exists>j<Suc k. j \<noteq> i \<and> found f (ds ! j) = Some x) \<longleftrightarrow> (\<exists>j<k. j \<noteq> i \<and> found f (ds ! j) = Some x)"
      using assms(2) Some True by (auto simp: less_Suc_eq)
    with Some True show ?thesis by (simp add: verdict_def)
  qed
qed

lemma verdict_second:
  assumes "found f (ds ! k) = Some x" and "regular_id x" and "j < k" and "found f (ds ! j) = Some x"
  shows "verdict f pool ds (Suc k) j = Some \<lparr>SwiftID = x, AssignError = AssignmentDuplicate\<rparr>"
proof -
  have "\<exists>i<Suc k. i \<noteq> j \<and> found f (ds ! i) = Some x"
    by (rule exI [of _ k]) (use assms in auto)
  with assms show ?thesis by (simp add: verdict_def regular_id_def)
qed

lemma judged_Suc:
  assumes "k < length ds" and "\<And>i. i < length ds \<Longrightarrow> i \<noteq> k \<Longrightarrow> verdict f pool ds (Suc k) i = verdict f pool ds k i"
  shows "judged f pool ds (Suc k) =
    (judged f pool ds k)[k := (ds ! k)\<lparr>Assignment := verdict f pool ds (Suc k) k\<rparr>]"
  using assms by (intro nth_equalityI) (auto simp: nth_list_update)

lemma judged_Suc_same:
  assumes "k < length ds" and "found f (ds ! k) = None"
  shows "judged f pool ds (Suc k) = judged f pool ds k"
proof (rule nth_equalityI)
  fix i assume "i < length (judged f pool ds (Suc k))"
  moreover have "verdict f pool ds (Suc k) i = verdict f pool ds k i"
    using assms verdict_old [of i k f ds pool] verdict_new(1) [of f ds k pool]
    by (cases "i = k") (auto simp: verdict_def)
  ultimately show "judged f pool ds (Suc k) ! i = judged f pool ds k ! i" by simp
qed simp

lemma judged_Suc_irregular:
  assumes "k < length ds" and "found f (ds ! k) = Some x" and "\<not> regular_id x"
  shows "judged f pool ds (Suc k) =
    (judged f pool ds k)[k := (ds ! k)\<lparr>Assignment := verdict f pool ds (Suc k) k\<rparr>]"
  by (rule judged_Suc [OF assms(1)], rule verdict_old) (use assms(2,3) in auto)

lemma judged_Suc_first:
  assumes "k < length ds" and "found f (ds ! k) = Some x" and "regular_id x"
    and "\<forall>j<k. found f (ds ! j) \<noteq> Some x"
  shows "judged f pool ds (Suc k) =
    (judged f pool ds k)[k := (ds ! k)\<lparr>Assignment := Some \<lparr>SwiftID = x, AssignError =
       (if mismounted (MountedPath (ds ! k)) x then AssignmentMismatch else AssignmentOK)\<rparr>\<rparr>]"
proof -
  have "verdict f pool ds (Suc k) i = verdict f pool ds k i" if "i \<noteq> k" for i
  proof (cases "i < k")
    case True
    with assms(2,4) show ?thesis by (intro verdict_old [OF that]) auto
  next
    case False
    with that show ?thesis by (simp add: verdict_def)
  qed
  from judged_Suc [OF assms(1) this] show ?thesis by (simp add: verdict_new(5) [OF assms(2-4)])
qed

lemma judged_Suc_twice:
  assumes k: "k < length ds" and x: "found f (ds ! k) = Some x" "regular_id x"
    and j: "j < k" "found f (ds ! j) = Some x"
  defines "a \<equiv> Some \<lparr>SwiftID = x, AssignError = AssignmentDuplicate\<rparr>"
  shows "judged f pool ds (Suc k) =
    (judged f pool ds k)[k := (ds ! k)\<lparr>Assignment := a\<rparr>, j := (ds ! j)\<lparr>Assignment := a\<rparr>]"
proof (rule nth_equalityI)
  fix i assume "i < length (judged f pool ds (Suc k))"
  then have i: "i < length ds" by simp
  consider "i = k" | "i = j" | "i \<noteq> k" "i \<noteq> j" by blast
  then show "judged f pool ds (Suc k) ! i =
      (judged f pool ds k)[k := (ds ! k)\<lparr>Assignment := a\<rparr>, j := (ds ! j)\<lparr>Assignment := a\<rparr>] ! i"
  proof cases
    case 1
    with i j verdict_new(4) [OF x j] show ?thesis by (simp add: a_def)
  next
    case 2
    with i j k verdict_second [OF x j] show ?thesis by (simp add: a_def)
  next
    case 3
    have "verdict f pool ds (Suc k) i = verdict f pool ds k i"
      by (rule verdict_old) (use 3 x j in auto)
    with i 3 show ?thesis by simp
  qed
qed simp

text \<open>The other components of the state, one more drive at a time.\<close>

lemma take_Suc_nth: "k < length ds \<Longrightarrow> take (Suc k) ds = take k ds @ [ds ! k]"
  by (rule take_Suc_conv_app_nth)

lemma spares_found_Suc:
  "k < length ds \<Longrightarrow> spares_found f (take (Suc k) ds) =
     spares_found f (take k ds) + (if found f (ds ! k) = Some spare then 1 else 0)"
  by (simp add: spares_found_def take_Suc_nth)

lemma image_upt: "set (map g [0..<m]) = {g n | n. n < m}"
  by auto

lemma taken_ids_alt:
  "taken_ids f ds =
     {x. regular_id x \<and> (\<exists>d \<in> set ds. found f d = Some x)} \<union>
     {''spare/'' @ Itoa n | n. n < spares_found f ds}"
proof -
  have *: "set (concat (map (\<lambda>d. case found f d of None \<Rightarrow> [] | Some x \<Rightarrow> [x]) ds)) =
    {x. \<exists>d \<in> set ds. found f d = Some x}"
    by (auto split: option.splits)
  show ?thesis unfolding taken_ids_def set_filter image_upt * by (rule arg_cong2 [where f = "(\<union>)", OF _ refl]) blast
qed

lemma taken_ids_Suc:
  assumes "k < length ds"
  shows "taken_ids f (take (Suc k) ds) = taken_ids f (take k ds) \<union>
    (case found f (ds ! k) of None \<Rightarrow> {}
     | Some x \<Rightarrow> if x = [] then {} else if x = spare then {''spare/'' @ Itoa (spares_found f (take k ds))} else {x})"
  using assms unfolding taken_ids_alt spares_found_Suc [OF assms]
  by (auto simp: take_Suc_nth regular_id_def less_Suc_eq split: option.split)

lemma any_mismounted_Suc:
  "k < length ds \<Longrightarrow> any_mismounted f (take (Suc k) ds) = (any_mismounted f (take k ds) \<or>
     (\<exists>x. found f (ds ! k) = Some x \<and> regular_id x \<and> mismounted (MountedPath (ds ! k)) x))"
  by (auto simp: any_mismounted_def take_Suc_nth split: option.split)

lemma index_ok_Suc:
  assumes "index_ok f ds k m" and "\<forall>x. found f (ds ! k) = Some x \<longrightarrow> regular_id x \<longrightarrow> m x \<noteq> None"
  shows "index_ok f ds (Suc k) m"
  using assms unfolding index_ok_def less_Suc_eq by blast

lemma index_ok_insert:
  assumes "index_ok f ds k m" and "found f (ds ! k) = Some x"
  shows "index_ok f ds (Suc k) (m(x \<mapsto> k))"
  using assms unfolding index_ok_def less_Suc_eq by auto

text \<open>
  What the files hold at the moment of the call: as long as nothing happens but reads of swift-id
  files and messages to the log, reads answer \<open>f\<close>. Nothing is said about reads after a write.
\<close>

inductive_set undisturbed ::
    "('k, 's) world os_interface \<Rightarrow> ('k, 's) world \<Rightarrow> ('k, 's) world set"
  for osi :: "('k, 's) world os_interface" and w :: "('k, 's) world" where
  here: "w \<in> undisturbed osi w"
| logged: "w' \<in> undisturbed osi w \<Longrightarrow> w'\<lparr>logs := ls\<rparr> \<in> undisturbed osi w"
| read: "w' \<in> undisturbed osi w \<Longrightarrow> snd (ReadSwiftID osi p w') \<in> undisturbed osi w"

definition reads_as ::
    "('k, 's) world os_interface \<Rightarrow> (string \<Rightarrow> os_error + string) \<Rightarrow> ('k, 's) world \<Rightarrow> bool" where
  "reads_as osi f w \<longleftrightarrow> (\<forall>w1 \<in> undisturbed osi w. \<forall>p. \<exists>w2. ReadSwiftID osi p w1 = (Inr (f p), w2))"

text \<open>For an interface whose reads change nothing it is enough to look at the moment itself.\<close>

lemma undisturbed_pure:
  assumes "\<And>p w. snd (ReadSwiftID osi p w) = w" and "w' \<in> undisturbed osi w"
  shows "\<exists>ls. w' = w\<lparr>logs := ls\<rparr>"
  using assms(2)
proof induction
  case here
  show ?case by (rule exI [of _ "logs w"]) simp
qed (auto simp: assms(1))

lemma reads_asI:
  assumes "\<And>p w. snd (ReadSwiftID osi p w) = w"
    and "\<And>p ls. \<exists>w2. ReadSwiftID osi p (w\<lparr>logs := ls\<rparr>) = (Inr (f p), w2)"
  shows "reads_as osi f w"
  unfolding reads_as_def using undisturbed_pure [OF assms(1)] assms(2) by blast

lemma keeps_undisturbed_logM [keeps_intros]: "keeps (\<lambda>w. w \<in> undisturbed osi w0) (logM l msg)"
  by (simp add: keeps_def undisturbed.logged)

lemma keeps_undisturbed_read [keeps_intros]: "keeps (\<lambda>w. w \<in> undisturbed osi w0) (ReadSwiftID osi p)"
  by (simp add: keeps_def undisturbed.read)

lemma keeps_undisturbed_apply_at [keeps_intros]:
  "keeps (\<lambda>w. w \<in> undisturbed osi w0) (apply_at a i st)"
  unfolding apply_at_def Apply_def Let_def by (intro keeps_intros)

lemma keeps_undisturbed_scan [keeps_intros]:
  "keeps (\<lambda>w. w \<in> undisturbed osi w0) (scan_drive osi pool hb i st)"
  unfolding scan_drive_def scan_swift_id_def Let_def
  by (auto split: sum.split option.split intro!: keeps_intros)

text \<open>One drive.\<close>

lemma scan_drive_read:
  assumes "ReadSwiftID osi p w = (Inr r, w1)" and "MountedPath (sc_drives st ! i) = p" and "p \<noteq> []"
  shows "scan_drive osi pool hb i st w =
    (case r of
       Inl err \<Rightarrow> thenM (log_error (error_text err)) (ret st)
     | Inr swiftID \<Rightarrow>
         if swiftID = [] then
           apply_at \<lparr>SwiftID = [], AssignError =
             (if length pool > 0 then if hb then AssignmentBlocked else AssignmentPending
              else AssignmentMissing)\<rparr> i st
         else if swiftID = spare then
           bindM (apply_at \<lparr>SwiftID = spare, AssignError = AssignmentOK\<rparr> i st) (\<lambda>st.
           ret (st\<lparr>isAssignedSwiftID := insert (''spare/'' @ Itoa (spareIdx st)) (isAssignedSwiftID st),
                   spareIdx := spareIdx st + 1\<rparr>))
         else scan_swift_id p swiftID i st) w1"
  using assms by (simp add: scan_drive_def Let_def bindM_Inr)

text \<open>The effect of \<open>scan_swift_id\<close> up to the search for an earlier drive with the same swift-id.\<close>

definition noted :: "string \<Rightarrow> string \<Rightarrow> nat \<Rightarrow> scan \<Rightarrow> scan" where
  "noted p x k st = st\<lparr>isAssignedSwiftID := insert x (isAssignedSwiftID st),
     sc_drives := (sc_drives st)[k := (sc_drives st ! k)\<lparr>Assignment := Some \<lparr>SwiftID = x, AssignError =
       (if mismounted p x then AssignmentMismatch else AssignmentOK)\<rparr>\<rparr>],
     hasMismountedDrives := (hasMismountedDrives st \<or> mismounted p x)\<rparr>"

lemma noted_sel [simp]:
  "isAssignedSwiftID (noted p x k st) = insert x (isAssignedSwiftID st)"
  "hasMismountedDrives (noted p x k st) = (hasMismountedDrives st \<or> mismounted p x)"
  "drivesBySwiftID (noted p x k st) = drivesBySwiftID st"
  "spareIdx (noted p x k st) = spareIdx st"
  "sc_drives (noted p x k st) = (sc_drives st)[k := (sc_drives st ! k)\<lparr>Assignment := Some \<lparr>SwiftID = x,
     AssignError = (if mismounted p x then AssignmentMismatch else AssignmentOK)\<rparr>\<rparr>]"
  by (simp_all add: noted_def)

lemma scan_swift_id_noted:
  obtains w1 where "scan_swift_id p x k st w = (case drivesBySwiftID st x of
        Some j \<Rightarrow> bindM (apply_at \<lparr>SwiftID = x, AssignError = AssignmentDuplicate\<rparr> k (noted p x k st))
                       (apply_at \<lparr>SwiftID = x, AssignError = AssignmentDuplicate\<rparr> j)
      | None \<Rightarrow> ret ((noted p x k st)\<lparr>drivesBySwiftID := (drivesBySwiftID st)(x \<mapsto> k)\<rparr>)) w1"
proof -
  define st0 where "st0 = st\<lparr>isAssignedSwiftID := insert x (isAssignedSwiftID st)\<rparr>"
  let ?m = "if mismounted p x then
           bindM (apply_at \<lparr>SwiftID = x, AssignError = AssignmentMismatch\<rparr> k st0)
                 (\<lambda>st. ret (st\<lparr>hasMismountedDrives := True\<rparr>))
         else apply_at \<lparr>SwiftID = x, AssignError = AssignmentOK\<rparr> k st0"
  obtain w1 where a: "apply_at \<lparr>SwiftID = x, AssignError =
      (if mismounted p x then AssignmentMismatch else AssignmentOK)\<rparr> k st0 w =
      (Inr (st0\<lparr>sc_drives := (sc_drives st0)[k := (sc_drives st0 ! k)\<lparr>Assignment := Some \<lparr>SwiftID = x, AssignError =
        (if mismounted p x then AssignmentMismatch else AssignmentOK)\<rparr>\<rparr>]\<rparr>), w1)"
    by (rule apply_atE)
  then have m: "?m w = (Inr (noted p x k st), w1)"
    by (cases "mismounted p x") (simp_all add: bindM_def st0_def noted_def)
  show ?thesis
    by (rule that [of w1])
       (unfold scan_swift_id_def Let_def st0_def [symmetric] bindM_Inr [where m = ?m, OF m],
        cases "drivesBySwiftID st x", simp_all)
qed

lemma scan_invD:
  assumes "scan_inv f pool ds k st"
  shows "sc_drives st = judged f pool ds k" and "index_ok f ds k (drivesBySwiftID st)"
    and "hasMismountedDrives st = any_mismounted f (take k ds)"
    and "isAssignedSwiftID st = taken_ids f (take k ds)"
    and "spareIdx st = spares_found f (take k ds)"
  using assms by (simp_all add: scan_inv_def)

lemma scan_swift_id_inv:
  assumes k: "k < length ds" and i: "scan_inv f pool ds k st"
    and x: "found f (ds ! k) = Some x" "regular_id x"
  shows "\<exists>st' w'. scan_swift_id (MountedPath (ds ! k)) x k st w = (Inr st', w') \<and>
    scan_inv f pool ds (Suc k) st'"
proof -
  let ?p = "MountedPath (ds ! k)"
  note inv = scan_invD [OF i]
  note sucs = spares_found_Suc [OF k] taken_ids_Suc [OF k] any_mismounted_Suc [OF k]
  from x(2) have ne: "x \<noteq> []" "x \<noteq> spare" by (simp_all add: regular_id_def)
  obtain w1 where run: "scan_swift_id ?p x k st w = (case drivesBySwiftID st x of
        Some j \<Rightarrow> bindM (apply_at \<lparr>SwiftID = x, AssignError = AssignmentDuplicate\<rparr> k (noted ?p x k st))
                       (apply_at \<lparr>SwiftID = x, AssignError = AssignmentDuplicate\<rparr> j)
      | None \<Rightarrow> ret ((noted ?p x k st)\<lparr>drivesBySwiftID := (drivesBySwiftID st)(x \<mapsto> k)\<rparr>)) w1"
    by (rule scan_swift_id_noted)
  show ?thesis
  proof (cases "drivesBySwiftID st x")
    case None
    with inv(2) x(2) have no: "\<forall>j<k. found f (ds ! j) \<noteq> Some x" unfolding index_ok_def by blast
    show ?thesis
      unfolding run using None judged_Suc_first [OF k x no, of pool] index_ok_insert [OF inv(2) x(1)] inv k x ne
      by (simp add: scan_inv_def sucs insert_commute)
  next
    case (Some j)
    with inv(2) have j: "j < k" "found f (ds ! j) = Some x" unfolding index_ok_def by blast+
    let ?b = "\<lparr>SwiftID = x, AssignError = AssignmentDuplicate\<rparr>" and ?st1 = "noted ?p x k st"
    obtain w2 where a1: "apply_at ?b k ?st1 w1 =
      (Inr (?st1\<lparr>sc_drives := (sc_drives ?st1)[k := (sc_drives ?st1 ! k)\<lparr>Assignment := Some ?b\<rparr>]\<rparr>), w2)"
      (is "_ = (Inr ?st2, _)")
      by (rule apply_atE)
    obtain w3 where a2: "apply_at ?b j ?st2 w2 =
      (Inr (?st2\<lparr>sc_drives := (sc_drives ?st2)[j := (sc_drives ?st2 ! j)\<lparr>Assignment := Some ?b\<rparr>]\<rparr>), w3)"
      by (rule apply_atE)
    show ?thesis
      unfolding run using Some a1 a2 j k judged_Suc_twice [OF k x j, of pool] index_ok_Suc [OF inv(2)] inv x ne
      by (simp add: bindM_def scan_inv_def sucs insert_commute)
  qed
qed

lemma scan_drive_nothing:
  assumes "\<And>p. \<exists>w2. ReadSwiftID osi p w = (Inr (f p), w2)" and "k < length ds"
    and "scan_inv f pool ds k st" and "found f (ds ! k) = None"
  shows "\<exists>st' w'. scan_drive osi pool b k st w = (Inr st', w') \<and> scan_inv f pool ds (Suc k) st'"
proof -
  let ?p = "MountedPath (ds ! k)"
  have p: "MountedPath (sc_drives st ! k) = ?p" using scan_invD(1) [OF assms(3)] assms(2) by simp
  have inv: "scan_inv f pool ds (Suc k) st"
    using assms(3,4) judged_Suc_same [OF assms(2,4)] index_ok_Suc [OF scan_invD(2) [OF assms(3)]]
    by (simp add: scan_inv_def spares_found_Suc [OF assms(2)] taken_ids_Suc [OF assms(2)] any_mismounted_Suc [OF assms(2)])
  show ?thesis
  proof (cases "?p = []")
    case True
    with p inv show ?thesis by (simp add: scan_drive_def)
  next
    case False
    with assms(4) obtain e where e: "f ?p = Inl e" by (auto simp: found_def split: sum.splits)
    obtain w1 where "ReadSwiftID osi ?p w = (Inr (f ?p), w1)" using assms(1) by blast
    from scan_drive_read [OF this p False] e inv show ?thesis by (simp add: bindM_def thenM_def)
  qed
qed

lemma scan_drive_inv:
  assumes r: "\<And>p. \<exists>w2. ReadSwiftID osi p w = (Inr (f p), w2)" and k: "k < length ds"
    and i: "scan_inv f pool ds k st"
  shows "\<exists>st' w'. scan_drive osi pool (list_ex Broken ds) k st w = (Inr st', w') \<and>
    scan_inv f pool ds (Suc k) st'"
proof (cases "found f (ds ! k)")
  case None
  from scan_drive_nothing [OF r k i None] show ?thesis .
next
  case (Some x)
  let ?p = "MountedPath (ds ! k)"
  note inv = scan_invD [OF i]
  note sucs = spares_found_Suc [OF k] taken_ids_Suc [OF k] any_mismounted_Suc [OF k]
  have p: "MountedPath (sc_drives st ! k) = ?p" using inv(1) k by simp
  from Some have fp: "?p \<noteq> []" "f ?p = Inr x" by (auto simp: found_def split: if_splits sum.splits)
  obtain w1 where rd: "ReadSwiftID osi ?p w = (Inr (f ?p), w1)" using r by blast
  note run = scan_drive_read [OF rd p fp(1), of pool "list_ex Broken ds"]
  consider (empty) "x = []" | (spare) "x = spare" | (regular) "regular_id x"
    unfolding regular_id_def by blast
  then show ?thesis
  proof cases
    case empty
    with Some have e: "found f (ds ! k) = Some []" by simp
    have j: "judged f pool ds (Suc k) = (judged f pool ds k)[k := (ds ! k)\<lparr>Assignment :=
        Some \<lparr>SwiftID = [], AssignError = (if length pool > 0 then
            if list_ex Broken ds then AssignmentBlocked else AssignmentPending else AssignmentMissing)\<rparr>\<rparr>]" (is "_ = _[k := _\<lparr>Assignment := Some ?a\<rparr>]")
      using judged_Suc_irregular [OF k e, of pool] verdict_new(2) [OF e, of pool] by (simp add: regular_id_def)
    obtain w2 where a: "apply_at ?a k st w1 =
      (Inr (st\<lparr>sc_drives := (sc_drives st)[k := (sc_drives st ! k)\<lparr>Assignment := Some ?a\<rparr>]\<rparr>), w2)"
      by (rule apply_atE)
    show ?thesis
      unfolding run fp(2) sum.case empty using a k j e index_ok_Suc [OF inv(2)] inv
      by (simp add: scan_inv_def sucs regular_id_def spare_def)
  next
    case spare
    with Some have e: "found f (ds ! k) = Some spare" by simp
    let ?a = "\<lparr>SwiftID = spare, AssignError = AssignmentOK\<rparr>"
    have j: "judged f pool ds (Suc k) = (judged f pool ds k)[k := (ds ! k)\<lparr>Assignment := Some ?a\<rparr>]"
      using judged_Suc_irregular [OF k e, of pool] verdict_new(3) [OF e, of pool] by (simp add: regular_id_def)
    obtain w2 where a: "apply_at ?a k st w1 =
      (Inr (st\<lparr>sc_drives := (sc_drives st)[k := (sc_drives st ! k)\<lparr>Assignment := Some ?a\<rparr>]\<rparr>), w2)"
      by (rule apply_atE)
    show ?thesis
      unfolding run fp(2) sum.case spare using a k j e index_ok_Suc [OF inv(2)] inv
      by (simp add: bindM_def scan_inv_def sucs regular_id_def)
  next
    case regular
    then have "x \<noteq> []" "x \<noteq> spare" by (simp_all add: regular_id_def)
    then show ?thesis
      unfolding run fp(2) sum.case using scan_swift_id_inv [OF k i Some regular] by simp
  qed
qed

lemma scan_all:
  assumes "reads_as osi f w"
  shows "\<exists>st w'. foldM [0..<length ds] (scan_drive osi pool (list_ex Broken ds)) (scan0 ds) w = (Inr st, w') \<and>
    scan_inv f pool ds (length ds) st"
proof -
  let ?I = "\<lambda>k st w1. scan_inv f pool ds k st \<and> w1 \<in> undisturbed osi w"
  have "\<exists>st w'. foldM [0..<length ds] (scan_drive osi pool (list_ex Broken ds)) (scan0 ds) w = (Inr st, w') \<and>
    ?I (length ds) st w'"
  proof (rule foldM_upt [where I = ?I])
    fix k st w1 assume k: "k < length ds" and i: "?I k st w1"
    have "\<exists>w2. ReadSwiftID osi p w1 = (Inr (f p), w2)" for p
      using assms i unfolding reads_as_def by blast
    from scan_drive_inv [OF this k, of pool st] i obtain st' w' where
      s: "scan_drive osi pool (list_ex Broken ds) k st w1 = (Inr st', w')" "scan_inv f pool ds (Suc k) st'"
      by blast
    from keepsD [OF keeps_undisturbed_scan _ s(1)] i s
    show "\<exists>v' w'. scan_drive osi pool (list_ex Broken ds) k st w1 = (Inr v', w') \<and> ?I (Suc k) v' w'"
      by blast
  next
    show "?I 0 (scan0 ds) w"
      by (simp add: scan_inv_def scan0_def judged_0 index_ok_def any_mismounted_def taken_ids_def
          spares_found_def undisturbed.here)
  qed simp
  then show ?thesis by blast
qed

lemma scan_drive_write [simp]:
  "scan_drive (osi\<lparr>WriteSwiftID := g\<rparr>) = scan_drive osi"
proof -
  have read: "ReadSwiftID (osi\<lparr>WriteSwiftID := g\<rparr>) = ReadSwiftID osi" by simp
  show ?thesis by (intro ext, unfold scan_drive_def read) (rule refl)
qed

text \<open>The ways through \<open>UpdateDriveAssignments\<close>.\<close>

lemma Update_blocked:
  assumes "reads_as osi f w" and "list_ex Broken ds \<or> any_mismounted f ds \<or> pool = []"
  shows "\<exists>w'. UpdateDriveAssignments ds pool osi w = (Inr (judged f pool ds (length ds)), w')"
proof -
  from scan_all [OF assms(1), of ds pool] obtain st w1 where
    f: "foldM [0..<length ds] (scan_drive osi pool (list_ex Broken ds)) (scan0 ds) w = (Inr st, w1)"
    and i: "scan_inv f pool ds (length ds) st" by blast
  from i have "hasMismountedDrives st = any_mismounted f ds" "sc_drives st = judged f pool ds (length ds)"
    by (simp_all add: scan_inv_def)
  with assms(2) f show ?thesis
    unfolding UpdateDriveAssignments_def Let_def by (simp add: bindM_Inr)
qed

lemma Update_assign:
  assumes "reads_as osi f w" and "\<not> list_ex Broken ds" and "\<not> any_mismounted f ds" and "pool \<noteq> []"
  shows "\<exists>w1. UpdateDriveAssignments ds pool osi w =
    bindM (foldM [0..<length ds] (auto_assign osi pool) (judged f pool ds (length ds), taken_ids f ds))
          (\<lambda>(drives, _). ret drives) w1"
proof -
  from scan_all [OF assms(1), of ds pool] obtain st w1 where
    f: "foldM [0..<length ds] (scan_drive osi pool (list_ex Broken ds)) (scan0 ds) w = (Inr st, w1)"
    and i: "scan_inv f pool ds (length ds) st" by blast
  from i have "hasMismountedDrives st = any_mismounted f ds" "sc_drives st = judged f pool ds (length ds)"
    "isAssignedSwiftID st = taken_ids f ds"
    by (simp_all add: scan_inv_def)
  with assms(2-) f show ?thesis
    unfolding UpdateDriveAssignments_def Let_def by (auto simp: bindM_Inr)
qed

section \<open>Who gets which id\<close>

text \<open>
  The reference for the automatic assignment: one pass over the drives that hands out the
  free ids of the pool in their order.
\<close>

fun hand_out :: "nat list \<Rightarrow> drive list \<Rightarrow> string list \<Rightarrow> drive list" where
  "hand_out [] ds free = ds"
| "hand_out (i # ks) ds free =
     (if EligibleForAutoAssignment (ds ! i) then
        (case free of
           [] \<Rightarrow> hand_out ks ds []
         | p # ps \<Rightarrow>
             hand_out ks (ds[i := (ds ! i)\<lparr>Assignment := Some \<lparr>SwiftID = written_id p, AssignError = AssignmentOK\<rparr>\<rparr>])
               (filter (\<lambda>x. x \<noteq> p) ps))
      else hand_out ks ds free)"

definition free_ids :: "string list \<Rightarrow> string set \<Rightarrow> string list" where
  "free_ids pool taken = filter (\<lambda>x. x \<notin> taken) pool"

lemma first_free_ids: "first_free pool taken = (case free_ids pool taken of [] \<Rightarrow> [] | p # ps \<Rightarrow> p)"
  by (induction pool) (simp_all add: first_free_def free_ids_def)

lemma free_ids_insert:
  "free_ids pool taken = p # ps \<Longrightarrow> free_ids pool (insert p taken) = filter (\<lambda>x. x \<noteq> p) ps"
proof -
  assume f: "free_ids pool taken = p # ps"
  have "free_ids pool (insert p taken) = filter (\<lambda>x. x \<noteq> p) (free_ids pool taken)"
    by (simp add: free_ids_def) (metis (mono_tags, lifting) )
  with f show ?thesis by simp
qed

definition writes_ok :: "('k, 's) world os_interface \<Rightarrow> bool" where
  "writes_ok osi \<longleftrightarrow> (\<forall>p i w. \<exists>w'. WriteSwiftID osi p i w = (Inr None, w'))"

lemma auto_assign_hand_out:
  assumes w: "writes_ok osi" and ne: "[] \<notin> set pool"
  shows "\<exists>t w'. foldM ks (auto_assign osi pool) (ds, taken) w =
    (Inr (hand_out ks ds (free_ids pool taken), t), w')"
proof (induction ks arbitrary: ds taken w)
  case Nil
  then show ?case by simp
next
  case (Cons i ks)
  show ?case
  proof (cases "EligibleForAutoAssignment (ds ! i)")
    case False
    with Cons.IH [of ds taken w] show ?thesis by (simp add: auto_assign_def)
  next
    case e: True
    show ?thesis
    proof (cases "free_ids pool taken")
      case Nil
      from e Nil Cons.IH [of ds taken] show ?thesis
        by (simp add: auto_assign_def first_free_ids bindM_def thenM_def Let_def)
    next
      case (Cons p ps)
      have "set (free_ids pool taken) \<subseteq> set pool" by (auto simp: free_ids_def)
      with Cons have "p \<in> set pool" by simp
      with ne have p: "p \<noteq> []" by blast
      define w1 where "w1 = w\<lparr>logs := logs w @ [(LInfo, ''assigning swift-id '' @ [CHR 0x27] @
        written_id p @ [CHR 0x27] @ '' to '' @ DevicePath (ds ! i))]\<rparr>"
      from w obtain w2 where wr: "WriteSwiftID osi (MountPath (ds ! i)) (written_id p) w1 = (Inr None, w2)"
        unfolding writes_ok_def by blast
      let ?a = "\<lparr>SwiftID = written_id p, AssignError = AssignmentOK\<rparr>"
      obtain ls where ap: "Apply ?a (ds ! i) w2 = (Inr ((ds ! i)\<lparr>Assignment := Some ?a\<rparr>), w2\<lparr>logs := logs w2 @ ls\<rparr>)"
        using Apply_run by blast
      let ?ds = "ds[i := (ds ! i)\<lparr>Assignment := Some ?a\<rparr>]"
      have "auto_assign osi pool i (ds, taken) w = (Inr (?ds, insert p taken), w2\<lparr>logs := logs w2 @ ls\<rparr>)"
        using e p Cons wr [unfolded w1_def] ap
        by (simp add: auto_assign_def first_free_ids Let_def bindM_def thenM_def)
      with Cons.IH [of ?ds "insert p taken" "w2\<lparr>logs := logs w2 @ ls\<rparr>"] e Cons
      show ?thesis by (simp add: bindM_Inr free_ids_insert [OF Cons])
    qed
  qed
qed

section \<open>No id twice\<close>

text \<open>The swift-id under which a drive is to be mounted below /srv/node.\<close>

definition valid_id :: "drive \<Rightarrow> string option" where
  "valid_id d =
     (case Assignment d of
        None \<Rightarrow> None
      | Some a \<Rightarrow> if AssignError a = AssignmentOK \<and> SwiftID a \<noteq> spare then Some (SwiftID a) else None)"

text \<open>
  A drive whose swift-id cannot be read keeps the assignment from an earlier pass. The ids of
  the drives in the set \<open>K\<close>, which will be all others, are kept apart by \<open>isAssignedSwiftID\<close>.
\<close>

definition keeps_unread :: "(string \<Rightarrow> os_error + string) \<Rightarrow> drive \<Rightarrow> bool" where
  "keeps_unread f d \<longleftrightarrow> found f d = None \<and> valid_id d \<noteq> None"

definition distinct_ids :: "nat set \<Rightarrow> drive list \<Rightarrow> bool" where
  "distinct_ids K ds \<longleftrightarrow>
     (\<forall>i<length ds. \<forall>j<length ds. i \<in> K \<longrightarrow> j \<in> K \<longrightarrow> i \<noteq> j \<longrightarrow> valid_id (ds ! i) \<noteq> None \<longrightarrow>
        valid_id (ds ! j) \<noteq> valid_id (ds ! i))"

definition ids_within :: "nat set \<Rightarrow> string set \<Rightarrow> drive list \<Rightarrow> bool" where
  "ids_within K taken ds \<longleftrightarrow> (\<forall>i<length ds. i \<in> K \<longrightarrow> (\<forall>x. valid_id (ds ! i) = Some x \<longrightarrow> x \<in> taken))"

text \<open>Drives with a valid id keep it.\<close>

definition ids_kept :: "drive list \<Rightarrow> drive list \<Rightarrow> bool" where
  "ids_kept ds ds' \<longleftrightarrow> (\<forall>i<length ds. \<forall>x. valid_id (ds ! i) = Some x \<longrightarrow> valid_id (ds' ! i) = Some x)"

lemma eligible_no_id: "EligibleForAutoAssignment d \<Longrightarrow> valid_id d = None"
  by (auto simp: EligibleForAutoAssignment_def valid_id_def split: option.splits)

lemma judged_ids:
  assumes "\<forall>i \<in> K. \<not> keeps_unread f (ds ! i)"
  shows "distinct_ids K (judged f pool ds (length ds))"
    and "ids_within K (taken_ids f ds) (judged f pool ds (length ds))"
proof -
  let ?J = "judged f pool ds (length ds)"
  have *: "found f (ds ! i) = Some x \<and> regular_id x \<and> \<not> (\<exists>j<length ds. j \<noteq> i \<and> found f (ds ! j) = Some x)"
    if i: "i < length ds" "i \<in> K" and v: "valid_id (?J ! i) = Some x" for i x
  proof (cases "found f (ds ! i)")
    case None
    with i assms have "valid_id (ds ! i) = None" by (auto simp: keeps_unread_def)
    with None i v show ?thesis by (simp add: verdict_def valid_id_def)
  next
    case (Some y)
    with i v show ?thesis
      by (auto simp: verdict_def valid_id_def regular_id_def spare_def split: if_splits)
  qed
  show "distinct_ids K ?J"
    unfolding distinct_ids_def length_judged
  proof (intro allI impI)
    fix i j assume i: "i < length ds" and j: "j < length ds" and K: "i \<in> K" "j \<in> K" and "i \<noteq> j"
      and "valid_id (?J ! i) \<noteq> None"
    then obtain x where x: "valid_id (?J ! i) = Some x" by blast
    from * [OF i K(1) x] * [OF j K(2), of x] i j \<open>i \<noteq> j\<close> show "valid_id (?J ! j) \<noteq> valid_id (?J ! i)"
      unfolding x by blast
  qed
  show "ids_within K (taken_ids f ds) ?J"
    unfolding ids_within_def length_judged taken_ids_alt
    using * nth_mem by blast
qed

lemma first_free_not_taken: "first_free pool taken = p \<Longrightarrow> p \<noteq> [] \<Longrightarrow> p \<notin> taken"
  unfolding first_free_ids free_ids_def
  by (cases "filter (\<lambda>x. x \<notin> taken) pool") (auto dest: filter_eq_ConsD)

lemma auto_assign_value:
  assumes a: "auto_assign osi pool i (ds, taken) w = (Inr (ds', taken'), w')"
  defines "p \<equiv> first_free pool taken"
  shows "(ds' = ds \<and> taken' = taken) \<or>
    (EligibleForAutoAssignment (ds ! i) \<and> p \<noteq> [] \<and> taken' = insert p taken \<and>
     ds' = ds[i := (ds ! i)\<lparr>Assignment := Some \<lparr>SwiftID = written_id p, AssignError = AssignmentOK\<rparr>\<rparr>])"
proof (cases "EligibleForAutoAssignment (ds ! i) \<and> p \<noteq> []")
  case False
  with a show ?thesis by (auto simp: auto_assign_def p_def bindM_def thenM_def Let_def split: if_splits)
next
  case True
  let ?b = "\<lparr>SwiftID = written_id p, AssignError = AssignmentOK\<rparr>"
  from a True obtain w1 err w2 where
    run: "(case err of Some e \<Rightarrow> thenM (log_error (error_text e)) (ret (ds, taken))
      | None \<Rightarrow> bindM (Apply ?b (ds ! i)) (\<lambda>drive. ret (ds[i := drive], insert p taken))) w2
     = (Inr (ds', taken'), w')"
    unfolding auto_assign_def p_def [symmetric] Let_def case_prod_conv
    by (simp only: if_False simp_thms) (elim thenM_InrE bindM_InrE, blast)
  show ?thesis
  proof (cases err)
    case None
    obtain ls where "Apply ?b (ds ! i) w2 = (Inr ((ds ! i)\<lparr>Assignment := Some ?b\<rparr>), w2\<lparr>logs := logs w2 @ ls\<rparr>)"
      using Apply_run by blast
    with None True run show ?thesis by (simp add: bindM_Inr)
  next
    case (Some e)
    with run show ?thesis by (simp add: thenM_def bindM_def)
  qed
qed

lemma valid_id_update:
  assumes "i < length ds" and "d = (ds ! i)\<lparr>Assignment := Some \<lparr>SwiftID = written_id p, AssignError = AssignmentOK\<rparr>\<rparr>"
  shows "valid_id (ds[i := d] ! j) =
    (if j = i then (if written_id p = spare then None else Some p) else valid_id (ds ! j))"
  using assms by (simp add: valid_id_def written_id_def)

lemma assigned_ids:
  assumes "i < length ds" and "distinct_ids K ds" and "ids_within K taken ds" and "p \<notin> taken"
    and "d = (ds ! i)\<lparr>Assignment := Some \<lparr>SwiftID = written_id p, AssignError = AssignmentOK\<rparr>\<rparr>"
  shows "distinct_ids K (ds[i := d])" and "ids_within K (insert p taken) (ds[i := d])"
proof -
  note new = valid_id_update [OF assms(1,5)]
  have d: "valid_id d = (if written_id p = spare then None else Some p)"
    using new [of i] assms(1) by simp
  show "distinct_ids K (ds[i := d])"
    unfolding distinct_ids_def
  proof (intro allI impI)
    fix j k assume jk: "j < length (ds[i := d])" "k < length (ds[i := d])" "j \<in> K" "k \<in> K" "j \<noteq> k"
      "valid_id (ds[i := d] ! j) \<noteq> None"
    consider "j = i" | "k = i" | "j \<noteq> i" "k \<noteq> i" by blast
    then show "valid_id (ds[i := d] ! k) \<noteq> valid_id (ds[i := d] ! j)"
    proof cases
      case 3
      with jk assms(2) show ?thesis unfolding new distinct_ids_def by simp
    qed (use jk assms(3,4) in \<open>auto simp: new d ids_within_def split: if_splits\<close>)
  qed
  show "ids_within K (insert p taken) (ds[i := d])"
    unfolding ids_within_def
  proof (intro allI impI)
    fix j x assume "j < length (ds[i := d])" "j \<in> K" "valid_id (ds[i := d] ! j) = Some x"
    with assms(3) show "x \<in> insert p taken"
      unfolding new ids_within_def by (cases "j = i") (simp_all split: if_splits)
  qed
qed

lemma auto_assign_ids:
  assumes a: "auto_assign osi pool i (ds, taken) w = (Inr (ds', taken'), w')" and i: "i < length ds"
    and d: "distinct_ids K ds" "ids_within K taken ds"
  shows "length ds' = length ds \<and> distinct_ids K ds' \<and> ids_within K taken' ds' \<and> ids_kept ds ds'"
proof -
  let ?p = "first_free pool taken"
  from auto_assign_value [OF a] consider "ds' = ds" "taken' = taken"
    | "EligibleForAutoAssignment (ds ! i)" "?p \<noteq> []" "ds' = ds[i := (ds ! i)\<lparr>Assignment := Some \<lparr>SwiftID = written_id ?p, AssignError = AssignmentOK\<rparr>\<rparr>]"
      "taken' = insert ?p taken" by blast
  then show ?thesis
  proof cases
    case 2
    have "ids_kept ds ds'"
      using eligible_no_id [OF 2(1)] unfolding ids_kept_def 2(3) valid_id_update [OF i refl] by auto
    with 2 assigned_ids [OF i d first_free_not_taken [OF refl 2(2)] refl] show ?thesis by simp
  qed (use d in \<open>simp add: ids_kept_def\<close>)
qed

text \<open>The whole run: the ids of the drives in \<open>K\<close> are distinct, and a valid id that could
  not be read stays.\<close>

lemma judged_keeps_unread:
  "i < length ds \<Longrightarrow> found f (ds ! i) = None \<Longrightarrow>
   valid_id (judged f pool ds (length ds) ! i) = valid_id (ds ! i)"
  by (simp add: verdict_def valid_id_def)

lemma ids_kept_trans: "length ds = length es \<Longrightarrow> ids_kept ds es \<Longrightarrow> ids_kept es fs \<Longrightarrow> ids_kept ds fs"
  unfolding ids_kept_def by simp

lemma Update_ids:
  assumes r: "reads_as osi f w" and K: "\<forall>i \<in> K. \<not> keeps_unread f (ds ! i)"
    and u: "UpdateDriveAssignments ds pool osi w = (Inr ds', w')"
  shows "length ds' = length ds \<and> distinct_ids K ds' \<and> ids_kept (judged f pool ds (length ds)) ds'"
proof (cases "list_ex Broken ds \<or> any_mismounted f ds \<or> pool = []")
  case True
  from Update_blocked [OF r this] u judged_ids(1) [OF K] show ?thesis by (auto simp: ids_kept_def)
next
  case False
  let ?J = "judged f pool ds (length ds)"
  let ?ok = "\<lambda>(es, t). length es = length ds \<and> distinct_ids K es \<and> ids_within K t es \<and> ids_kept ?J es"
  from False Update_assign [OF r, of ds pool] u obtain w0 where
    "bindM (foldM [0..<length ds] (auto_assign osi pool) (?J, taken_ids f ds)) (\<lambda>(drives, _). ret drives) w0 = (Inr ds', w')"
    by auto
  then obtain w1 t w2 where
    f: "foldM [0..<length ds] (auto_assign osi pool) (?J, taken_ids f ds) w1 = (Inr (ds', t), w2)"
    by (elim bindM_InrE) (auto split: prod.splits)
  have "?ok (ds', t)"
  proof (rule foldM_keeps_value [OF f])
    fix i v v' and w w' :: "('a, 'b) world"
    assume i: "i \<in> set [0..<length ds]" and a: "auto_assign osi pool i v w = (Inr v', w')" and ok: "?ok v"
    obtain es t es' t' where v: "v = (es, t)" "v' = (es', t')" by fastforce
    with i ok have "i < length es" "distinct_ids K es" "ids_within K t es" by simp_all
    from auto_assign_ids [OF a [unfolded v] this] ok ids_kept_trans [of ?J es es'] show "?ok v'"
      by (simp add: v)
  qed (simp add: judged_ids [OF K] ids_kept_def)
  then show ?thesis by simp
qed

text \<open>Two drives with one id: one of them has it from before and it could not be read.\<close>

lemma Update_shared_id:
  assumes r: "reads_as osi f w" and u: "UpdateDriveAssignments ds pool osi w = (Inr ds', w')"
    and ij: "i < length ds" "j < length ds" "i \<noteq> j"
    and x: "valid_id (ds' ! i) = Some x" "valid_id (ds' ! j) = Some x"
  shows "\<exists>k \<in> {i, j}. found f (ds ! k) = None \<and> valid_id (ds ! k) = Some x"
proof -
  let ?J = "judged f pool ds (length ds)" and ?K = "{k. \<not> keeps_unread f (ds ! k)}"
  from Update_ids [OF r _ u, of ?K] have l: "length ds' = length ds" and d: "distinct_ids ?K ds'"
    and k: "ids_kept ?J ds'" by simp_all
  from d l ij x have "i \<notin> ?K \<or> j \<notin> ?K" unfolding distinct_ids_def by (metis option.distinct(1))
  then obtain n where n: "n \<in> {i, j}" "keeps_unread f (ds ! n)" by blast
  then obtain y where y: "found f (ds ! n) = None" "valid_id (ds ! n) = Some y"
    unfolding keeps_unread_def by blast
  from n(1) ij have "n < length ds" by blast
  with k judged_keeps_unread [OF this y(1), of pool] y(2) have "valid_id (ds' ! n) = Some y"
    unfolding ids_kept_def by simp
  with n(1) x y show ?thesis by auto
qed

lemma Update_hand_out:
  assumes "reads_as osi f w" and "writes_ok osi" and "\<not> list_ex Broken ds"
    and "\<not> any_mismounted f ds" and "pool \<noteq> []" and "[] \<notin> set pool"
  shows "\<exists>w'. UpdateDriveAssignments ds pool osi w =
     (Inr (hand_out [0..<length ds] (judged f pool ds (length ds)) (free_ids pool (taken_ids f ds))), w')"
proof -
  from Update_assign [OF assms(1,3,4,5)] obtain w1 where
    u: "UpdateDriveAssignments ds pool osi w =
      bindM (foldM [0..<length ds] (auto_assign osi pool) (judged f pool ds (length ds), taken_ids f ds))
            (\<lambda>(drives, _). ret drives) w1" by blast
  from auto_assign_hand_out [OF assms(2,6)] obtain t w' where
    "foldM [0..<length ds] (auto_assign osi pool) (judged f pool ds (length ds), taken_ids f ds) w1 =
     (Inr (hand_out [0..<length ds] (judged f pool ds (length ds)) (free_ids pool (taken_ids f ds)), t), w')"
    by blast
  with u show ?thesis by (simp add: bindM_Inr)
qed

section \<open>Only assignments change\<close>

text \<open>Whatever the reads and writes yield, every drive stays the same but for its
  assignment, and the run does not end the process.\<close>

definition reassigned :: "drive list \<Rightarrow> drive list \<Rightarrow> bool" where
  "reassigned = list_all2 (\<lambda>d d'. \<exists>a. d' = d\<lparr>Assignment := a\<rparr>)"

lemma reassigned_refl [simp]: "reassigned ds ds"
proof -
  have "\<exists>a. d = d\<lparr>Assignment := a\<rparr>" for d :: drive
    by (rule exI [of _ "Assignment d"]) simp
  then show ?thesis unfolding reassigned_def by (simp add: list_all2_refl)
qed

lemma reassigned_update:
  assumes "reassigned ds es" shows "reassigned ds (es[i := (es ! i)\<lparr>Assignment := a\<rparr>])"
  unfolding reassigned_def
proof (rule list_all2_all_nthI)
  show "length ds = length (es[i := (es ! i)\<lparr>Assignment := a\<rparr>])"
    using assms by (simp add: reassigned_def list_all2_lengthD)
  fix n assume "n < length ds"
  then have "\<exists>b. es ! n = (ds ! n)\<lparr>Assignment := b\<rparr>" and n: "n < length es"
    using list_all2_nthD [OF assms [unfolded reassigned_def]]
      list_all2_lengthD [OF assms [unfolded reassigned_def]] by simp_all
  then obtain b where b: "es ! n = (ds ! n)\<lparr>Assignment := b\<rparr>" by blast
  show "\<exists>a'. es[i := (es ! i)\<lparr>Assignment := a\<rparr>] ! n = (ds ! n)\<lparr>Assignment := a'\<rparr>"
  proof (cases "i = n")
    case True
    with b n show ?thesis by (intro exI [of _ a]) simp
  next
    case False
    with b show ?thesis by (intro exI [of _ b]) simp
  qed
qed

lemma reassigned_apply_at:
  "apply_at a i st w = (Inr st', w') \<Longrightarrow> reassigned ds (sc_drives st) \<Longrightarrow> reassigned ds (sc_drives st')"
  using apply_at_run [of a i st w] by (auto intro: reassigned_update)

lemma reassigned_scan_swift_id:
  assumes "scan_swift_id p x i st w = (Inr st', w')" and r: "reassigned ds (sc_drives st)"
  shows "reassigned ds (sc_drives st')"
proof -
  define st0 where "st0 = st\<lparr>isAssignedSwiftID := insert x (isAssignedSwiftID st)\<rparr>"
  have r0: "reassigned ds (sc_drives st0)" using r by (simp add: st0_def)
  from assms(1) obtain st1 w1 where 1: "(if mismounted p x then
           bindM (apply_at \<lparr>SwiftID = x, AssignError = AssignmentMismatch\<rparr> i st0)
                 (\<lambda>st. ret (st\<lparr>hasMismountedDrives := True\<rparr>))
         else apply_at \<lparr>SwiftID = x, AssignError = AssignmentOK\<rparr> i st0) w = (Inr st1, w1)"
    and 2: "(case drivesBySwiftID st1 x of
        Some otherDrive \<Rightarrow>
          bindM (apply_at \<lparr>SwiftID = x, AssignError = AssignmentDuplicate\<rparr> i st1)
                (apply_at \<lparr>SwiftID = x, AssignError = AssignmentDuplicate\<rparr> otherDrive)
      | None \<Rightarrow> ret (st1\<lparr>drivesBySwiftID := (drivesBySwiftID st1)(x \<mapsto> i)\<rparr>)) w1 = (Inr st', w')"
    unfolding scan_swift_id_def Let_def st0_def [symmetric] by (elim bindM_InrE)
  have r1: "reassigned ds (sc_drives st1)"
  proof (cases "mismounted p x")
    case True
    with 1 obtain st2 where
      "apply_at \<lparr>SwiftID = x, AssignError = AssignmentMismatch\<rparr> i st0 w = (Inr st2, w1)"
      "st1 = st2\<lparr>hasMismountedDrives := True\<rparr>"
      by (auto elim!: bindM_InrE)
    with reassigned_apply_at [OF this(1) r0] show ?thesis by simp
  next
    case False
    with 1 have "apply_at \<lparr>SwiftID = x, AssignError = AssignmentOK\<rparr> i st0 w = (Inr st1, w1)" by simp
    then show ?thesis using r0 by (rule reassigned_apply_at)
  qed
  show ?thesis
  proof (cases "drivesBySwiftID st1 x")
    case None
    with 2 r1 show ?thesis by auto
  next
    case (Some j)
    with 2 r1 show ?thesis by (auto elim!: bindM_InrE dest!: reassigned_apply_at)
  qed
qed

lemma reassigned_scan_drive:
  assumes "scan_drive osi pool hb i st w = (Inr st', w')" and r: "reassigned ds (sc_drives st)"
  shows "reassigned ds (sc_drives st')"
proof (cases "MountedPath (sc_drives st ! i) = []")
  case True
  with assms show ?thesis by (simp add: scan_drive_def)
next
  case False
  with assms(1) obtain x w1 where rd: "ReadSwiftID osi (MountedPath (sc_drives st ! i)) w = (Inr x, w1)"
    unfolding scan_drive_def Let_def by (auto elim!: bindM_InrE)
  note run = assms(1) [unfolded scan_drive_read [OF rd refl False]]
  show ?thesis
  proof (cases x)
    case (Inl e)
    with run r show ?thesis by (auto elim!: thenM_InrE)
  next
    case (Inr i')
    consider "i' = []" | "i' = spare" | "i' \<noteq> []" "i' \<noteq> spare" by blast
    then show ?thesis
    proof cases
      case 1
      with run Inr show ?thesis by simp (erule reassigned_apply_at, rule r)
    next
      case 2
      with run Inr obtain st2 where
        "apply_at \<lparr>SwiftID = spare, AssignError = AssignmentOK\<rparr> i st w1 = (Inr st2, w')"
        "sc_drives st' = sc_drives st2"
        by (auto elim!: bindM_InrE)
      with reassigned_apply_at [OF this(1) r] show ?thesis by simp
    next
      case 3
      with run Inr show ?thesis by simp (erule reassigned_scan_swift_id, rule r)
    qed
  qed
qed

lemma reassigned_auto_assign:
  assumes "auto_assign osi pool i v w = (Inr v', w')" and "reassigned ds (fst v)"
  shows "reassigned ds (fst v')"
  using auto_assign_value [of osi pool i "fst v" "snd v" w "fst v'" "snd v'" w'] assms
  by (auto intro: reassigned_update)

lemma Update_reassigned:
  assumes "UpdateDriveAssignments ds pool osi w = (Inr ds', w')"
  shows "reassigned ds ds'"
proof -
  from assms obtain st w1 where
    s: "foldM [0..<length ds] (scan_drive osi pool (list_ex Broken ds)) (scan0 ds) w = (Inr st, w1)"
    and t: "(if list_ex Broken ds \<or> hasMismountedDrives st \<or> length pool = 0 then ret (sc_drives st)
       else bindM (foldM [0..<length ds] (auto_assign osi pool) (sc_drives st, isAssignedSwiftID st))
              (\<lambda>(drives, _). ret drives)) w1 = (Inr ds', w')"
    unfolding UpdateDriveAssignments_def Let_def by (elim bindM_InrE)
  have r: "reassigned ds (sc_drives st)"
    by (rule foldM_keeps_value [OF s, where P = "\<lambda>st. reassigned ds (sc_drives st)"])
       (simp add: scan0_def, rule reassigned_scan_drive)
  show ?thesis
  proof (cases "list_ex Broken ds \<or> hasMismountedDrives st \<or> length pool = 0")
    case True
    with t r show ?thesis by auto
  next
    case False
    with t obtain es taken w2 where
      f: "foldM [0..<length ds] (auto_assign osi pool) (sc_drives st, isAssignedSwiftID st) w1 = (Inr (es, taken), w2)"
      and "ds' = es" by (auto elim!: bindM_InrE)
    have "reassigned ds (fst (es, taken))"
      by (rule foldM_keeps_value [OF f, where P = "\<lambda>v. reassigned ds (fst v)"])
         (simp add: r, rule reassigned_auto_assign)
    with \<open>ds' = es\<close> show ?thesis by simp
  qed
qed

context os_contract
begin

lemma frames_Apply [frames_intros]: "frames v (Apply a d)"
  unfolding Apply_def Let_def by (intro frames_intros)

lemma apply_at_safe [returns_intros, frames_intros]:
  "returns (apply_at a i st)" "frames v (apply_at a i st)"
  unfolding apply_at_def by (intro returns_intros) (intro frames_intros)

lemma scan_swift_id_safe [returns_intros, frames_intros]:
  "returns (scan_swift_id p x i st)" "frames v (scan_swift_id p x i st)"
  unfolding scan_swift_id_def Let_def
  by (auto split: option.split intro!: returns_intros frames_intros)

lemma scan_drive_safe [returns_intros, frames_intros]:
  "returns (scan_drive osi pool hb i st)" "frames tables (scan_drive osi pool hb i st)"
  "frames luks (scan_drive osi pool hb i st)"
  unfolding scan_drive_def Let_def
  by (auto split: sum.split intro!: returns_intros frames_intros)

lemma auto_assign_safe [returns_intros, frames_intros]:
  "returns (auto_assign osi pool i v)" "frames tables (auto_assign osi pool i v)"
  "frames luks (auto_assign osi pool i v)"
  unfolding auto_assign_def Let_def
  by (auto split: option.split prod.split intro!: returns_intros frames_intros)

lemma Update_safe: "safe (sane rank) (UpdateDriveAssignments ds pool osi) (reassigned ds)"
proof (rule safe_val [OF safe_frames])
  show "returns (UpdateDriveAssignments ds pool osi)"
    "frames tables (UpdateDriveAssignments ds pool osi)" "frames luks (UpdateDriveAssignments ds pool osi)"
    unfolding UpdateDriveAssignments_def Let_def
    by (auto split: prod.split intro!: returns_intros frames_intros)
qed (rule Update_reassigned)

end

section \<open>A sample\<close>

text \<open>Three mounted drives, of which the second has a swift-id.\<close>

definition sample_ids :: "string \<Rightarrow> os_error + string" where
  "sample_ids p = (if p = ''/mnt/b'' then Inr ''swift1'' else Inr [])"

definition sample_drives :: "drive list" where
  "sample_drives =
     [xfs_drive ''/dev/sda'' ''/mnt/a'', xfs_drive ''/dev/sdb'' ''/mnt/b'', xfs_drive ''/dev/sdc'' ''/mnt/c'']"

definition sample_pool :: "string list" where
  "sample_pool = [''swift1'', ''swift2'', ''swift3'']"

definition sample_world :: "(trace, unit) world" where
  "sample_world = \<lparr>kern = [], logs = [], osst = ()\<rparr>"

abbreviation id_osi :: "(string \<Rightarrow> os_error + string) \<Rightarrow> (trace, unit) world os_interface" where
  "id_osi \<equiv> sample_osi (\<lambda>_. DeviceTypeFilesystem)"

definition unread_ids :: "string \<Rightarrow> os_error + string" where
  "unread_ids p = (if p = ''/mnt/a'' then Inl (OtherError ''input/output error'') else Inr [])"

lemma sample_reads: "reads_as (id_osi ids) ids w"
  by (rule reads_asI) (simp_all add: sample_osi_def)

lemma sample_writes: "writes_ok (id_osi ids)"
  by (simp add: writes_ok_def sample_osi_def sysM_def)

text \<open>An interface with files: what is written can be read back.\<close>

definition file_id :: "(string \<rightharpoonup> string) \<Rightarrow> string \<Rightarrow> string" where
  "file_id files p = (case files p of None \<Rightarrow> [] | Some i \<Rightarrow> i)"

definition file_osi :: "(trace, string \<rightharpoonup> string) world os_interface" where
  "file_osi =
     (sample_osi (\<lambda>_. DeviceTypeFilesystem) (\<lambda>_. Inr []))
       \<lparr>ReadSwiftID := (\<lambda>p. bindM get_os (\<lambda>files. ret (Inr (file_id files p)))),
        WriteSwiftID := (\<lambda>p i. bindM get_os (\<lambda>files. thenM (put_os (files(p \<mapsto> i))) (ret None)))\<rparr>"

definition file_world :: "(trace, string \<rightharpoonup> string) world" where
  "file_world = \<lparr>kern = [], logs = [], osst = [''/mnt/b'' \<mapsto> ''swift1'']\<rparr>"

lemma file_reads: "reads_as file_osi (\<lambda>p. Inr (file_id (osst w) p)) w"
  by (rule reads_asI) (simp_all add: file_osi_def bindM_def)

lemma file_writes: "writes_ok file_osi"
  by (simp add: writes_ok_def file_osi_def bindM_def thenM_def)

lemma file_reads_back:
  "WriteSwiftID file_osi p i w = (Inr None, w') \<Longrightarrow> ReadSwiftID file_osi p w' = (Inr (Inr i), w')"
  by (auto simp: file_osi_def file_id_def bindM_def thenM_def)

lemma sample_assignable:
  "\<not> list_ex Broken sample_drives" "\<not> any_mismounted (\<lambda>p. Inr (file_id (osst file_world) p)) sample_drives"
  "sample_pool \<noteq> []" "[] \<notin> set sample_pool"
  by code_simp+

section \<open>Properties\<close>



text \<open>C6: The scan of \<open>UpdateDriveAssignments\<close> computes the declarative verdict. Let \<open>f\<close> be what
  the reads of the swift-id files answer at the time of the call. With a
  broken drive, a drive mounted under the wrong name or without a pool, every drive whose
  swift-id could be read gets the verdict that \<open>verdict\<close> defines (missing, blocked or
  pending without an id, spare, duplicate, mismatch or valid), every other drive keeps its
  assignment, and no swift-id is written: the run is the same for every \<open>WriteSwiftID\<close>.\<close>

theorem blocked_scan_writes_no_id:
  assumes "reads_as osi f w" and "list_ex Broken ds \<or> any_mismounted f ds \<or> pool = []"
  shows "\<exists>w'. UpdateDriveAssignments ds pool osi w = (Inr (judged f pool ds (length ds)), w') \<and>
     UpdateDriveAssignments ds pool (osi\<lparr>WriteSwiftID := g\<rparr>) w = (Inr (judged f pool ds (length ds)), w')"
proof -
  from scan_all [OF assms(1), of ds pool] obtain st w1 where
    f: "foldM [0..<length ds] (scan_drive osi pool (list_ex Broken ds)) (scan0 ds) w = (Inr st, w1)"
    and i: "scan_inv f pool ds (length ds) st" by blast
  from i have "hasMismountedDrives st = any_mismounted f ds" "sc_drives st = judged f pool ds (length ds)"
    by (simp_all add: scan_inv_def)
  with assms(2) f show ?thesis
    unfolding UpdateDriveAssignments_def Let_def by (simp add: bindM_Inr)
qed

theorem blocked_scan_writes_no_id_witness:
  "\<exists>w'. UpdateDriveAssignments sample_drives [] (id_osi sample_ids) sample_world =
     (Inr (judged sample_ids [] sample_drives (length sample_drives)), w') \<and>
   map Assignment (judged sample_ids [] sample_drives (length sample_drives)) =
     [Some \<lparr>SwiftID = [], AssignError = AssignmentMissing\<rparr>,
      Some \<lparr>SwiftID = ''swift1'', AssignError = AssignmentOK\<rparr>,
      Some \<lparr>SwiftID = [], AssignError = AssignmentMissing\<rparr>]"
proof -
  have "map Assignment (judged sample_ids [] sample_drives (length sample_drives)) =
     [Some \<lparr>SwiftID = [], AssignError = AssignmentMissing\<rparr>,
      Some \<lparr>SwiftID = ''swift1'', AssignError = AssignmentOK\<rparr>,
      Some \<lparr>SwiftID = [], AssignError = AssignmentMissing\<rparr>]" by code_simp
  then show ?thesis
    using blocked_scan_writes_no_id [OF sample_reads [of sample_ids sample_world],
        where ds = sample_drives and pool = "[]" and g = "\<lambda>_ _. ret None"]
    by auto
qed

text \<open>C5: Automatic assignment hands out the free ids of the pool in the order of the
  configuration, to every mounted drive without a swift-id. Let \<open>f\<close> be what the reads of the
  swift-id files answer at the time of the call. When no drive is broken or mounted under the
  wrong name and the writes succeed, the drives whose file is missing or empty get, in the order
  of the drives, exactly the pool entries that no drive has yet, in the order of the pool, until
  the pool is exhausted. The code does not ask whether the drive has just been formatted: a drive
  that came with a filesystem and without a swift-id is assigned one too, where the README
  promises automatic assignment during the initial formatting only.\<close>

theorem auto_assignment_in_pool_order:
  assumes "reads_as osi f w" and "writes_ok osi" and "\<not> list_ex Broken ds"
    and "\<not> any_mismounted f ds" and "pool \<noteq> []" and "[] \<notin> set pool"
  shows "\<exists>w'. UpdateDriveAssignments ds pool osi w =
     (Inr (hand_out [0..<length ds] (judged f pool ds (length ds)) (free_ids pool (taken_ids f ds))), w')"
  using assms by (rule Update_hand_out)

theorem auto_assignment_in_pool_order_witness:
  "\<exists>ds' w'. UpdateDriveAssignments sample_drives sample_pool file_osi file_world = (Inr ds', w') \<and>
     map valid_id ds' = [Some ''swift2'', Some ''swift1'', Some ''swift3'']"
proof -
  have "map valid_id (hand_out [0..<length sample_drives]
      (judged (\<lambda>p. Inr (file_id (osst file_world) p)) sample_pool sample_drives (length sample_drives))
      (free_ids sample_pool (taken_ids (\<lambda>p. Inr (file_id (osst file_world) p)) sample_drives))) =
    [Some ''swift2'', Some ''swift1'', Some ''swift3'']" by code_simp
  then show ?thesis
    using auto_assignment_in_pool_order [OF file_reads file_writes sample_assignable] by auto
qed

text \<open>C34: A swift-id whose file cannot be read is given away. When one of two drives has a
  valid swift-id from an earlier pass and its file cannot be read any more at the time of the call, and the other
  drive has no swift-id yet, \<open>UpdateDriveAssignments\<close> keeps the assignment of the first drive
  and hands the same id out to the second, if the id is the first of the pool.\<close>

theorem unread_swift_id_given_away:
  assumes "reads_as osi f w" and "writes_ok osi" and "\<not> Broken a" and "\<not> Broken b"
    and "found f a = None" and "valid_id a = Some i" and "found f b = Some []"
    and "\<not> HasPrefix i ''spare/''" and "[] \<notin> set (i # pool)"
  shows "\<exists>ds' w'. UpdateDriveAssignments [a, b] (i # pool) osi w = (Inr ds', w') \<and>
    map valid_id ds' = [Some i, Some i]"
proof -
  let ?J = "judged f (i # pool) [a, b] (length [a, b])"
  let ?ds = "hand_out [0..<length [a, b]] ?J (free_ids (i # pool) (taken_ids f [a, b]))"
  obtain w' where u: "UpdateDriveAssignments [a, b] (i # pool) osi w = (Inr ?ds, w')"
    using Update_hand_out [OF assms(1,2), of "[a, b]" "i # pool"] assms(3-5,7,9)
    by (auto simp: any_mismounted_def regular_id_def)
  from assms(6) obtain x where x: "Assignment a = Some x" "AssignError x = AssignmentOK"
    "SwiftID x = i" "i \<noteq> spare"
    by (auto simp: valid_id_def split: option.splits if_splits)
  have "map valid_id ?ds = [Some i, Some i]"
  proof -
    have "?J = [a, b\<lparr>Assignment := Some \<lparr>SwiftID = [], AssignError = AssignmentPending\<rparr>\<rparr>]"
      using assms(3-5,7) by (simp add: judged_def verdict_def upt_rec)
    moreover have "free_ids (i # pool) (taken_ids f [a, b]) = i # free_ids pool {}"
      using assms(5,7) by (simp add: free_ids_def taken_ids_def spares_found_def regular_id_def spare_def)
    ultimately show ?thesis
      using x assms(4,8) by (simp add: upt_rec EligibleForAutoAssignment_def valid_id_def written_id_def)
  qed
  with u show ?thesis by (intro exI conjI)
qed

theorem unread_swift_id_given_away_witness:
  "\<exists>ds' w'. UpdateDriveAssignments
       [(xfs_drive ''/dev/sda'' ''/mnt/a'')\<lparr>Assignment := Some \<lparr>SwiftID = ''swift1'', AssignError = AssignmentOK\<rparr>\<rparr>,
        xfs_drive ''/dev/sdb'' ''/mnt/b''] [''swift1''] (id_osi unread_ids) sample_world = (Inr ds', w') \<and>
     map valid_id ds' = [Some ''swift1'', Some ''swift1'']"
  by (rule unread_swift_id_given_away [where f = unread_ids, OF sample_reads sample_writes])
     (simp_all add: xfs_drive_def found_def unread_ids_def
       MountedPath_def valid_id_def spare_def HasPrefix_def)

text \<open>C33: A mismatched drive shares its place. When one of two drives is mounted below /srv/node under
  the swift-id \<open>i\<close> while its file says \<open>j\<close>, and the file of the other drive says \<open>i\<close>, then
  \<open>UpdateDriveAssignments\<close> refuses the assignment of the first drive but not that of the second,
  and the mount path of both is /srv/node/\<open>i\<close>: the first stays there and the second is mounted
  over it in the next step.\<close>

theorem mismatched_drive_shares_place:
  assumes "reads_as osi f w" and "MountedPath a = FpJoin [srv_node, i]" and "mismounted (MountedPath a) j"
    and "found f a = Some j" and "found f b = Some i" and "i \<noteq> j" and "regular_id i" and "regular_id j"
    and "\<not> mismounted (MountedPath b) i"
  shows "\<exists>ds' w'. UpdateDriveAssignments [a, b] pool osi w = (Inr ds', w') \<and>
    map Assignment ds' = [Some \<lparr>SwiftID = j, AssignError = AssignmentMismatch\<rparr>,
                          Some \<lparr>SwiftID = i, AssignError = AssignmentOK\<rparr>] \<and>
    map MountPath ds' = [FpJoin [srv_node, i], FpJoin [srv_node, i]]"
proof -
  let ?J = "judged f pool [a, b] (length [a, b])"
  have "any_mismounted f [a, b]" using assms(3,4,8) by (simp add: any_mismounted_def)
  then obtain w' where u: "UpdateDriveAssignments [a, b] pool osi w = (Inr ?J, w')"
    using Update_blocked [OF assms(1)] by blast
  have J: "?J = [a\<lparr>Assignment := Some \<lparr>SwiftID = j, AssignError = AssignmentMismatch\<rparr>\<rparr>,
      b\<lparr>Assignment := Some \<lparr>SwiftID = i, AssignError = AssignmentOK\<rparr>\<rparr>]"
    using assms(3-9) by (auto simp: judged_def verdict_def upt_rec regular_id_def less_Suc_eq)
  moreover have "map MountPath ?J = [FpJoin [srv_node, i], FpJoin [srv_node, i]]"
    using assms(2,7) FpJoin_srv_node_not_Nil [of i]
    unfolding J by (simp add: MountPath_def MountPathAt_def Assignment_MountPath_def Let_def regular_id_def)
  ultimately show ?thesis using u by (intro exI [of _ ?J] exI [of _ w']) simp
qed

theorem mismatched_drive_shares_place_witness:
  "\<exists>ds' w'. UpdateDriveAssignments
       [xfs_drive ''/dev/sda'' ''/srv/node/a'', xfs_drive ''/dev/sdb'' ''/run/swift-storage/sdb'']
       [] (id_osi (\<lambda>p. Inr (if p = ''/srv/node/a'' then ''b'' else ''a''))) sample_world = (Inr ds', w') \<and>
     map MountPath ds' = [''/srv/node/a'', ''/srv/node/a'']"
proof -
  let ?f = "\<lambda>p. Inr (if p = ''/srv/node/a'' then ''b'' else ''a'') :: os_error + string"
  let ?a = "xfs_drive ''/dev/sda'' ''/srv/node/a''" and ?b = "xfs_drive ''/dev/sdb'' ''/run/swift-storage/sdb''"
  have p: "FpJoin [srv_node, ''a''] = ''/srv/node/a''" "mismounted ''/srv/node/a'' ''b''"
    "\<not> mismounted ''/run/swift-storage/sdb'' ''a''" by code_simp+
  show ?thesis
    using mismatched_drive_shares_place [OF sample_reads [of ?f sample_world], of ?a "''a''" "''b''" ?b "[]"] p
    by (auto simp: xfs_drive_def MountedPath_def found_def regular_id_def spare_def)
qed

end
