(* ===== verification/Config.thy ===== *)
theory Config
  imports Core_Assignment
begin

text \<open>
  \<open>config.go\<close>: the configuration and how it is read at program start. Reading YAML is a
  parameter, and so is the handling of the argument \<open>--version\<close> (package bininfo).
\<close>

section \<open>The configuration\<close>

record Configuration =
  ChrootPath :: string
  DriveGlobs :: "string list"
  OwnerUser :: string
  OwnerGroup :: string
  Secrets :: "string list"
  SwiftIDPool :: "string list"
  MetricsListenAddress :: string

text \<open>The loop that disambiguates "spare" entries into "spare/0", "spare/1" and so on; \<open>n\<close> is
  \<open>spareIdx\<close>.\<close>

fun disambiguate_spares :: "nat \<Rightarrow> string list \<Rightarrow> string list" where
  "disambiguate_spares n [] = []"
| "disambiguate_spares n (str # strs) =
     (if str = spare then (''spare/'' @ Itoa n) # disambiguate_spares (n + 1) strs
      else str # disambiguate_spares n strs)"

definition init_config ::
    "'k host \<Rightarrow> (string \<Rightarrow> string + Configuration) \<Rightarrow> (('k, 's) world, unit) io \<Rightarrow> string list
     \<Rightarrow> (('k, 's) world, Configuration) io" where
  "init_config h unmarshal HandleVersionArgument args =
     thenM HandleVersionArgument
     (if length args \<noteq> 2 then
        exitM (Fatal (''Usage: '' @ (case args of [] \<Rightarrow> [] | a # _ \<Rightarrow> a) @ '' <config-file>''))
      else
        bindM (sysM (sys_readfile h (args ! 1))) (\<lambda>r.
        case r of
          Inl err \<Rightarrow> log_fatal (''read configuration file: '' @ error_text err)
        | Inr configBytes \<Rightarrow>
            (case unmarshal configBytes of
               Inl err \<Rightarrow> log_fatal (''parse configuration: '' @ err)
             | Inr c \<Rightarrow> ret (c\<lparr>SwiftIDPool := disambiguate_spares 0 (SwiftIDPool c)\<rparr>))))"

section \<open>Lemmas\<close>

definition spare_name :: "string \<Rightarrow> bool" where
  "spare_name s \<longleftrightarrow> HasPrefix s ''spare/''"

lemma spare_not_spare_name: "\<not> spare_name spare"
  by (simp add: spare_name_def spare_def HasPrefix_def)

lemma written_id_spare: "written_id (''spare/'' @ n) = spare"
  by (simp add: written_id_def HasPrefix_def)

lemma written_id_disambiguate:
  "\<forall>s \<in> set pool. \<not> spare_name s \<Longrightarrow> map written_id (disambiguate_spares n pool) = pool"
proof (induction n pool rule: disambiguate_spares.induct)
  case (2 n s ss)
  then show ?case
    using written_id_spare [of "Itoa n"] by (auto simp: written_id_def spare_name_def)
qed simp

lemma disambiguate_members:
  "x \<in> set (disambiguate_spares n pool) \<Longrightarrow>
     (x \<in> set pool \<and> x \<noteq> spare) \<or> (\<exists>k\<ge>n. x = ''spare/'' @ Itoa k)"
  by (induction n pool rule: disambiguate_spares.induct) (auto split: if_splits dest: Suc_leD)

lemma disambiguate_distinct:
  assumes "distinct (filter (\<lambda>s. s \<noteq> spare) pool)" and "\<forall>s \<in> set pool. \<not> spare_name s"
  shows "distinct (disambiguate_spares n pool)"
  using assms
proof (induction n pool rule: disambiguate_spares.induct)
  case (2 n s ss)
  show ?case
  proof (cases "s = spare")
    case True
    have "''spare/'' @ Itoa n \<notin> set (disambiguate_spares (n + 1) ss)"
    proof
      assume "''spare/'' @ Itoa n \<in> set (disambiguate_spares (n + 1) ss)"
      from disambiguate_members [OF this] consider "''spare/'' @ Itoa n \<in> set ss"
        | k where "k \<ge> n + 1" "''spare/'' @ Itoa n = ''spare/'' @ Itoa k" by blast
      then show False
      proof cases
        case 1
        with 2(4) have "\<not> spare_name (''spare/'' @ Itoa n)" by simp
        then show False by (simp add: spare_name_def HasPrefix_def)
      next
        case 2
        then show False by simp
      qed
    qed
    with True 2 show ?thesis by simp
  next
    case False
    have "s \<notin> set (disambiguate_spares n ss)"
    proof
      assume "s \<in> set (disambiguate_spares n ss)"
      from disambiguate_members [OF this] consider "s \<in> set ss" "s \<noteq> spare"
        | k where "s = ''spare/'' @ Itoa k" by blast
      then show False
      proof cases
        case 1
        with 2(3) False show False by auto
      next
        case (2 k)
        then have "spare_name s" by (simp add: spare_name_def HasPrefix_def)
        with \<open>\<forall>x \<in> set (s # ss). \<not> spare_name x\<close> show False by simp
      qed
    qed
    with False 2 show ?thesis by simp
  qed
qed simp

section \<open>Properties\<close>

text \<open>C13: The spare disks of the pool get distinct names that are undone when a swift-id is
  written. For a pool whose entries do not look like "spare/..." already and which has no
  id twice apart from "spare", the disambiguated pool has no entry twice, and the swift-ids
  that the automatic assignment would write for its entries are the configured ones.\<close>

theorem pool_disambiguation_roundtrip:
  assumes "\<forall>s \<in> set pool. \<not> spare_name s" and "distinct (filter (\<lambda>s. s \<noteq> spare) pool)"
  shows "distinct (disambiguate_spares 0 pool) \<and> map written_id (disambiguate_spares 0 pool) = pool"
  using disambiguate_distinct [OF assms(2,1)] written_id_disambiguate [OF assms(1)] by blast

theorem pool_disambiguation_roundtrip_witness:
  "distinct (disambiguate_spares 0 [''swift-01'', ''spare'', ''swift-02'', ''spare'']) \<and>
   map written_id (disambiguate_spares 0 [''swift-01'', ''spare'', ''swift-02'', ''spare''])
     = [''swift-01'', ''spare'', ''swift-02'', ''spare'']"
  by (rule pool_disambiguation_roundtrip) code_simp+

end
