(* ===== verification/Go_Json.thy ===== *)
theory Go_Json
  imports Go_Strings "HOL-Library.AList" "HOL-Library.List_Lexorder" "HOL-Library.Char_ord"
begin

text \<open>
  \<open>json.Marshal\<close> of a \<open>map[string]int\<close>, as package encoding/json does it: an object with the
  keys in byte order, in quotes, escaped for HTML. Bytes from 0x80 on are written as they
  are, which is what the package does with valid UTF-8 (other than the two line separators
  U+2028 and U+2029).
\<close>

section \<open>Definitions\<close>

definition hex_digit :: "nat \<Rightarrow> char" where
  "hex_digit n = (if n < 10 then char_of (48 + n) else char_of (87 + n))"

definition json_char :: "char \<Rightarrow> string" where
  "json_char c =
     (let n = (of_char c :: nat)
      in if c = CHR 0x22 \<or> c = CHR 0x5C then [CHR 0x5C, c]
         else if n = 8 then [CHR 0x5C, CHR ''b'']
         else if n = 12 then [CHR 0x5C, CHR ''f'']
         else if n = 10 then [CHR 0x5C, CHR ''n'']
         else if n = 13 then [CHR 0x5C, CHR ''r'']
         else if n = 9 then [CHR 0x5C, CHR ''t'']
         else if n < 32 \<or> c = CHR ''<'' \<or> c = CHR ''>'' \<or> c = CHR ''&'' then
           CHR 0x5C # ''u00'' @ [hex_digit (n div 16), hex_digit (n mod 16)]
         else [c])"

definition json_string :: "string \<Rightarrow> string" where
  "json_string s = [CHR 0x22] @ concat (map json_char s) @ [CHR 0x22]"

definition json_field :: "string \<times> nat \<Rightarrow> string" where
  "json_field kv = json_string (fst kv) @ '':'' @ Itoa (snd kv)"

text \<open>The map is an association list with distinct keys.\<close>

definition json_map :: "(string \<times> nat) list \<Rightarrow> string" where
  "json_map m = ''{'' @ Join '','' (map json_field (sort_key fst m)) @ ''}''"

section \<open>Lemmas\<close>

lemma json_string_plain:
  "\<forall>c \<in> set s. json_char c = [c] \<Longrightarrow> json_string s = [CHR 0x22] @ s @ [CHR 0x22]"
  by (induction s) (auto simp: json_string_def)

end
