(* ===== verification/Converger.thy ===== *)
theory Converger
  imports Config Go_Json Util
begin

text \<open>
  \<open>converger.go\<close> and the events of \<open>collectors.go\<close>: the thread that owns the list of drives.
  It takes batches of events from a queue; for each batch it reads the mounts and mappings
  again, handles the events and then moves all drives towards their desired state. The
  state of the thread is the list of drives; the metric \<open>eventCounter\<close> is kept beside it.
\<close>

section \<open>Events\<close>

datatype event =
  DriveAddedEvent string string string
| DriveRemovedEvent string
| DriveReinstatedEvent string
| WakeupEvent
| DriveErrorEvent string string

text \<open>The methods of each type of event, and the dispatch of the interface.\<close>

definition DriveAddedEvent_LogMessage :: "string \<Rightarrow> string \<Rightarrow> string" where
  "DriveAddedEvent_LogMessage devicePath foundAtPath =
     (if foundAtPath = [] \<or> foundAtPath = devicePath then ''new device found: '' @ devicePath
      else ''new device found: '' @ foundAtPath @ '' -> '' @ devicePath)"

definition DriveRemovedEvent_LogMessage :: "string \<Rightarrow> string" where
  "DriveRemovedEvent_LogMessage devicePath = ''device removed: '' @ devicePath"

definition DriveReinstatedEvent_LogMessage :: "string \<Rightarrow> string" where
  "DriveReinstatedEvent_LogMessage devicePath = ''device reinstated: '' @ devicePath"

definition WakeupEvent_LogMessage :: "'k host \<Rightarrow> string" where
  "WakeupEvent_LogMessage h = (if InTestMode h then ''scheduled consistency check'' else [])"

definition DriveErrorEvent_LogMessage :: "string \<Rightarrow> string \<Rightarrow> string" where
  "DriveErrorEvent_LogMessage devicePath logLine =
     ''potential device error for '' @ devicePath @ '' seen in kernel log: '' @ logLine"

fun LogMessage :: "'k host \<Rightarrow> event \<Rightarrow> string" where
  "LogMessage h (DriveAddedEvent p f s) = DriveAddedEvent_LogMessage p f"
| "LogMessage h (DriveRemovedEvent p) = DriveRemovedEvent_LogMessage p"
| "LogMessage h (DriveReinstatedEvent p) = DriveReinstatedEvent_LogMessage p"
| "LogMessage h WakeupEvent = WakeupEvent_LogMessage h"
| "LogMessage h (DriveErrorEvent p l) = DriveErrorEvent_LogMessage p l"

definition DriveAddedEvent_EventType :: string where
  "DriveAddedEvent_EventType = ''drive-added''"

definition DriveRemovedEvent_EventType :: string where
  "DriveRemovedEvent_EventType = ''drive-removed''"

definition DriveReinstatedEvent_EventType :: string where
  "DriveReinstatedEvent_EventType = ''drive-reinstated''"

definition WakeupEvent_EventType :: string where
  "WakeupEvent_EventType = ''consistency-check''"

definition DriveErrorEvent_EventType :: string where
  "DriveErrorEvent_EventType = ''drive-error''"

fun EventType :: "event \<Rightarrow> string" where
  "EventType (DriveAddedEvent p f s) = DriveAddedEvent_EventType"
| "EventType (DriveRemovedEvent p) = DriveRemovedEvent_EventType"
| "EventType (DriveReinstatedEvent p) = DriveReinstatedEvent_EventType"
| "EventType WakeupEvent = WakeupEvent_EventType"
| "EventType (DriveErrorEvent p l) = DriveErrorEvent_EventType"

lemmas event_types [simp] = DriveAddedEvent_EventType_def DriveRemovedEvent_EventType_def
  DriveReinstatedEvent_EventType_def WakeupEvent_EventType_def DriveErrorEvent_EventType_def

section \<open>Handling events\<close>

definition DriveAddedEvent_Handle ::
    "'k host \<Rightarrow> ('k, 's) world os_interface \<Rightarrow> Configuration \<Rightarrow> string \<Rightarrow> string \<Rightarrow> drive list
     \<Rightarrow> (('k, 's) world, drive list) io" where
  "DriveAddedEvent_Handle h osi cfg devicePath serialNumber drives =
     bindM (NewDrive h osi devicePath serialNumber (Secrets cfg)) (\<lambda>d.
     bindM (Drive_Converge h osi d) (\<lambda>d. ret (drives @ [d])))"

text \<open>The loop ends with the last drive that has the path, if there is one, and all the drives
  that have another path.\<close>

definition DriveRemovedEvent_Handle ::
    "'k host \<Rightarrow> ('k, 's) world os_interface \<Rightarrow> string \<Rightarrow> drive list \<Rightarrow> (('k, 's) world, drive list) io" where
  "DriveRemovedEvent_Handle h osi devicePath drives =
     (case rev (filter (\<lambda>d. DevicePath d = devicePath) drives) of
        [] \<Rightarrow> ret drives
      | d # _ \<Rightarrow>
          thenM (Drive_Teardown h osi d) (ret (filter (\<lambda>d. DevicePath d \<noteq> devicePath) drives)))"

definition DriveErrorEvent_Handle ::
    "'k host \<Rightarrow> string \<Rightarrow> drive list \<Rightarrow> (('k, 's) world, drive list) io" where
  "DriveErrorEvent_Handle h devicePath drives =
     update_firstM (\<lambda>d. DevicePath d = devicePath) (MarkAsBroken h) drives"

definition DriveReinstatedEvent_Handle ::
    "'k host \<Rightarrow> ('k, 's) world os_interface \<Rightarrow> string \<Rightarrow> drive list \<Rightarrow> (('k, 's) world, drive list) io" where
  "DriveReinstatedEvent_Handle h osi devicePath drives =
     update_firstM (\<lambda>d. DevicePath d = devicePath)
       (\<lambda>d. bindM (NewDrive h osi (DevicePath d) (DriveID d) (Keys d)) (Drive_Converge h osi)) drives"

definition WakeupEvent_Handle :: "drive list \<Rightarrow> (('k, 's) world, drive list) io" where
  "WakeupEvent_Handle drives = ret drives"

fun Handle ::
    "'k host \<Rightarrow> ('k, 's) world os_interface \<Rightarrow> Configuration \<Rightarrow> event \<Rightarrow> drive list
     \<Rightarrow> (('k, 's) world, drive list) io" where
  "Handle h osi cfg (DriveAddedEvent p f s) drives = DriveAddedEvent_Handle h osi cfg p s drives"
| "Handle h osi cfg (DriveRemovedEvent p) drives = DriveRemovedEvent_Handle h osi p drives"
| "Handle h osi cfg (DriveErrorEvent p l) drives = DriveErrorEvent_Handle h p drives"
| "Handle h osi cfg (DriveReinstatedEvent p) drives = DriveReinstatedEvent_Handle h osi p drives"
| "Handle h osi cfg WakeupEvent drives = WakeupEvent_Handle drives"

lemmas Handle_defs [simp] = DriveAddedEvent_Handle_def DriveRemovedEvent_Handle_def
  DriveErrorEvent_Handle_def DriveReinstatedEvent_Handle_def WakeupEvent_Handle_def

section \<open>The pass over all drives\<close>

text \<open>"to reflect updated drive assignments"\<close>

definition converge_assigned ::
    "'k host \<Rightarrow> ('k, 's) world os_interface \<Rightarrow> Configuration \<Rightarrow> drive \<Rightarrow> (('k, 's) world, drive) io"
where
  "converge_assigned h osi cfg d =
     (if Broken d then ret d
      else
        bindM (Drive_Converge h osi d) (\<lambda>d.
        thenM (whenM (Dir (MountPath d) = srv_node)
                 (Chown osi (MountPath d) (OwnerUser cfg) (OwnerGroup cfg)))
              (ret d)))"

definition CheckForUnexpectedMounts ::
    "('k, 's) world os_interface \<Rightarrow> drive list \<Rightarrow> (('k, 's) world, unit) io" where
  "CheckForUnexpectedMounts osi drives =
     bindM (GetMountPointsIn osi srv_node HostScope) (\<lambda>ms.
       forM ms (\<lambda>m. whenM (\<not> list_ex (\<lambda>d. MountPath d = mp_MountPath m) drives)
                      (log_error (''unexpected mount at '' @ mp_MountPath m))))"

text \<open>The map \<open>data\<close> of \<open>WriteDriveAudit\<close>, as an association list.\<close>

definition audit_errors :: "drive list \<Rightarrow> nat" where
  "audit_errors drives = length (filter Broken drives)"

definition audit_data :: "drive list \<Rightarrow> (string \<times> nat) list" where
  "audit_data drives =
     AList.update ''drive_audit_errors'' (audit_errors drives)
       (foldl (\<lambda>data d. AList.update (MountPath d) (if Broken d then 1 else 0) data) [] drives)"

definition audit_path :: "Configuration \<Rightarrow> string" where
  "audit_path cfg =
     (let path = ''/var/cache/swift/drive.recon''
      in if ChrootPath cfg \<noteq> [] then FpJoin [ChrootPath cfg, TrimPrefix path ''/''] else path)"

definition WriteDriveAudit ::
    "'k host \<Rightarrow> Configuration \<Rightarrow> drive list \<Rightarrow> (('k, 's) world, unit) io" where
  "WriteDriveAudit h cfg drives =
     bindM (sysM (sys_writefile h (audit_path cfg) (json_map (audit_data drives)))) (\<lambda>err.
     case err of Some e \<Rightarrow> log_error (error_text e) | None \<Rightarrow> ret ())"

definition flag_ready :: "'k host \<Rightarrow> (('k, 's) world, unit) io" where
  "flag_ready h =
     thenM (Run h (Command0\<lparr>ExitOnError := True\<rparr>) [''touch'', ''/run/swift-storage/state/flag-ready''])
           (ret ())"

definition Converge ::
    "'k host \<Rightarrow> ('k, 's) world os_interface \<Rightarrow> Configuration \<Rightarrow> drive list
     \<Rightarrow> (('k, 's) world, drive list) io" where
  "Converge h osi cfg drives =
     bindM (mapM (Drive_Converge h osi) drives) (\<lambda>drives.
     bindM (UpdateDriveAssignments drives (SwiftIDPool cfg) osi) (\<lambda>drives.
     bindM (mapM (converge_assigned h osi cfg) drives) (\<lambda>drives.
     thenM (CheckForUnexpectedMounts osi drives)
     (thenM (WriteDriveAudit h cfg drives)
     (thenM (flag_ready h)
     (ret drives))))))"

section \<open>The event loop\<close>

record converger =
  Drives :: "drive list"
  eventCounter :: "string \<rightharpoonup> nat"

text \<open>\<open>eventCounter.With(...).Add(n)\<close> makes a counter when there is none for the label.\<close>

definition Add :: "string \<Rightarrow> nat \<Rightarrow> (string \<rightharpoonup> nat) \<Rightarrow> (string \<rightharpoonup> nat)" where
  "Add ty n m = m(ty \<mapsto> (case m ty of None \<Rightarrow> 0 | Some k \<Rightarrow> k) + n)"

text \<open>\<open>init\<close> of \<open>metrics.go\<close>: a counter at 0 for every event type.\<close>

definition metrics_init :: "string \<rightharpoonup> nat" where
  "metrics_init =
     foldl (\<lambda>m e. Add (EventType e) 0 m) Map.empty
       [DriveAddedEvent [] [] [], DriveRemovedEvent [], DriveReinstatedEvent [],
        DriveErrorEvent [] [], WakeupEvent]"

definition handle_event ::
    "'k host \<Rightarrow> ('k, 's) world os_interface \<Rightarrow> Configuration \<Rightarrow> event \<Rightarrow> converger
     \<Rightarrow> (('k, 's) world, converger) io" where
  "handle_event h osi cfg e c =
     (let msg = LogMessage h e; ty = EventType e
      in thenM (whenM (msg \<noteq> []) (log_info (''event received: '' @ msg)))
         (bindM (Handle h osi cfg e (Drives c)) (\<lambda>drives.
          ret (c\<lparr>Drives := drives, eventCounter := Add ty 1 (eventCounter c)\<rparr>))))"

text \<open>One iteration of the loop of \<open>RunConverger\<close> on the batch \<open>events\<close>.\<close>

definition converger_iteration ::
    "'k host \<Rightarrow> ('k, 's) world os_interface \<Rightarrow> Configuration \<Rightarrow> event list \<Rightarrow> converger
     \<Rightarrow> (('k, 's) world, converger) io" where
  "converger_iteration h osi cfg events c =
     thenM (RefreshMountPoints osi)
     (thenM (RefreshLUKSMappings osi)
     (bindM (foldM events (handle_event h osi cfg) c) (\<lambda>c.
      bindM (Converge h osi cfg (Drives c)) (\<lambda>drives. ret (c\<lparr>Drives := drives\<rparr>)))))"

text \<open>The loop on the batches that the queue delivers.\<close>

definition RunConverger ::
    "'k host \<Rightarrow> ('k, 's) world os_interface \<Rightarrow> Configuration \<Rightarrow> event list list
     \<Rightarrow> (('k, 's) world, converger) io" where
  "RunConverger h osi cfg queue =
     foldM queue (converger_iteration h osi cfg) \<lparr>Drives = [], eventCounter = metrics_init\<rparr>"

section \<open>Which drives are tracked\<close>

text \<open>The abstract view of the thread: the device paths of its drives, and what an event
  does to them.\<close>

fun track :: "string list \<Rightarrow> event \<Rightarrow> string list" where
  "track ps (DriveAddedEvent p f s) = ps @ [p]"
| "track ps (DriveRemovedEvent p) = filter (\<lambda>q. q \<noteq> p) ps"
| "track ps e = ps"

lemma update_firstM_paths:
  assumes "update_firstM P f ds w = (Inr ds', w')"
    and "\<And>d d' w w'. f d w = (Inr d', w') \<Longrightarrow> DevicePath d' = DevicePath d"
  shows "map DevicePath ds' = map DevicePath ds"
  using update_firstM_value [OF assms(1)] by (auto dest: assms(2))

lemma NewDrive_Converge_value:
  assumes "bindM (NewDrive h osi p serial keys) (Drive_Converge h osi) w = (Inr d, w')"
  shows "DevicePath d = p \<and> Keys d = keys \<and> Assignment d = None \<and>
    DriveID d = (if serial = [] then md5_hex h p else serial) \<and> Device d \<noteq> None"
proof -
  from assms obtain d0 w1 where n: "NewDrive h osi p serial keys w = (Inr d0, w1)"
    and c: "Drive_Converge h osi d0 w1 = (Inr d, w')"
    by (rule bindM_InrE)
  from NewDrive_value [OF n] Drive_Converge_value [OF c] show ?thesis
    by (auto simp: same_drive_def split: if_splits)
qed

lemma Handle_paths:
  assumes "Handle h osi cfg e ds w = (Inr ds', w')"
  shows "map DevicePath ds' = track (map DevicePath ds) e"
proof (cases e)
  case (DriveAddedEvent p f s)
  with assms obtain d where "bindM (NewDrive h osi p s (Secrets cfg)) (Drive_Converge h osi) w = (Inr d, w')"
    and "ds' = ds @ [d]"
    by (auto elim!: bindM_InrE simp: bindM_Inr)
  with NewDrive_Converge_value [OF this(1)] DriveAddedEvent show ?thesis by simp
next
  case (DriveRemovedEvent p)
  show ?thesis
  proof (cases "rev (filter (\<lambda>d. DevicePath d = p) ds)")
    case Nil
    with assms DriveRemovedEvent have "ds' = ds" by simp
    moreover from Nil have "\<forall>d \<in> set ds. DevicePath d \<noteq> p" by (auto simp: filter_empty_conv)
    ultimately show ?thesis using DriveRemovedEvent by (simp add: filter_map comp_def)
  next
    case (Cons d r)
    with assms DriveRemovedEvent have "ds' = filter (\<lambda>d. DevicePath d \<noteq> p) ds"
      by (auto elim!: thenM_InrE)
    with DriveRemovedEvent show ?thesis by (simp add: filter_map comp_def)
  qed
next
  case (DriveReinstatedEvent p)
  with assms have u: "update_firstM (\<lambda>d. DevicePath d = p)
      (\<lambda>d. bindM (NewDrive h osi (DevicePath d) (DriveID d) (Keys d)) (Drive_Converge h osi)) ds w = (Inr ds', w')"
    by simp
  have "map DevicePath ds' = map DevicePath ds"
    by (rule update_firstM_paths [OF u]) (simp add: NewDrive_Converge_value)
  with DriveReinstatedEvent show ?thesis by simp
next
  case (DriveErrorEvent p l)
  with assms have u: "update_firstM (\<lambda>d. DevicePath d = p) (MarkAsBroken h) ds w = (Inr ds', w')" by simp
  have "map DevicePath ds' = map DevicePath ds"
    by (rule update_firstM_paths [OF u]) (drule MarkAsBroken_value, simp)
  with DriveErrorEvent show ?thesis by simp
qed (use assms in simp)

lemma converge_assigned_value:
  assumes "converge_assigned h osi cfg d w = (Inr d', w')"
  shows "same_drive d d'"
  using assms by (auto simp: converge_assigned_def elim!: bindM_InrE thenM_InrE dest!: Drive_Converge_value
      split: if_splits)

lemma Converge_same:
  assumes "Converge h osi cfg ds w = (Inr ds', w')"
  shows "map DevicePath ds' = map DevicePath ds"
proof -
  from assms obtain ds1 w1 ds2 w2 w3 where
    1: "mapM (Drive_Converge h osi) ds w = (Inr ds1, w1)"
    and 2: "UpdateDriveAssignments ds1 (SwiftIDPool cfg) osi w1 = (Inr ds2, w2)"
    and 3: "mapM (converge_assigned h osi cfg) ds2 w2 = (Inr ds', w3)"
    unfolding Converge_def by (auto elim!: bindM_InrE thenM_InrE)
  have "list_all2 (\<lambda>d d'. DevicePath d' = DevicePath d) ds ds1"
    by (rule mapM_values [OF 1]) (drule Drive_Converge_value, simp add: same_drive_def)
  moreover have "list_all2 (\<lambda>d d'. \<exists>a. d' = d\<lparr>Assignment := a\<rparr>) ds1 ds2"
    using Update_reassigned [OF 2] by (simp add: reassigned_def)
  moreover have "list_all2 (\<lambda>d d'. DevicePath d' = DevicePath d) ds2 ds'"
    by (rule mapM_values [OF 3]) (drule converge_assigned_value, simp add: same_drive_def)
  ultimately show ?thesis
    by (auto dest!: list_all2_map_eq [where g = DevicePath])
qed

lemma handle_event_value:
  assumes "handle_event h osi cfg e c w = (Inr c', w')"
  shows "map DevicePath (Drives c') = track (map DevicePath (Drives c)) e \<and>
    eventCounter c' = Add (EventType e) 1 (eventCounter c)"
proof -
  from assms obtain ds w1 where "Handle h osi cfg e (Drives c) w1 = (Inr ds, w')"
    and c': "c' = c\<lparr>Drives := ds, eventCounter := Add (EventType e) 1 (eventCounter c)\<rparr>"
    unfolding handle_event_def Let_def by (auto elim!: thenM_InrE bindM_InrE)
  from Handle_paths [OF this(1)] c' show ?thesis by simp
qed

lemma handle_events_value:
  "foldM es (handle_event h osi cfg) c w = (Inr c', w') \<Longrightarrow>
   map DevicePath (Drives c') = foldl track (map DevicePath (Drives c)) es \<and>
   eventCounter c' = foldl (\<lambda>m e. Add (EventType e) 1 m) (eventCounter c) es"
proof (induction es arbitrary: c w)
  case (Cons e es)
  from Cons.prems obtain c1 w1 where 1: "handle_event h osi cfg e c w = (Inr c1, w1)"
    and 2: "foldM es (handle_event h osi cfg) c1 w1 = (Inr c', w')"
    by (auto elim: bindM_InrE)
  from handle_event_value [OF 1] Cons.IH [OF 2] show ?case by simp
qed simp

lemma converger_iteration_value:
  assumes "converger_iteration h osi cfg es c w = (Inr c', w')"
  shows "map DevicePath (Drives c') = foldl track (map DevicePath (Drives c)) es \<and>
    eventCounter c' = foldl (\<lambda>m e. Add (EventType e) 1 m) (eventCounter c) es"
proof -
  from assms obtain c1 w1 w2 ds where
    1: "foldM es (handle_event h osi cfg) c w1 = (Inr c1, w2)"
    and 2: "Converge h osi cfg (Drives c1) w2 = (Inr ds, w')"
    and c': "c' = c1\<lparr>Drives := ds\<rparr>"
    unfolding converger_iteration_def by (auto elim!: bindM_InrE thenM_InrE)
  from handle_events_value [OF 1] Converge_same [OF 2] c' show ?thesis by simp
qed

lemma RunConverger_value:
  assumes "foldM queue (converger_iteration h osi cfg) c w = (Inr c', w')"
  shows "map DevicePath (Drives c') = foldl track (map DevicePath (Drives c)) (concat queue) \<and>
    eventCounter c' = foldl (\<lambda>m e. Add (EventType e) 1 m) (eventCounter c) (concat queue)"
  using assms
proof (induction queue arbitrary: c w)
  case (Cons es queue)
  from Cons.prems obtain c1 w1 where 1: "converger_iteration h osi cfg es c w = (Inr c1, w1)"
    and 2: "foldM queue (converger_iteration h osi cfg) c1 w1 = (Inr c', w')"
    by (auto elim: bindM_InrE)
  from converger_iteration_value [OF 1] Cons.IH [OF 2] show ?case by simp
qed simp

lemma Add_count:
  "foldl (\<lambda>m e. Add (EventType e) 1 m) m es ty =
   (if m ty = None \<and> (\<forall>e \<in> set es. EventType e \<noteq> ty) then None
    else Some ((case m ty of None \<Rightarrow> 0 | Some k \<Rightarrow> k) + length (filter (\<lambda>e. EventType e = ty) es)))"
proof (induction es arbitrary: m)
  case (Cons e es)
  then show ?case by (auto simp: Add_def split: option.splits)
qed (auto split: option.split)

lemma metrics_init_zero: "metrics_init (EventType e) = Some 0"
  by (cases e) (simp_all add: metrics_init_def Add_def)

section \<open>The pass does not end the process\<close>

definition touch_works :: "'k host \<Rightarrow> bool" where
  "touch_works h \<longleftrightarrow>
     (\<forall>k. exec_err (fst (sys_exec h (command_argv h (Command0\<lparr>ExitOnError := True\<rparr>)
            [''touch'', ''/run/swift-storage/state/flag-ready'']) [] k)) = None)"

lemma returns_Run_works:
  assumes "\<And>k. exec_err (fst (sys_exec h (command_argv h c cmd) (Stdin c) k)) = None" and "cmd \<noteq> []"
  shows "returns (Run h c cmd)"
  unfolding returns_def
proof
  fix w :: "('a, 'b) world"
  obtain r k where e: "sys_exec h (command_argv h c cmd) (Stdin c) (kern w) = (r, k)" by fastforce
  with assms(1) [of "kern w"] have none: "exec_err r = None" by simp
  obtain a w1 where l: "log_outcome c (hd cmd) (command_argv h c cmd) r (w\<lparr>kern := k\<rparr>) = (Inr a, w1)"
  proof (rule returnsE)
    show "returns (log_outcome c (hd cmd) (command_argv h c cmd) r)"
      using none unfolding log_outcome_def Let_def by (auto intro!: returns_intros)
  qed
  from assms(2) e l show "\<exists>x w'. Run h c cmd w = (Inr x, w')"
    by (cases cmd) (simp_all add: Run_def Let_def bindM_def sysM_def)
qed

lemma returns_flag_ready [returns_intros]: "touch_works h \<Longrightarrow> returns (flag_ready h)"
  unfolding flag_ready_def touch_works_def
  by (intro returns_intros returns_Run_works) (simp_all add: Command0_def)

lemma frames_flag_ready [frames_intros]: "frames v (flag_ready h)"
  unfolding flag_ready_def
  by (intro frames_intros framesI [of "Run _ _ _"] keeps_intros)

lemma WriteDriveAudit_safe [returns_intros, frames_intros]:
  "returns (WriteDriveAudit h cfg ds)" "frames v (WriteDriveAudit h cfg ds)"
  unfolding WriteDriveAudit_def
  by (auto split: option.split intro!: returns_intros frames_intros)

lemma reassigned_ok:
  assumes "reassigned ds ds'" and "\<forall>d \<in> set ds. drive_ok rank n d" and "d' \<in> set ds'"
  shows "drive_ok rank n d'"
proof -
  have r: "list_all2 (\<lambda>d d'. \<exists>a. d' = d\<lparr>Assignment := a\<rparr>) ds ds'"
    using assms(1) by (simp add: reassigned_def)
  from assms(3) obtain i where i: "i < length ds'" "d' = ds' ! i"
    by (auto simp: in_set_conv_nth)
  with list_all2_lengthD [OF r] have "i < length ds" by simp
  with list_all2_nthD [OF r this] i obtain a where "d' = (ds ! i)\<lparr>Assignment := a\<rparr>" by blast
  moreover have "drive_ok rank n (ds ! i)" using assms(2) \<open>i < length ds\<close> by simp
  ultimately show ?thesis by (simp add: drive_ok_def)
qed

lemma list_all2_right: "list_all2 R xs ys \<Longrightarrow> (\<And>x y. R x y \<Longrightarrow> P y) \<Longrightarrow> \<forall>y \<in> set ys. P y"
  by (induction rule: list_all2_induct) auto

context os_contract
begin

lemma get_in_frame [frames_intros]: "frames v (GetMountPointsIn osi p sc)"
  unfolding frames_def using get_in [of p sc] by (metis snd_conv)

lemma get_in_returns [returns_intros]: "returns (GetMountPointsIn osi p sc)"
  unfolding returns_def using get_in [of p sc] by metis

lemma CheckForUnexpectedMounts_safe [returns_intros, frames_intros]:
  "returns (CheckForUnexpectedMounts osi ds)" "frames v (CheckForUnexpectedMounts osi ds)"
  unfolding CheckForUnexpectedMounts_def by (intro returns_intros) (intro frames_intros)

lemma converge_assigned_safe:
  assumes d: "drive_ok rank (stack_limit h) d" and o: "opens_below osi rank"
  shows "safe (sane rank) (converge_assigned h osi cfg d) (drive_ok rank (stack_limit h))"
proof -
  have c: "safe (sane rank) (whenM b (Chown osi (MountPath e) u g)) (\<lambda>_. True)" for b e u g
    by (rule safe_frames) (auto intro!: returns_intros frames_intros simp: MountPath_not_Nil)
  show ?thesis
    unfolding converge_assigned_def
    by (rule safe_if) (simp add: safe_ret d,
        rule safe_bindM [OF Drive_Converge_safe [OF d o]], rule safe_thenM [OF c], simp add: safe_ret)
qed

lemma Converge_safe:
  assumes d: "\<forall>d \<in> set ds. drive_ok rank (stack_limit h) d" and o: "opens_below osi rank"
    and t: "touch_works h"
  shows "safe (sane rank) (Converge h osi cfg ds) (\<lambda>ds'. \<forall>d \<in> set ds'. drive_ok rank (stack_limit h) d)"
proof -
  let ?ok = "drive_ok rank (stack_limit h)"
  have 1: "safe (sane rank) (mapM (Drive_Converge h osi) ds) (\<lambda>ds'. \<forall>d \<in> set ds'. ?ok d)"
    by (rule safe_conseq [OF safe_mapM [OF Drive_Converge_safe [OF bspec [OF d] o]]])
       (assumption, erule list_all2_right, simp)
  have 2: "safe (sane rank) (UpdateDriveAssignments es (SwiftIDPool cfg) osi) (\<lambda>ds'. \<forall>d \<in> set ds'. ?ok d)"
    if "\<forall>d \<in> set es. ?ok d" for es
    by (rule safe_conseq [OF Update_safe]) (use reassigned_ok [OF _ that] in blast)
  have 3: "safe (sane rank) (mapM (converge_assigned h osi cfg) es) (\<lambda>ds'. \<forall>d \<in> set ds'. ?ok d)"
    if "\<forall>d \<in> set es. ?ok d" for es
    by (rule safe_conseq [OF safe_mapM [OF converge_assigned_safe [OF bspec [OF that] o]]])
       (assumption, erule list_all2_right, simp)
  have 4: "safe (sane rank) (CheckForUnexpectedMounts osi es) (\<lambda>_. True)"
    "safe (sane rank) (WriteDriveAudit h cfg es) (\<lambda>_. True)" "safe (sane rank) (flag_ready h) (\<lambda>_. True)" for es
    by (rule safe_frames; intro returns_intros frames_intros t)+
  show ?thesis
    unfolding Converge_def
    by (rule safe_bindM [OF 1], rule safe_bindM [OF 2], assumption, rule safe_bindM [OF 3], assumption,
        intro safe_thenM 4 safe_ret)
qed
end

section \<open>The event loop does not end the process\<close>

text \<open>No device is unreadable; and reading the mounts and mappings again works and finds no cycle of
  mappings, whatever was in the tables before.\<close>

definition readable :: "('k, 's) world os_interface \<Rightarrow> bool" where
  "readable osi \<longleftrightarrow> (\<forall>p w w'. ClassifyDevice osi p w \<noteq> (Inr DeviceTypeUnreadable, w'))"

definition refreshes ::
    "('s \<Rightarrow> bool) \<Rightarrow> ('s \<Rightarrow> string \<Rightarrow> string) \<Rightarrow> (string \<Rightarrow> nat) \<Rightarrow> ('k, 's) world os_interface \<Rightarrow> bool"
where
  "refreshes ready luks rank osi \<longleftrightarrow>
     (\<forall>w. \<exists>w'. thenM (RefreshMountPoints osi) (RefreshLUKSMappings osi) w = (Inr (), w') \<and>
              sane_tables ready luks rank w')"

text \<open>The mappings in the table lead to devices of lower rank.\<close>

definition nested :: "('s \<Rightarrow> string \<Rightarrow> string) \<Rightarrow> (string \<Rightarrow> nat) \<Rightarrow> ('k, 's) world \<Rightarrow> bool" where
  "nested luks rank w \<longleftrightarrow> (\<forall>p. luks (osst w) p \<noteq> [] \<longrightarrow> rank (luks (osst w) p) < rank p)"

lemma thenM_Inr: "m w = (Inr x, w') \<Longrightarrow> thenM m n w = n w'"
  by (simp add: thenM_def bindM_def)

lemma thenM_assoc: "thenM (thenM a b) c = thenM a (thenM b c)"
  by (simp add: thenM_def bindM_assoc)

lemma newDevice_readable:
  "readable osi \<Longrightarrow> newDevice osi p b w = (Inr od, w') \<Longrightarrow> od \<noteq> None"
  by (auto simp: newDevice_def readable_def elim!: bindM_InrE split: DeviceType.splits if_splits)

lemma NewDrive_readable:
  assumes "readable osi" and n: "NewDrive h osi p serial keys w = (Inr d, w')"
  shows "Device d \<noteq> None"
proof -
  from n obtain od w1 d0 w2 where o: "newDevice osi p (length keys > 0) w = (Inr od, w1)"
    and e: "ensure_drive_id h \<lparr>DevicePath = p, Device = od, Broken = False, DriveID = serial,
               Assignment = None, Keys = keys\<rparr> w1 = (Inr d0, w2)"
    and f: "(let d = d0\<lparr>Broken := od = None\<rparr> in
       foldM [TransientBrokenFlagPath d, DurableBrokenFlagPath d] (check_broken_flag h) d) w2 = (Inr d, w')"
    unfolding NewDrive_def by (elim bindM_InrE) blast
  from f have "Device d = Device d0"
    unfolding Let_def by (auto elim!: bindM_InrE dest!: check_broken_flag_same)
  with ensure_drive_id_value [OF e] newDevice_readable [OF assms(1) o] show ?thesis by simp
qed

lemma safe_update_firstM:
  assumes "\<And>x. x \<in> set xs \<Longrightarrow> safe I (f x) P" and "\<forall>x \<in> set xs. P x"
  shows "safe I (update_firstM Q f xs) (\<lambda>ys. \<forall>y \<in> set ys. P y)"
  using assms
proof (induction xs)
  case (Cons x xs)
  have f: "safe I (f x) P" and r: "safe I (update_firstM Q f xs) (\<lambda>ys. \<forall>y \<in> set ys. P y)"
    using Cons by simp_all
  show ?case
    unfolding update_firstM.simps
    by (rule safe_if; rule safe_bindM [OF f] safe_bindM [OF r]) (use Cons.prems in \<open>auto intro!: safe_ret\<close>)
qed (simp add: safe_ret)

context os_contract
begin

lemma NewDrive_Converge_safe:
  assumes "\<And>p. rank p < stack_limit h" and "readable osi" and "opens_below osi rank"
  shows "safe (sane rank) (bindM (NewDrive h osi p serial keys) (Drive_Converge h osi))
    (drive_ok rank (stack_limit h))"
proof (rule safe_bindM)
  show "safe (sane rank) (NewDrive h osi p serial keys) (drive_ok rank (stack_limit h))"
  proof (rule safe_val [OF safe_conseq [OF NewDrive_safe [OF assms(1)]]])
    fix w d w' assume n: "NewDrive h osi p serial keys w = (Inr d, w')"
    obtain dev where dev: "Device d = Some dev" using NewDrive_readable [OF assms(2) n] by blast
    with NewDrive_value [OF n] innermost_ranked have "ranked rank dev" by metis
    with dev assms(1) show "drive_ok rank (stack_limit h) d" by (simp add: drive_ok_def)
  qed simp
  fix d assume "drive_ok rank (stack_limit h) d"
  from safe_conseq [OF Drive_Converge_safe [OF this assms(3)]]
  show "safe (sane rank) (Drive_Converge h osi d) (drive_ok rank (stack_limit h))" by blast
qed

lemma Handle_safe:
  assumes k: "\<And>p. rank p < stack_limit h" and r: "readable osi" and o: "opens_below osi rank"
    and d: "\<forall>d \<in> set ds. drive_ok rank (stack_limit h) d"
  shows "safe (sane rank) (Handle h osi cfg e ds) (\<lambda>ds'. \<forall>d \<in> set ds'. drive_ok rank (stack_limit h) d)"
proof (cases e)
  case (DriveAddedEvent p f s)
  have "safe (sane rank) (bindM (bindM (NewDrive h osi p s (Secrets cfg)) (Drive_Converge h osi)) (\<lambda>d. ret (ds @ [d])))
    (\<lambda>ds'. \<forall>d \<in> set ds'. drive_ok rank (stack_limit h) d)"
    by (rule safe_bindM [OF NewDrive_Converge_safe [OF k r o]]) (use d in \<open>auto intro!: safe_ret\<close>)
  with DriveAddedEvent show ?thesis by (simp add: bindM_assoc)
next
  case (DriveRemovedEvent p)
  show ?thesis
  proof (cases "rev (filter (\<lambda>d. DevicePath d = p) ds)")
    case Nil
    with DriveRemovedEvent d show ?thesis by (simp add: safe_ret)
  next
    case (Cons x xs)
    then have "x \<in> set (rev (filter (\<lambda>d. DevicePath d = p) ds))" by simp
    with d have "drive_ok rank (stack_limit h) x" by simp
    with Cons DriveRemovedEvent d show ?thesis
      by (auto intro!: safe_thenM [OF Drive_Teardown_safe] safe_ret)
  qed
next
  case (DriveReinstatedEvent p)
  have "safe (sane rank) (update_firstM (\<lambda>d. DevicePath d = p)
       (\<lambda>d. bindM (NewDrive h osi (DevicePath d) (DriveID d) (Keys d)) (Drive_Converge h osi)) ds)
       (\<lambda>ds'. \<forall>d \<in> set ds'. drive_ok rank (stack_limit h) d)"
    by (rule safe_update_firstM [OF NewDrive_Converge_safe [OF k r o] d])
  with DriveReinstatedEvent show ?thesis by simp
next
  case (DriveErrorEvent p l)
  have "safe (sane rank) (update_firstM (\<lambda>d. DevicePath d = p) (MarkAsBroken h) ds)
       (\<lambda>ds'. \<forall>d \<in> set ds'. drive_ok rank (stack_limit h) d)"
    by (rule safe_update_firstM [OF safe_conseq [OF MarkAsBroken_safe [OF bspec [OF d]]] d]) simp_all
  with DriveErrorEvent show ?thesis by simp
qed (simp add: safe_ret d)

lemma converger_iteration_safe:
  assumes k: "\<And>p. rank p < stack_limit h" and r: "readable osi" and o: "opens_below osi rank"
    and t: "touch_works h" and f: "refreshes ready luks rank osi"
    and d: "\<forall>d \<in> set (Drives c). drive_ok rank (stack_limit h) d"
  shows "safe (\<lambda>_. True) (converger_iteration h osi cfg es c)
    (\<lambda>c'. \<forall>d \<in> set (Drives c'). drive_ok rank (stack_limit h) d)"
proof (rule safeI)
  let ?ok = "\<lambda>c. \<forall>d \<in> set (Drives c). drive_ok rank (stack_limit h) d"
  have e: "safe (sane rank) (handle_event h osi cfg e c) ?ok" if "?ok c" for e c
  proof -
    have l: "safe (sane rank) (whenM b (log_info m)) (\<lambda>_. True)" for b m
      by (rule safe_frames) (intro returns_intros frames_intros)+
    show ?thesis
      unfolding handle_event_def Let_def
      by (rule safe_thenM [OF l], rule safe_bindM [OF Handle_safe [OF k r o that]]) (simp add: safe_ret)
  qed
  have es: "safe (sane rank) (foldM es (handle_event h osi cfg) c) ?ok"
    by (rule safe_foldM [OF e d])
  have c: "safe (sane rank) (bindM (Converge h osi cfg (Drives c)) (\<lambda>drives. ret (c\<lparr>Drives := drives\<rparr>))) ?ok"
    if "?ok c" for c
    by (rule safe_bindM [OF Converge_safe [OF that o t]]) (simp add: safe_ret)
  fix w :: "('k, 's) world"
  from f obtain w1 where w1: "thenM (RefreshMountPoints osi) (RefreshLUKSMappings osi) w = (Inr (), w1)" "sane rank w1"
    unfolding refreshes_def by blast
  have "converger_iteration h osi cfg es c w = bindM (foldM es (handle_event h osi cfg) c) (\<lambda>c.
      bindM (Converge h osi cfg (Drives c)) (\<lambda>drives. ret (c\<lparr>Drives := drives\<rparr>))) w1"
    unfolding converger_iteration_def thenM_assoc [symmetric]
    by (rule thenM_Inr) (rule w1(1))
  moreover obtain x w' where "bindM (foldM es (handle_event h osi cfg) c) (\<lambda>c.
      bindM (Converge h osi cfg (Drives c)) (\<lambda>drives. ret (c\<lparr>Drives := drives\<rparr>))) w1 = (Inr x, w')"
    "sane rank w'" "?ok x"
    by (rule safeE [OF safe_bindM [OF es c] w1(2)])
  ultimately show "\<exists>x w'. converger_iteration h osi cfg es c w = (Inr x, w') \<and> True \<and> ?ok x"
    by (intro exI [of _ x] exI [of _ w']) simp
qed

lemma RunConverger_safe:
  assumes "\<And>p. rank p < stack_limit h" and "readable osi" and "opens_below osi rank"
    and "touch_works h" and "refreshes ready luks rank osi"
  shows "safe (\<lambda>_. True) (RunConverger h osi cfg queue)
    (\<lambda>c. \<forall>d \<in> set (Drives c). drive_ok rank (stack_limit h) d)"
  unfolding RunConverger_def
  by (rule safe_foldM [OF converger_iteration_safe [OF assms]]) simp_all

end

section \<open>The drive audit\<close>

lemma audit_fold:
  "map_of (foldl (\<lambda>data d. AList.update (MountPath d) (if Broken d then 1 else 0 :: nat) data) acc ds) p =
   (case find (\<lambda>d. MountPath d = p) (rev ds) of
      None \<Rightarrow> map_of acc p | Some d \<Rightarrow> Some (if Broken d then 1 else 0))"
proof (induction ds arbitrary: acc)
  case (Cons d ds)
  have "find P (xs @ [d]) = (case find P xs of None \<Rightarrow> if P d then Some d else None | Some x \<Rightarrow> Some x)"
    for P and xs :: "drive list"
    by (induction xs) auto
  with Cons show ?case by (auto simp: update_conv' split: option.splits)
qed simp

lemma audit_fold_distinct:
  "distinct (map fst acc) \<Longrightarrow>
   distinct (map fst (foldl (\<lambda>data d. AList.update (MountPath d) (if Broken d then 1 else 0 :: nat) data) acc ds))"
  by (induction ds arbitrary: acc) (auto simp: distinct_update)

section \<open>Properties\<close>

abbreviation test_osi :: "(trace, unit) world os_interface" where
  "test_osi \<equiv> sample_osi (\<lambda>p. if p = ''/dev/sdx'' then DeviceTypeUnreadable else DeviceTypeFilesystem)
     (\<lambda>_. Inr [])"

definition test_config :: Configuration where
  "test_config = \<lparr>ChrootPath = ''/coreos'', DriveGlobs = [''/dev/sd*''], OwnerUser = ''swift'',
     OwnerGroup = [], Secrets = [], SwiftIDPool = [], MetricsListenAddress = []\<rparr>"

text \<open>C14: A drive that cannot be read ends the process. When a new drive classifies as
  unreadable, \<open>NewDrive\<close> creates it without a device and flags it as broken, and the
  \<open>Converge\<close> that follows calls a method of the nil device.\<close>

theorem unreadable_drive_panics:
  assumes "ClassifyDevice osi p w = (Inr DeviceTypeUnreadable, w1)"
  shows "\<exists>w'. Handle h osi cfg (DriveAddedEvent p f s) ds w =
     (Inl (Panic ''invalid memory address or nil pointer dereference''), w')"
proof -
  have n: "newDevice osi p (length (Secrets cfg) > 0) w = (Inr None, w1)"
    using assms by (simp add: newDevice_def bindM_def)
  have "returns (bindM (ensure_drive_id h \<lparr>DevicePath = p, Device = None, Broken = False, DriveID = s,
               Assignment = None, Keys = Secrets cfg\<rparr>) (\<lambda>d.
     let d = d\<lparr>Broken := True\<rparr>
     in foldM [TransientBrokenFlagPath d, DurableBrokenFlagPath d] (check_broken_flag h) d))"
    unfolding ensure_drive_id_def Let_def by (intro returns_intros)
  then obtain d w2 where nd: "NewDrive h osi p s (Secrets cfg) w = (Inr d, w2)"
  proof (rule returnsE)
    fix x w' assume "bindM (ensure_drive_id h \<lparr>DevicePath = p, Device = None, Broken = False, DriveID = s,
               Assignment = None, Keys = Secrets cfg\<rparr>) (\<lambda>d.
     let d = d\<lparr>Broken := True\<rparr>
     in foldM [TransientBrokenFlagPath d, DurableBrokenFlagPath d] (check_broken_flag h) d) w1 = (Inr x, w')"
    then have "NewDrive h osi p s (Secrets cfg) w = (Inr x, w')"
      unfolding NewDrive_def bindM_Inr [where m = "newDevice _ _ _", OF n] by simp
    then show thesis by (rule that)
  qed
  have "Device d = None"
    using nd unfolding NewDrive_def bindM_Inr [where m = "newDevice _ _ _", OF n] Let_def
    by (auto elim!: bindM_InrE dest!: ensure_drive_id_value check_broken_flag_same)
  with nd have "Drive_Converge h osi d w2 =
      (Inl (Panic ''invalid memory address or nil pointer dereference''), w2)"
    using NewDrive_value [OF nd] by (simp add: Drive_Converge_def teardown_device_def)
  with nd show ?thesis by (auto simp: bindM_def)
qed

theorem unreadable_drive_panics_witness:
  "\<exists>w'. Handle quiet_host test_osi test_config (DriveAddedEvent ''/dev/sdx'' [] ''X'') [] sample_world =
     (Inl (Panic ''invalid memory address or nil pointer dereference''), w')"
  by (rule unreadable_drive_panics) (simp add: sample_osi_def)

text \<open>A kernel error flags one drive and nothing else. Handling the event flags the first
  drive with the reported device path as broken and drops its assignment; all other drives
  stay as they are, and without such a drive nothing happens.\<close>

theorem error_event_flags_one_drive:
  assumes "Handle h osi cfg (DriveErrorEvent p l) ds w = (Inr ds', w')"
  shows "if p \<in> set (map DevicePath ds) then
     \<exists>as d bs. ds = as @ d # bs \<and> DevicePath d = p \<and> p \<notin> set (map DevicePath as) \<and>
       ds' = as @ d\<lparr>Broken := True, Assignment := None\<rparr> # bs
   else ds' = ds \<and> w' = w"
  using update_firstM_value [OF assms [unfolded Handle.simps Handle_defs]]
proof (elim disjE exE conjE)
  fix as d bs y
  assume *: "ds = as @ d # bs" "\<forall>a \<in> set as. DevicePath a \<noteq> p" "DevicePath d = p"
    "MarkAsBroken h d w = (Inr y, w')" "ds' = as @ y # bs"
  from MarkAsBroken_value [OF *(4)] have y: "y = d\<lparr>Broken := True, Assignment := None\<rparr>" by simp
  from * have "p \<in> set (map DevicePath ds)" by simp
  moreover have "p \<notin> set (map DevicePath as)" using *(2) by auto
  ultimately show ?thesis using * y by auto
qed auto

theorem error_event_flags_one_drive_witness:
  "\<exists>w'. Handle quiet_host test_osi test_config (DriveErrorEvent ''/dev/sdb'' ''I/O error'')
     [xfs_drive ''/dev/sda'' ''/mnt/a'', xfs_drive ''/dev/sdb'' ''/mnt/b''] sample_world =
   (Inr [xfs_drive ''/dev/sda'' ''/mnt/a'',
         (xfs_drive ''/dev/sdb'' ''/mnt/b'')\<lparr>Broken := True, Assignment := None\<rparr>], w')"
proof -
  let ?ds = "[xfs_drive ''/dev/sda'' ''/mnt/a'', xfs_drive ''/dev/sdb'' ''/mnt/b'']"
  have "case Handle quiet_host test_osi test_config (DriveErrorEvent ''/dev/sdb'' ''I/O error'') ?ds sample_world of
      (Inr _, _) \<Rightarrow> True | _ \<Rightarrow> False"
    by code_simp
  then obtain ds' w' where r: "Handle quiet_host test_osi test_config
      (DriveErrorEvent ''/dev/sdb'' ''I/O error'') ?ds sample_world = (Inr ds', w')"
    by (auto split: prod.splits sum.splits)
  from error_event_flags_one_drive [OF r] have
    "ds' = [xfs_drive ''/dev/sda'' ''/mnt/a'',
         (xfs_drive ''/dev/sdb'' ''/mnt/b'')\<lparr>Broken := True, Assignment := None\<rparr>]"
    by (auto simp: xfs_drive_def Cons_eq_append_conv)
  with r show ?thesis by blast
qed

text \<open>C15: A reinstated drive is replaced by a new one. Handling the event replaces the first drive with
  the device path by exactly what \<open>NewDrive\<close>, called with the path, identity and keys of that drive,
  and one \<open>Converge\<close> after it make in the same world: its contents are classified again, its
  broken flags are looked up again, and it has no assignment, so that its swift-id is read again. Nothing
  else of the old drive (its device, its broken flag, its assignment) has any influence: the handler
  does the same for every drive with the same path, identity and keys. All other drives
  stay as they are.\<close>

theorem reinstated_drive_starts_afresh:
  assumes "Handle h osi cfg (DriveReinstatedEvent p) (as @ d # bs) w = (Inr ds', w')"
    and "DevicePath d = p" and "p \<notin> set (map DevicePath as)" and "DriveID d \<noteq> []"
  shows "\<exists>d0 w0 d'. NewDrive h osi p (DriveID d) (Keys d) w = (Inr d0, w0) \<and>
      Drive_Converge h osi d0 w0 = (Inr d', w') \<and> ds' = as @ d' # bs \<and> same_drive d d' \<and> Assignment d' = None \<and>
      (\<forall>x. same_drive d x \<longrightarrow> Handle h osi cfg (DriveReinstatedEvent p) (as @ x # bs) w = (Inr (as @ d' # bs), w'))"
proof -
  let ?f = "\<lambda>d. bindM (NewDrive h osi (DevicePath d) (DriveID d) (Keys d)) (Drive_Converge h osi)"
  have step: "update_firstM (\<lambda>d. DevicePath d = p) ?f (as @ x # bs) w =
      bindM (?f x) (\<lambda>y. ret (as @ y # bs)) w" if "DevicePath x = p" for x
    using that assms(3) by (induction as) (auto simp: bindM_def split: prod.splits sum.splits)
  with assms(1,2) obtain d' where d': "?f d w = (Inr d', w')" "ds' = as @ d' # bs"
    by (auto elim!: bindM_InrE simp: bindM_Inr)
  have "Handle h osi cfg (DriveReinstatedEvent p) (as @ x # bs) w = (Inr (as @ d' # bs), w')" if "same_drive d x" for x
  proof -
    have "DevicePath x = p" "?f x = ?f d" using that assms(2) by (simp_all add: same_drive_def)
    with step [of x] d'(1) show ?thesis by (simp add: bindM_Inr)
  qed
  moreover from d'(1) obtain d0 w0 where "NewDrive h osi p (DriveID d) (Keys d) w = (Inr d0, w0)"
    "Drive_Converge h osi d0 w0 = (Inr d', w')"
    unfolding assms(2) by (rule bindM_InrE)
  moreover have "same_drive d d' \<and> Assignment d' = None"
    using NewDrive_Converge_value [OF d'(1)] assms(4) by (simp add: same_drive_def)
  ultimately show ?thesis using d'(2) by blast
qed

theorem reinstated_drive_starts_afresh_witness:
  "\<exists>d' w'. Handle quiet_host test_osi test_config (DriveReinstatedEvent ''/dev/sda'')
     ([] @ (xfs_drive ''/dev/sda'' ''/mnt/a'')\<lparr>Broken := True\<rparr> # []) sample_world = (Inr [d'], w') \<and>
   Handle quiet_host test_osi test_config (DriveReinstatedEvent ''/dev/sda'')
     ([] @ xfs_drive ''/dev/sda'' ''/mnt/b'' # []) sample_world = (Inr [d'], w') \<and> \<not> Broken d'"
proof -
  let ?d = "(xfs_drive ''/dev/sda'' ''/mnt/a'')\<lparr>Broken := True\<rparr>"
  have "case Handle quiet_host test_osi test_config (DriveReinstatedEvent ''/dev/sda'') ([] @ ?d # []) sample_world of
      (Inr ds, _) \<Rightarrow> \<not> list_ex Broken ds | _ \<Rightarrow> False"
    by code_simp
  then obtain ds' w' where r: "Handle quiet_host test_osi test_config
      (DriveReinstatedEvent ''/dev/sda'') ([] @ ?d # []) sample_world = (Inr ds', w')" "\<not> list_ex Broken ds'"
    by (auto split: prod.splits sum.splits)
  have "file_part ''/dev/sda'' \<noteq> []" by code_simp
  then obtain d' where d': "ds' = [d']" "\<forall>x. same_drive ?d x \<longrightarrow> Handle quiet_host test_osi test_config
      (DriveReinstatedEvent ''/dev/sda'') ([] @ x # []) sample_world = (Inr [d'], w')"
    using reinstated_drive_starts_afresh [OF r(1)] by (auto simp: xfs_drive_def)
  have "same_drive ?d (xfs_drive ''/dev/sda'' ''/mnt/b'')" by (simp add: same_drive_def xfs_drive_def)
  with d' r show ?thesis by (intro exI [of _ d'] exI [of _ w']) simp
qed

text \<open>C17: The audit file reports every drive. The map that \<open>WriteDriveAudit\<close> writes has no key
  twice; under "drive_audit_errors" it has the number of broken drives, and under any other
  key whether the last drive with that mount path is broken, and nothing when there is none.\<close>

theorem audit_reports_drives:
  "distinct (map fst (audit_data ds)) \<and>
   (\<forall>p. map_of (audit_data ds) p =
      (if p = ''drive_audit_errors'' then Some (length (filter Broken ds))
       else map_option (\<lambda>d. if Broken d then 1 else 0) (find (\<lambda>d. MountPath d = p) (rev ds))))"
proof -
  have "distinct (map fst (audit_data ds))"
    unfolding audit_data_def by (rule distinct_update) (rule audit_fold_distinct, simp)
  moreover have "map_of (audit_data ds) p =
      (if p = ''drive_audit_errors'' then Some (length (filter Broken ds))
       else map_option (\<lambda>d. if Broken d then 1 else 0) (find (\<lambda>d. MountPath d = p) (rev ds)))" for p
  proof (cases "p = ''drive_audit_errors''")
    case True
    then show ?thesis by (simp add: audit_data_def audit_errors_def update_conv')
  next
    case False
    then show ?thesis
      unfolding audit_data_def update_conv'
      using audit_fold [where acc = "[]" and ds = ds and p = p]
      by (cases "find (\<lambda>d. MountPath d = p) (rev ds)") simp_all
  qed
  ultimately show ?thesis by blast
qed

end
