(* ===== verification/Core_Isolation.thy ===== *)
theory Core_Isolation
  imports Converger
begin

text \<open>
  Drives do not disturb each other. When every device and every mount path is allotted to one
  drive, the methods of a drive change the mounts of this drive's devices only, whatever they
  achieve; so a pass over all drives leaves every drive that is not broken at its end mounted at
  its place, whatever happened to the others. The lemmas are proved from the contract of
  \<open>os.Interface\<close>.
\<close>

section \<open>Devices and mount paths that are allotted to drives\<close>

text \<open>Which drive a device belongs to, and which one may be mounted at a path; drives are named
  by their device paths.\<close>

record allotment =
  belongs :: "string \<Rightarrow> string"
  owner :: "string \<Rightarrow> string"

text \<open>Every device in a table belongs to the drive that owns the path where it is mounted.\<close>

definition allotted :: "allotment \<Rightarrow> (MountScope \<Rightarrow> MountPoint list) \<Rightarrow> bool" where
  "allotted A tab \<longleftrightarrow>
     (\<forall>sc. \<forall>m \<in> set (tab sc). owner A (mp_MountPath m) = belongs A (mp_DevicePath m))"

text \<open>\<open>p\<close> is a device of \<open>D\<close>; \<open>D\<close> owns the path \<open>x\<close>; or there is no path.\<close>

definition part :: "allotment \<Rightarrow> string \<Rightarrow> string \<Rightarrow> bool" where
  "part A D p \<longleftrightarrow> belongs A p = D"

definition owns :: "allotment \<Rightarrow> string \<Rightarrow> string \<Rightarrow> bool" where
  "owns A D x \<longleftrightarrow> owner A x = D"

definition owns_any :: "allotment \<Rightarrow> string \<Rightarrow> string \<Rightarrow> bool" where
  "owns_any A D x \<longleftrightarrow> x = [] \<or> owns A D x"

lemma owns_any_simps [simp]: "owns_any A D []" "owns A D x \<Longrightarrow> owns_any A D x"
  by (simp_all add: owns_any_def)

text \<open>All the devices of a drive's device belong to the drive, and it owns the path where it was
  last mounted.\<close>

fun within :: "allotment \<Rightarrow> string \<Rightarrow> device \<Rightarrow> bool" where
  "within A D (XFSDevice p f m) \<longleftrightarrow> part A D p \<and> owns_any A D m"
| "within A D (LUKSDevice p f None n) \<longleftrightarrow> part A D p"
| "within A D (LUKSDevice p f (Some d) n) \<longleftrightarrow> part A D p \<and> within A D d"

definition within_opt :: "allotment \<Rightarrow> string \<Rightarrow> device option \<Rightarrow> bool" where
  "within_opt A D od = (case od of None \<Rightarrow> True | Some d \<Rightarrow> within A D d)"

lemma within_LUKS [simp]:
  "within A D (LUKSDevice p f od n) \<longleftrightarrow> part A D p \<and> within_opt A D od"
  by (cases od) (auto simp: within_opt_def)

lemma within_opt_simps [simp]:
  "within_opt A D None"
  "within_opt A D (Some d) \<longleftrightarrow> within A D d"
  by (auto simp: within_opt_def)

declare within.simps(2,3) [simp del]

text \<open>The invariant while the drive \<open>D\<close> is worked on: the tables are usable, mounts and open
  containers stay within the drives, and the devices of all other drives are mounted as \<open>T\<close> says.\<close>

definition isolating ::
    "('s \<Rightarrow> MountScope \<Rightarrow> MountPoint list) \<Rightarrow> ('s \<Rightarrow> bool) \<Rightarrow> ('s \<Rightarrow> string \<Rightarrow> string) \<Rightarrow>
     allotment \<Rightarrow> string \<Rightarrow> (string \<Rightarrow> MountScope \<Rightarrow> MountPoint list) \<Rightarrow>
     ('k, 's) world \<Rightarrow> bool" where
  "isolating mounts ready luks A D T w \<longleftrightarrow>
     ready (osst w) \<and> allotted A (mounts (osst w)) \<and>
     (\<forall>p. luks (osst w) p \<noteq> [] \<longrightarrow> belongs A (luks (osst w) p) = belongs A p) \<and>
     (\<forall>q sc. belongs A q \<noteq> D \<longrightarrow> mounts_of q (mounts (osst w) sc) = T q sc)"

text \<open>Opening a container of \<open>D\<close> under the name \<open>name\<close> with the keys \<open>ks\<close> yields a device of \<open>D\<close>.\<close>

definition opens_within ::
    "('k, 's) world os_interface \<Rightarrow> allotment \<Rightarrow> string \<Rightarrow> string \<Rightarrow> string list \<Rightarrow> bool" where
  "opens_within osi A D name ks \<longleftrightarrow>
     (\<forall>p w q w'. part A D p \<longrightarrow> OpenLUKSContainer osi p name ks w = (Inr (q, True), w') \<longrightarrow> part A D q)"

lemma mounts_of_unmounted_at:
  assumes "unmounted_at x ms ms'" and "\<forall>m \<in> set ms. mp_MountPath m = x \<longrightarrow> mp_DevicePath m \<noteq> q"
  shows "mounts_of q ms' = mounts_of q ms"
proof (cases "\<exists>m \<in> set ms. mp_MountPath m = x")
  case True
  with assms(1) obtain xs m ys where "ms = xs @ m # ys" "ms' = xs @ ys" "mp_MountPath m = x"
    by (auto simp: unmounted_at_def)
  with assms(2) show ?thesis by (simp add: mounts_of_def)
next
  case False
  with assms(1) show ?thesis by (simp add: unmounted_at_def)
qed

section \<open>The operations of the layer\<close>

context os_contract
begin

abbreviation apart ::
    "allotment \<Rightarrow> string \<Rightarrow> (string \<Rightarrow> MountScope \<Rightarrow> MountPoint list) \<Rightarrow>
     ('k, 's) world \<Rightarrow> bool" where
  "apart \<equiv> isolating mounts ready luks"

lemma yields_frames:
  assumes "frames tables m" and "frames luks m"
  shows "yields (apart A D T) m (\<lambda>_. True)"
proof (rule yieldsI)
  fix w x w' assume "apart A D T w" and m: "m w = (Inr x, w')"
  with framesD [OF assms(1) m] framesD [OF assms(2) m] show "apart A D T w' \<and> True"
    by (simp add: isolating_def)
qed

lemma yields_unmount:
  assumes "owns A D x"
  shows "yields (apart A D T) (UnmountDevice osi x sc) (\<lambda>_. True)"
proof (rule yieldsI)
  fix w ok w' assume i: "apart A D T w" and u: "UnmountDevice osi x sc w = (Inr ok, w')"
  from i have r: "ready (osst w)" and resp: "allotted A (mounts (osst w))"
    and T: "\<And>q sc. belongs A q \<noteq> D \<Longrightarrow> mounts_of q (mounts (osst w) sc) = T q sc"
    by (simp_all add: isolating_def)
  have "mounts_of q (mounts (osst w') sc') = T q sc'" if q: "belongs A q \<noteq> D" for q sc'
  proof -
    have "\<forall>m \<in> set (mounts (osst w) sc'). mp_MountPath m = x \<longrightarrow> mp_DevicePath m \<noteq> q"
      using resp assms q by (auto simp: allotted_def owns_def part_def)
    with unmount_table [OF u r, of sc'] T [OF q] show ?thesis
      by (auto dest: mounts_of_unmounted_at)
  qed
  moreover have "allotted A (mounts (osst w'))"
    using resp unmount_shrinks [OF u r] by (auto simp: allotted_def)
  ultimately show "apart A D T w' \<and> True"
    using i unmount_ready [OF u r] framesD [OF unmount_luks u] by (simp add: isolating_def)
qed

lemma yields_mount:
  assumes "owns A D x" and "part A D p"
  shows "yields (apart A D T) (MountDevice osi p x sc) (\<lambda>_. True)"
proof (rule yieldsI)
  fix w ok w' assume i: "apart A D T w" and u: "MountDevice osi p x sc w = (Inr ok, w')"
  from i have r: "ready (osst w)" and resp: "allotted A (mounts (osst w))"
    and T: "\<And>q sc. belongs A q \<noteq> D \<Longrightarrow> mounts_of q (mounts (osst w) sc) = T q sc"
    by (simp_all add: isolating_def)
  have "mounts_of q (mounts (osst w') sc') = T q sc'" if q: "belongs A q \<noteq> D" for q sc'
    using mount_table [OF u r, of sc'] T [OF q] q assms(2) by (auto simp: mounts_of_def part_def)
  moreover have "owner A (mp_MountPath m) = belongs A (mp_DevicePath m)" if "m \<in> set (mounts (osst w') sc')" for m sc'
    using mount_table [OF u r, of sc'] resp that assms by (auto simp: allotted_def owns_def part_def)
  ultimately show "apart A D T w' \<and> True"
    using i mount_ready [OF u r] framesD [OF mount_luks u] by (simp add: isolating_def allotted_def)
qed

lemma yields_mounts_of:
  assumes "part A D p"
  shows "yields (apart A D T) (GetMountPointsOf osi p sc) (\<lambda>ms. \<forall>m \<in> set ms. owns A D (mp_MountPath m))"
  by (rule yieldsI) (use assms in \<open>auto simp: get_of isolating_def allotted_def mounts_of_def owns_def part_def\<close>)

lemma yields_get_luks:
  "part A D p \<Longrightarrow>
   yields (apart A D T) (GetLUKSMappingOf osi p) (\<lambda>q. q \<noteq> [] \<longrightarrow> part A D q)"
  by (rule yieldsI) (auto simp: get_luks isolating_def part_def)

lemma yields_log: "yields (apart A D T) (logM l msg) (\<lambda>_. True)"
  by (rule yields_frames) (intro frames_intros)+

lemma yields_open:
  assumes "opens_within osi A D name ks" and "part A D p"
  shows "yields (apart A D T) (OpenLUKSContainer osi p name ks) (\<lambda>(q, ok). ok \<longrightarrow> part A D q)"
proof (rule yieldsI)
  fix w x w' assume i: "apart A D T w" and o: "OpenLUKSContainer osi p name ks w = (Inr x, w')"
  obtain q ok where x: "x = (q, ok)" by fastforce
  have "part A D q" if ok
    using assms o that unfolding opens_within_def x by simp blast
  with i framesD [OF open_frame o] open_luks [OF o [unfolded x]] assms(2) x
  show "apart A D T w' \<and> (case x of (q, ok) \<Rightarrow> ok \<longrightarrow> part A D q)"
    by (auto simp: isolating_def part_def)
qed

lemma yields_newDevice:
  assumes "part A D q"
  shows "yields (apart A D T) (newDevice osi q b) (within_opt A D)"
proof (rule yields_val)
  show "yields (apart A D T) (newDevice osi q b) (\<lambda>_. True)"
    by (rule yields_frames) (intro frames_intros)+
  fix w od w' assume "newDevice osi q b w = (Inr od, w')"
  with assms show "within_opt A D od"
    by (auto simp: newDevice_def elim!: bindM_InrE split: DeviceType.splits if_splits)
qed

section \<open>The methods of the devices\<close>

lemma yields_XFS_Validate:
  assumes "part A D p" and "owns_any A D mp"
  shows "yields (apart A D T) (XFS_Validate osi p mp) (\<lambda>r. owns_any A D (snd r))"
proof -
  let ?P = "owns_any A D"
  have loop: "yields (apart A D T) (XFS_Validate_mounts p sc ms mp) (\<lambda>r. ?P (snd r))"
    if "\<forall>m \<in> set ms. owns A D (mp_MountPath m)" and "?P mp" for sc ms mp
    using that
    by (induction p sc ms mp rule: XFS_Validate_mounts.induct)
       (auto intro!: yields_ret yields_Pair yields_thenM [OF yields_log])
  show ?thesis
    unfolding XFS_Validate_def
  proof (rule yields_ForeachMountScopeOrError [where P = ?P, OF _ assms(2)])
    fix sc mp assume mp: "?P mp"
    show "yields (apart A D T) (XFS_Validate_scope osi p sc mp) (\<lambda>r. ?P (snd r))"
      unfolding XFS_Validate_scope_def
      by (rule yields_bindM [OF yields_mounts_of [OF assms(1)]])
         (use mp in \<open>auto intro!: yields_ret yields_Pair loop\<close>)
  qed
qed

lemma yields_unmount_others:
  assumes "part A D p"
  shows "yields (apart A D T) (unmount_others osi p x sc) (\<lambda>_. True)"
  unfolding unmount_others_def
  by (rule yields_bindM [OF yields_mounts_of [OF assms]], rule yields_all_okM)
     (auto intro: yields_unmount yields_ret yields_Pair)

lemma yields_XFS_Setup:
  assumes "part A D p" and "owns_any A D mp" and "owns A D (MountPathAt drv [])"
  shows "yields (apart A D T) (XFS_Setup h osi drv p f mp) (\<lambda>r. within A D (snd r))"
proof -
  have place: "owns A D (MountPathAt drv mp)" if "owns_any A D mp" for mp
    using that assms(3) by (auto simp: MountPathAt_def Let_def owns_any_def)
  have fmt: "yields (apart A D T) (XFS_Format osi p f) (\<lambda>_. True)"
    by (rule yields_frames) (intro frames_intros)+
  have clear: "yields (apart A D T) (clear_unmount_propagation h x) (\<lambda>_. True)" for x
    by (rule yields_frames) (intro frames_intros)+
  have unmounts: "yields (apart A D T) (ForeachMountScope (unmount_others osi p x)) (\<lambda>_. True)" for x
    by (rule yields_ForeachMountScope [OF yields_unmount_others [OF assms(1)]])
  have mounts: "yields (apart A D T) (ForeachMountScope (MountDevice osi p x)) (\<lambda>_. True)"
    if "owns A D x" for x
    by (rule yields_ForeachMountScope [OF yields_mount [OF that assms(1)]])
  have r: "yields (apart A D T) (ret (b, XFSDevice p g y)) (\<lambda>r. within A D (snd r))"
    if "owns_any A D y" for b g y
    by (rule yields_ret) (use that assms(1) in simp)
  show ?thesis
    unfolding XFS_Setup_def Let_def
    by (rule yields_bindM [OF yields_XFS_Validate [OF assms(1,2)]])
       (auto split: option.split intro!: yields_thenM [OF yields_log r] yields_bindM [OF fmt] r
          yields_bindM [OF unmounts] yields_bindM [OF mounts] yields_thenM [OF clear r] place,
        (metis place owns_any_simps(2))+)
qed

lemma yields_XFS_Teardown:
  assumes "part A D p" and "owns_any A D mp"
  shows "yields (apart A D T) (XFS_Teardown h osi drv p f mp) (\<lambda>r. within A D (snd r))"
proof -
  have link: "yields (apart A D T) (propagate_unmount h drv x) (\<lambda>_. True)" for x
    unfolding propagate_unmount_def by (rule yields_frames) (intro frames_intros frames_run)+
  have "yields (apart A D T) (unmount_all h osi drv p sc) (\<lambda>_. True)" for sc
    unfolding unmount_all_def
    by (rule yields_bindM [OF yields_mounts_of [OF assms(1)]], rule yields_all_okM)
       (auto intro: yields_thenM [OF link yields_unmount])
  from yields_ForeachMountScope [OF this] show ?thesis
    unfolding XFS_Teardown_def
    by (rule yields_bindM) (rule yields_ret, use assms in simp)
qed

lemma yields_luks_discover:
  assumes "q \<noteq> [] \<longrightarrow> part A D q" and "within_opt A D od"
  shows "yields (apart A D T) (luks_discover osi p od q) (\<lambda>r. within_opt A D (snd r))"
  unfolding luks_discover_def using assms
  by (auto split: option.split intro!: yields_ret yields_Pair yields_thenM [OF yields_log]
      yields_bindM [OF yields_newDevice])

lemma yields_LUKS_Validate:
  assumes v: "\<And>m. within A D m \<Longrightarrow>
      yields (apart A D T) (v m) (\<lambda>r. within A D (snd r))"
    and "part A D p" and "within_opt A D od"
  shows "yields (apart A D T) (LUKS_Validate v osi p od) (\<lambda>r. within_opt A D (snd r))"
proof -
  let ?Q = "\<lambda>r :: string option \<times> device option. within_opt A D (snd r)"
  have nm: "yields (apart A D T) (luks_not_mounted osi p) (\<lambda>_. True)"
    by (rule yields_frames) (intro frames_intros)+
  have inner: "yields (apart A D T) (bindM (v m) (\<lambda>(err, m). ret (err, Some m))) ?Q"
    if "within A D m" for m
    by (rule yields_bindM [OF v [OF that]]) (auto intro!: yields_ret yields_Pair)
  have "yields (apart A D T) (case err of Some e \<Rightarrow> ret (Some e, od1) | None \<Rightarrow>
     bindM (luks_not_mounted osi p) (\<lambda>err.
     case err of Some e \<Rightarrow> ret (Some e, od1) | None \<Rightarrow>
     case od1 of
       None \<Rightarrow> ret (None, None)
     | Some m \<Rightarrow> bindM (v m) (\<lambda>(err, m). ret (err, Some m)))) ?Q"
    if "within_opt A D od1" for err :: "string option" and od1
    using that
    by (auto split: option.split intro!: yields_ret yields_Pair yields_bindM [OF nm] inner)
  then show ?thesis
    unfolding LUKS_Validate_def
    by (intro yields_bindM [OF yields_get_luks [OF assms(2)]] yields_bindM [OF yields_luks_discover [OF _ assms(3)]])
       auto
qed

lemma yields_Device_Validate:
  "within A D d \<Longrightarrow> yields (apart A D T) (Device_Validate n osi d) (\<lambda>r. within A D (snd r))"
proof (induction n arbitrary: d)
  case 0
  then show ?case
    by (cases d) (auto intro!: yields_exit yields_ret yields_bindM [OF yields_XFS_Validate])
next
  case (Suc n)
  show ?case
  proof (cases d)
    case (XFSDevice p f m)
    with Suc.prems show ?thesis by (auto intro!: yields_ret yields_bindM [OF yields_XFS_Validate])
  next
    case (LUKSDevice p f od nm)
    with Suc.prems show ?thesis
      by (auto intro!: yields_ret yields_bindM [OF yields_LUKS_Validate [OF Suc.IH]])
  qed
qed

lemma yields_LUKS_Open:
  assumes "opens_within osi A D (DriveID drv) (Keys drv)" and "part A D p" and "within_opt A D od"
  shows "yields (apart A D T) (LUKS_Open osi drv p od nm) (\<lambda>r. within_opt A D (fst (snd r)))"
  unfolding LUKS_Open_def using assms(3)
  by (auto split: option.split intro!: yields_ret yields_Pair yields_bindM [OF yields_open [OF assms(1,2)]]
      yields_thenM [OF yields_log] yields_bindM [OF yields_newDevice])

lemma yields_LUKS_Setup:
  assumes v: "\<And>m. within A D m \<Longrightarrow> yields (apart A D T) (v m) (\<lambda>r. within A D (snd r))"
    and s: "\<And>m. within A D m \<Longrightarrow> yields (apart A D T) (s m) (\<lambda>r. within A D (snd r))"
    and "opens_within osi A D (DriveID drv) (Keys drv)" and p: "part A D p" and od: "within_opt A D od"
  shows "yields (apart A D T) (LUKS_Setup v s osi drv p f od nm) (\<lambda>r. within A D (snd r))"
proof -
  let ?Q = "\<lambda>r :: bool \<times> device. within A D (snd r)"
  have fmt: "yields (apart A D T) (LUKS_Format osi drv p f) (\<lambda>_. True)"
    by (rule yields_frames) (intro frames_intros)+
  have r: "yields (apart A D T) (ret (b, LUKSDevice p g od nm)) ?Q" if "within_opt A D od" for b g od nm
    by (rule yields_ret) (use that p in simp)
  have inner: "yields (apart A D T) (bindM (s m) (\<lambda>(ok, m). ret (ok, LUKSDevice p g (Some m) nm))) ?Q"
    if "within A D m" for m g nm
    by (rule yields_bindM [OF s [OF that]]) (use p in \<open>auto intro!: yields_ret\<close>)
  have opened: "yields (apart A D T) (bindM (LUKS_Open osi drv p od nm) (\<lambda>(ok, mapped, mappingName).
       if \<not> ok then ret (False, LUKSDevice p g mapped mappingName)
       else case mapped of None \<Rightarrow> ret (False, LUKSDevice p g None mappingName)
       | Some m \<Rightarrow> bindM (s m) (\<lambda>(ok, m). ret (ok, LUKSDevice p g (Some m) mappingName)))) ?Q"
    if "within_opt A D od" for od g nm
    by (rule yields_bindM [OF yields_LUKS_Open [OF assms(3) p that]])
       (auto split: option.split simp del: within_LUKS intro!: r inner)
  show ?thesis
    unfolding LUKS_Setup_def
    by (rule yields_bindM [OF yields_LUKS_Validate [OF v p od]], assumption)
       (auto split: option.split simp del: within_LUKS
          intro!: yields_if yields_thenM [OF yields_log r] yields_bindM [OF fmt] r opened)
qed

lemma yields_Device_Setup:
  assumes "opens_within osi A D (DriveID drv) (Keys drv)" and "owns A D (MountPathAt drv [])"
  shows "within A D d \<Longrightarrow> yields (apart A D T) (Device_Setup n h osi drv d) (\<lambda>r. within A D (snd r))"
proof (induction n arbitrary: d)
  case 0
  then show ?case by (cases d) (auto intro!: yields_exit yields_XFS_Setup assms(2))
next
  case (Suc n)
  then show ?case
    by (cases d) (auto intro!: yields_XFS_Setup assms yields_LUKS_Setup yields_Device_Validate)
qed

lemma yields_LUKS_Close:
  assumes "part A D p"
  shows "yields (apart A D T) (LUKS_Close osi p f nm) (\<lambda>r. within A D (snd r))"
proof -
  have close: "yields (apart A D T) (CloseLUKSContainer osi nm) (\<lambda>_. True)"
    by (rule yields_frames) (intro frames_intros)+
  show ?thesis
    unfolding LUKS_Close_def
    by (auto intro!: yields_ret yields_bindM [OF close] yields_thenM [OF yields_log] simp: assms)
qed

lemma yields_Device_Teardown:
  "within A D d \<Longrightarrow> yields (apart A D T) (Device_Teardown h osi drv d) (\<lambda>r. within A D (snd r))"
proof (induction d rule: innermost.induct)
  case (1 p f m)
  then show ?case by (simp add: yields_XFS_Teardown)
next
  case (2 p f nm)
  then show ?case by (simp add: yields_LUKS_Close)
next
  case (3 p f m nm)
  then show ?case
    by (auto intro!: yields_bindM [OF "3.IH"] yields_LUKS_Close yields_ret)
qed

end

section \<open>Drives\<close>

definition drive_within :: "allotment \<Rightarrow> drive \<Rightarrow> bool" where
  "drive_within A d \<longleftrightarrow> within_opt A (DevicePath d) (Device d)"

text \<open>The device that holds the filesystem of a drive.\<close>

definition bottom :: "drive \<Rightarrow> string" where
  "bottom d = (case Device d of None \<Rightarrow> [] | Some dev \<Rightarrow> dev_path (innermost dev))"

text \<open>No device of the drive \<open>D\<close> but \<open>q\<close> is mounted anywhere.\<close>

definition lone :: "allotment \<Rightarrow> string \<Rightarrow> string \<Rightarrow> (MountScope \<Rightarrow> MountPoint list) \<Rightarrow> bool" where
  "lone A D q tab \<longleftrightarrow> (\<forall>sc. \<forall>m \<in> set (tab sc). belongs A (mp_DevicePath m) = D \<longrightarrow> mp_DevicePath m = q)"

text \<open>The state between two drives.\<close>

definition allotting ::
    "('s \<Rightarrow> MountScope \<Rightarrow> MountPoint list) \<Rightarrow> ('s \<Rightarrow> bool) \<Rightarrow> ('s \<Rightarrow> string \<Rightarrow> string) \<Rightarrow>
     allotment \<Rightarrow> ('k, 's) world \<Rightarrow> bool" where
  "allotting mounts ready luks A w \<longleftrightarrow>
     ready (osst w) \<and> allotted A (mounts (osst w)) \<and>
     (\<forall>p. luks (osst w) p \<noteq> [] \<longrightarrow> belongs A (luks (osst w) p) = belongs A p)"

lemma isolating_start:
  "allotting mounts ready luks A w \<Longrightarrow> isolating mounts ready luks A D (\<lambda>q sc. mounts_of q (mounts (osst w) sc)) w"
  by (simp add: allotting_def isolating_def)

lemma isolating_allotting: "isolating mounts ready luks A D T w \<Longrightarrow> allotting mounts ready luks A w"
  by (simp add: allotting_def isolating_def)

lemma part_innermost: "within A D dev \<Longrightarrow> part A D (dev_path (innermost dev))"
  by (induction dev rule: innermost.induct) auto

lemma lone_exclusive:
  assumes "lone A D q tab" and "allotted A tab" and "belongs A q = D"
  shows "exclusive q (tab sc)"
  using assms unfolding lone_def allotted_def exclusive_def by metis

text \<open>What concerns one drive depends on the mounts of its devices only.\<close>

lemma lone_cong:
  assumes "lone A D q tab" and "\<And>p sc. belongs A p = D \<Longrightarrow> mounts_of p (tab' sc) = mounts_of p (tab sc)"
  shows "lone A D q tab'"
  unfolding lone_def
proof (intro allI ballI impI)
  fix sc m assume m: "m \<in> set (tab' sc)" "belongs A (mp_DevicePath m) = D"
  then have "m \<in> set (mounts_of (mp_DevicePath m) (tab sc))"
    unfolding assms(2) [OF m(2), symmetric] by (simp add: mounts_of_def)
  with assms(1) m(2) show "mp_DevicePath m = q" by (auto simp: lone_def mounts_of_def)
qed

lemma drive_mounted_cong:
  assumes "drive_mounted tab d" and "\<And>sc. mounts_of (bottom d) (tab' sc) = mounts_of (bottom d) (tab sc)"
  shows "drive_mounted tab' d"
  using assms by (auto simp: drive_mounted_def bottom_def dev_paths_def)

context os_contract
begin

lemma yields_teardown_device:
  assumes "drive_within A d"
  shows "yields (apart A (DevicePath d) T) (teardown_device h osi d)
    (\<lambda>d'. drive_within A d' \<and> DevicePath d' = DevicePath d)"
proof (cases "Device d")
  case None
  then show ?thesis by (simp add: teardown_device_def yields_exit)
next
  case (Some dev)
  with assms have "within A (DevicePath d) dev" by (simp add: drive_within_def)
  from yields_Device_Teardown [OF this] show ?thesis
    unfolding teardown_device_def Some option.case
    by (rule yields_bindM) (auto intro!: yields_ret yields_Pair simp: drive_within_def)
qed

lemma yields_Drive_Converge:
  assumes "opens_within osi A (DevicePath d) (DriveID d) (Keys d)" and w: "drive_within A d"
    and "\<not> Broken d \<Longrightarrow> owns A (DevicePath d) (MountPathAt d [])"
  shows "yields (apart A (DevicePath d) T) (Drive_Converge h osi d)
    (\<lambda>d'. drive_within A d' \<and> DevicePath d' = DevicePath d)"
proof (cases "Broken d")
  case True
  then show ?thesis by (simp add: Drive_Converge_def yields_teardown_device w)
next
  case False
  let ?Q = "\<lambda>d'. drive_within A d' \<and> DevicePath d' = DevicePath d"
  have mark: "yields (apart A (DevicePath d) T) (MarkAsBroken h e) ?Q" if "?Q e" for e
  proof (rule yields_val [where P = "\<lambda>_. True"])
    show "yields (apart A (DevicePath d) T) (MarkAsBroken h e) (\<lambda>_. True)"
      by (rule yields_frames) (intro frames_intros)+
    fix w1 e' w2 assume "MarkAsBroken h e w1 = (Inr e', w2)"
    with that show "?Q e'" by (auto dest!: MarkAsBroken_value simp: drive_within_def)
  qed
  have down: "yields (apart A (DevicePath d) T) (teardown_device h osi e) ?Q" if "?Q e" for e
    using yields_teardown_device [of A e T h] that by simp
  have up: "yields (apart A (DevicePath d) T) (Device_Setup n h osi d dev) (\<lambda>r. within A (DevicePath d) (snd r))"
    if "Device d = Some dev" for n dev
    by (rule yields_Device_Setup [OF assms(1) assms(3) [OF False]]) (use w that in \<open>simp add: drive_within_def\<close>)
  show ?thesis
  proof (cases "Device d")
    case None
    with False show ?thesis by (simp add: Drive_Converge_def yields_exit)
  next
    case (Some dev)
    have dw: "drive_within A (d\<lparr>Device := Some dev'\<rparr>)" if "within A (DevicePath d) dev'" for dev'
      using that by (simp add: drive_within_def)
    from False show ?thesis
      unfolding Drive_Converge_def Some option.case Let_def
      by (auto intro!: yields_bindM [OF up [OF Some]] yields_bindM [OF mark] down yields_ret yields_Pair simp: dw)
  qed
qed

lemma yields_converge_assigned:
  assumes "opens_within osi A (DevicePath d) (DriveID d) (Keys d)" and "drive_within A d"
    and "\<not> Broken d \<Longrightarrow> owns A (DevicePath d) (MountPathAt d [])"
  shows "yields (apart A (DevicePath d) T) (converge_assigned h osi cfg d)
    (\<lambda>d'. drive_within A d' \<and> DevicePath d' = DevicePath d)"
proof -
  have chown: "yields (apart A (DevicePath d) T) (whenM b (Chown osi x u g)) (\<lambda>_. True)" for b x u g
    by (rule yields_frames) (intro frames_intros)+
  show ?thesis
    unfolding converge_assigned_def
    by (rule yields_if) (simp add: yields_ret assms(2),
        rule yields_bindM [OF yields_Drive_Converge [OF assms]], assumption,
        rule yields_thenM [OF chown], simp add: yields_ret)
qed

end

end
