(* ===== verification/Core_Pass.thy ===== *)
theory Core_Pass
  imports Core_Isolation
begin

text \<open>
  What one pass of \<open>Converge\<close> over all drives achieves: every drive that is not broken at its end is
  mounted at its place, whatever happened to the other drives, and the mounts of devices that
  belong to no drive are as before.
\<close>

context os_contract
begin

section \<open>What a drive that is not broken afterwards has achieved\<close>

text \<open>\<open>Setup\<close> mounts no device but the one at the bottom.\<close>

lemma keeps_others:
  fixes S :: "string \<Rightarrow> MountScope \<Rightarrow> MountPoint set" and q :: string
  defines "I \<equiv> \<lambda>w :: ('k, 's) world. ready (osst w) \<and>
    (\<forall>p sc. p \<noteq> q \<longrightarrow> set (mounts_of p (mounts (osst w) sc)) \<subseteq> S p sc)"
  shows "keeps I (UnmountDevice osi x sc)" and "keeps I (MountDevice osi q x sc)"
    and "frames tables m \<Longrightarrow> keeps I m"
proof -
  show "keeps I (UnmountDevice osi x sc)"
    unfolding keeps_def I_def
  proof (intro allI impI)
    fix w :: "('k, 's) world"
    assume i: "ready (osst w) \<and> (\<forall>p sc. p \<noteq> q \<longrightarrow> set (mounts_of p (mounts (osst w) sc)) \<subseteq> S p sc)"
    obtain r w' where u: "UnmountDevice osi x sc w = (r, w')" by fastforce
    have "set (mounts_of p (mounts (osst w') sc')) \<subseteq> set (mounts_of p (mounts (osst w) sc'))" for p sc'
      using unmount_shrinks [OF u, of sc'] i by (auto simp: mounts_of_def)
    with i unmount_ready [OF u] u show "ready (osst (snd (UnmountDevice osi x sc w))) \<and>
        (\<forall>p sc'. p \<noteq> q \<longrightarrow> set (mounts_of p (mounts (osst (snd (UnmountDevice osi x sc w))) sc')) \<subseteq> S p sc')"
      by (metis order_trans snd_conv)
  qed
  show "keeps I (MountDevice osi q x sc)"
    unfolding keeps_def I_def
  proof (intro allI impI)
    fix w :: "('k, 's) world"
    assume i: "ready (osst w) \<and> (\<forall>p sc. p \<noteq> q \<longrightarrow> set (mounts_of p (mounts (osst w) sc)) \<subseteq> S p sc)"
    obtain r w' where u: "MountDevice osi q x sc w = (r, w')" by fastforce
    have "mounts_of p (mounts (osst w') sc') = mounts_of p (mounts (osst w) sc')" if "p \<noteq> q" for p sc'
      using mount_table [OF u, of sc'] i that by (auto simp: mounts_of_def)
    with i mount_ready [OF u] u show "ready (osst (snd (MountDevice osi q x sc w))) \<and>
        (\<forall>p sc'. p \<noteq> q \<longrightarrow> set (mounts_of p (mounts (osst (snd (MountDevice osi q x sc w))) sc')) \<subseteq> S p sc')"
      by (metis snd_conv)
  qed
  assume "frames tables m"
  from frames_keeps [OF this, of "\<lambda>(t, r). r \<and> (\<forall>p sc. p \<noteq> q \<longrightarrow> set (mounts_of p (t sc)) \<subseteq> S p sc)"]
  show "keeps I m" by (simp add: I_def)
qed

lemma XFS_Setup_others:
  assumes "XFS_Setup h osi drv q f mp w = (r, w')" and "ready (osst w)" and "p \<noteq> q"
  shows "set (mounts_of p (mounts (osst w') sc)) \<subseteq> set (mounts_of p (mounts (osst w) sc))"
proof -
  define I where "I \<equiv> \<lambda>w1 :: ('k, 's) world. ready (osst w1) \<and>
    (\<forall>p sc. p \<noteq> q \<longrightarrow> set (mounts_of p (mounts (osst w1) sc)) \<subseteq> set (mounts_of p (mounts (osst w) sc)))"
  note ops = keeps_others [where q = q and S = "\<lambda>p sc. set (mounts_of p (mounts (osst w) sc))", folded I_def]
  have "keeps I (unmount_others osi q x sc)" for x sc
    unfolding unmount_others_def by (intro keeps_intros ops frames_intros)
  then have "keeps I (XFS_Setup h osi drv q f mp)"
    unfolding XFS_Setup_def Let_def
    by (auto split: option.split intro!: keeps_intros ops(2) ops(3) [OF XFS_Validate_frame]
        ops(3) [OF XFS_Format_frame] ops(3) [OF frames_logM] ops(3) [OF clear_unmount_propagation_frame])
  from keepsD [OF this _ assms(1)] assms(2,3) show ?thesis by (simp add: I_def)
qed

lemma Device_Setup_others:
  assumes "Device_Setup n h osi drv d w = (Inr (True, d'), w')" and "ready (osst w)"
    and "p \<noteq> dev_path (innermost d')"
  shows "set (mounts_of p (mounts (osst w') sc)) \<subseteq> set (mounts_of p (mounts (osst w) sc))"
proof -
  have xfs: "set (mounts_of p (mounts (osst w') sc)) \<subseteq> set (mounts_of p (mounts (osst w) sc))"
    if "XFS_Setup h osi drv q f m w = (Inr (True, d'), w')" "ready (osst w)" "p \<noteq> dev_path (innermost d')"
    for q f m w d'
  proof (rule XFS_Setup_others [OF that(1,2)])
    from XFS_Setup_True [OF that(1,2)] that(3) show "p \<noteq> q" by auto
  qed
  show ?thesis
  using assms
proof (induction n arbitrary: d w d')
  case 0
  then show ?case by (cases d) (simp_all add: xfs)
next
  case (Suc n)
  show ?case
  proof (cases d)
    case (XFSDevice q f m)
    with Suc.prems show ?thesis by (simp add: xfs)
  next
    case (LUKSDevice q f od nm)
    with Suc.prems have "LUKS_Setup (Device_Validate n osi) (Device_Setup n h osi drv) osi drv q f od nm w
      = (Inr (True, d'), w')" by simp
    then obtain m w1 m' f' nm' where t: "tables (osst w1) = tables (osst w)"
      and s: "Device_Setup n h osi drv m w1 = (Inr (True, m'), w')"
      and d': "d' = LUKSDevice q f' (Some m') nm'"
      by (rule LUKS_Setup_TrueE) (rule Device_Validate_frame)
    with Suc.IH [OF s] Suc.prems show ?thesis by simp
  qed
qed
qed

text \<open>\<open>achieves d' w w'\<close>: no device but the bottom of \<open>d'\<close> has got a mount, and this one is
  mounted where it should when no other device was mounted at its paths.\<close>

abbreviation achieves :: "drive \<Rightarrow> ('k, 's) world \<Rightarrow> ('k, 's) world \<Rightarrow> bool" where
  "achieves d' w w' \<equiv> Device d' \<noteq> None \<and>
     (\<forall>p sc. p \<noteq> bottom d' \<longrightarrow>
        set (mounts_of p (mounts (osst w') sc)) \<subseteq> set (mounts_of p (mounts (osst w) sc))) \<and>
     ((\<forall>sc. exclusive (bottom d') (mounts (osst w) sc)) \<longrightarrow> drive_mounted (mounts (osst w')) d')"

lemma Drive_Converge_successE:
  assumes c: "Drive_Converge h osi d w = (Inr d', w')" and b: "\<not> Broken d'"
  obtains dev dev' where "\<not> Broken d" and "Device d = Some dev" and "d' = d\<lparr>Device := Some dev'\<rparr>"
    and "Device_Setup (stack_limit h) h osi d dev w = (Inr (True, dev'), w')"
proof -
  from Drive_Converge_value [OF c] b have nb: "\<not> Broken d" by auto
  with c obtain dev ok dev' w1 where D: "Device d = Some dev"
    and S: "Device_Setup (stack_limit h) h osi d dev w = (Inr (ok, dev'), w1)"
    and T: "(if \<not> ok then bindM (MarkAsBroken h (d\<lparr>Device := Some dev'\<rparr>)) (teardown_device h osi)
             else ret (d\<lparr>Device := Some dev'\<rparr>)) w1 = (Inr d', w')"
    unfolding Drive_Converge_def Let_def by (auto elim!: bindM_InrE split: option.splits)
  have ok: ok
  proof (rule ccontr)
    assume "\<not> ok"
    with T obtain d1 w2 where "MarkAsBroken h (d\<lparr>Device := Some dev'\<rparr>) w1 = (Inr d1, w2)"
      and "teardown_device h osi d1 w2 = (Inr d', w')"
      by (auto elim!: bindM_InrE)
    with b show False by (auto dest!: MarkAsBroken_value teardown_device_value)
  qed
  with T have d': "d' = d\<lparr>Device := Some dev'\<rparr>" and w': "w' = w1" by simp_all
  from S ok w' have S: "Device_Setup (stack_limit h) h osi d dev w = (Inr (True, dev'), w')" by simp
  show ?thesis by (rule that [OF nb D d' S])
qed

lemma Drive_Converge_achieves:
  assumes c: "Drive_Converge h osi d w = (Inr d', w')" and b: "\<not> Broken d'" and r: "ready (osst w)"
  shows "achieves d' w w'"
proof -
  from c b obtain dev dev' where d': "d' = d\<lparr>Device := Some dev'\<rparr>"
    and S: "Device_Setup (stack_limit h) h osi d dev w = (Inr (True, dev'), w')"
    by (rule Drive_Converge_successE)
  from Device_Setup_True [OF S r] obtain q x where x: "innermost dev' = XFSDevice q True x" "x = MountPathAt d x"
    "(\<forall>sc. exclusive q (mounts (osst w) sc)) \<longrightarrow> (\<forall>sc. set (dev_paths q (mounts (osst w') sc)) = {x})"
    by blast
  from x(1) MountedPath_innermost [of dev'] have "Device_MountedPath dev' = x" by simp
  with x(2) have m: "MountPath d' = x" unfolding d' MountPath_innermost by simp
  have q: "bottom d' = q" by (simp add: bottom_def d' x(1))
  have "drive_mounted (mounts (osst w')) d'" if "\<forall>sc. exclusive q (mounts (osst w) sc)"
    using x(1,3) that m by (auto simp: drive_mounted_def d')
  with Device_Setup_others [OF S r] x(1) show ?thesis by (simp add: q [unfolded d'] d')
qed

lemma converge_assigned_achieves:
  assumes "converge_assigned h osi cfg d w = (Inr d', w')" and "\<not> Broken d'" and "ready (osst w)"
  shows "achieves d' w w'"
proof -
  have "\<not> Broken d" using assms(1,2) by (auto simp: converge_assigned_def)
  with assms(1) obtain w1 where c: "Drive_Converge h osi d w = (Inr d', w1)"
    and o: "whenM (Dir (MountPath d') = srv_node) (Chown osi (MountPath d') (OwnerUser cfg) (OwnerGroup cfg)) w1
      = (Inr (), w')"
    by (auto simp: converge_assigned_def elim!: bindM_InrE thenM_InrE)
  have "frames tables (whenM b (Chown osi x u g))" for b x u g by (intro frames_intros)
  from framesD [OF this o] have "mounts (osst w') = mounts (osst w1)" by simp
  with Drive_Converge_achieves [OF c assms(2,3)] show ?thesis by simp
qed

section \<open>A pass over all drives\<close>

text \<open>The turn of one drive.\<close>

lemma pass_step:
  assumes "f d w = (Inr d', w')" and "allotting mounts ready luks A w"
    and y: "\<And>T. yields (apart A (DevicePath d) T) (f d) (\<lambda>d'. drive_within A d' \<and> DevicePath d' = DevicePath d)"
  shows "allotting mounts ready luks A w'" and "drive_within A d'" and "DevicePath d' = DevicePath d"
    and "belongs A q \<noteq> DevicePath d \<Longrightarrow> mounts_of q (mounts (osst w') sc) = mounts_of q (mounts (osst w) sc)"
    and "achieves d' w w' \<Longrightarrow> lone A (DevicePath d) (bottom d') (mounts (osst w)) \<Longrightarrow>
      drive_mounted (mounts (osst w')) d' \<and> lone A (DevicePath d) (bottom d') (mounts (osst w'))"
proof -
  from yieldsD [OF y assms(1) isolating_start [OF assms(2)]]
  have i: "apart A (DevicePath d) (\<lambda>q sc. mounts_of q (mounts (osst w) sc)) w'"
    and d': "drive_within A d'" "DevicePath d' = DevicePath d" by simp_all
  from i show "allotting mounts ready luks A w'" by (rule isolating_allotting)
  show "drive_within A d'" "DevicePath d' = DevicePath d" by (rule d')+
  from i show "belongs A q \<noteq> DevicePath d \<Longrightarrow>
      mounts_of q (mounts (osst w') sc) = mounts_of q (mounts (osst w) sc)"
    by (simp add: isolating_def)
  assume a: "achieves d' w w'" and l: "lone A (DevicePath d) (bottom d') (mounts (osst w))"
  from a d' have "belongs A (bottom d') = DevicePath d"
    by (auto simp: drive_within_def bottom_def part_def dest!: part_innermost)
  with l assms(2) have "exclusive (bottom d') (mounts (osst w) sc)" for sc
    by (auto intro: lone_exclusive simp: allotting_def)
  with a have m: "drive_mounted (mounts (osst w')) d'" by blast
  have "mp_DevicePath m = bottom d'"
    if "m \<in> set (mounts (osst w') sc)" "belongs A (mp_DevicePath m) = DevicePath d" for m sc
  proof (rule ccontr)
    assume "mp_DevicePath m \<noteq> bottom d'"
    with a have "set (mounts_of (mp_DevicePath m) (mounts (osst w') sc)) \<subseteq>
        set (mounts_of (mp_DevicePath m) (mounts (osst w) sc))" by blast
    moreover have "m \<in> set (mounts_of (mp_DevicePath m) (mounts (osst w') sc))"
      using that(1) by (simp add: mounts_of_def)
    ultimately have "m \<in> set (mounts (osst w) sc)" unfolding mounts_of_def by auto
    with l that(2) have "mp_DevicePath m = bottom d'" unfolding lone_def by blast
    with \<open>mp_DevicePath m \<noteq> bottom d'\<close> show False ..
  qed
  with m show "drive_mounted (mounts (osst w')) d' \<and> lone A (DevicePath d) (bottom d') (mounts (osst w'))"
    by (simp add: lone_def)
qed

lemma mapM_paths:
  fixes ds ds' :: "drive list"
  assumes "mapM f ds w = (Inr ds', w')"
    and "\<And>d d' w w'. f d w = (Inr d', w') \<Longrightarrow> DevicePath d' = DevicePath d"
  shows "map DevicePath ds' = map DevicePath ds"
proof -
  have "list_all2 (\<lambda>d d'. DevicePath d' = DevicePath d) ds ds'" by (rule mapM_values [OF assms(1)]) (rule assms(2))
  from list_all2_map_eq [OF this] show ?thesis .
qed

lemma pass:
  fixes ds ds' :: "drive list"
  assumes "mapM f ds w = (Inr ds', w')" and "allotting mounts ready luks A w" and "distinct (map DevicePath ds)"
    and y: "\<And>d T. d \<in> set ds \<Longrightarrow>
      yields (apart A (DevicePath d) T) (f d) (\<lambda>d'. drive_within A d' \<and> DevicePath d' = DevicePath d)"
    and a: "\<And>d d' w w'. f d w = (Inr d', w') \<Longrightarrow> \<not> Broken d' \<Longrightarrow> ready (osst w) \<Longrightarrow> achieves d' w w'"
    and s: "\<And>d d' w w'. f d w = (Inr d', w') \<Longrightarrow> DevicePath d' = DevicePath d"
  shows "allotting mounts ready luks A w' \<and> (\<forall>d \<in> set ds'. drive_within A d) \<and>
    (\<forall>q sc. belongs A q \<notin> DevicePath ` set ds \<longrightarrow>
       mounts_of q (mounts (osst w') sc) = mounts_of q (mounts (osst w) sc)) \<and>
    (\<forall>d \<in> set ds'. \<not> Broken d \<longrightarrow> lone A (DevicePath d) (bottom d) (mounts (osst w)) \<longrightarrow>
       drive_mounted (mounts (osst w')) d \<and> lone A (DevicePath d) (bottom d) (mounts (osst w')))"
  using assms(1-4)
proof (induction ds arbitrary: w ds')
  case Nil
  then show ?case by simp
next
  case (Cons d ds)
  let ?D = "DevicePath d"
  from Cons.prems(1) obtain d1 w1 ds1 where d1: "f d w = (Inr d1, w1)" and ds1: "mapM f ds w1 = (Inr ds1, w')"
    and ds': "ds' = d1 # ds1"
    by (auto elim!: bindM_InrE)
  note step = pass_step [where f = f, OF d1 Cons.prems(2) Cons.prems(4) [OF list.set_intros(1)]]
  have paths: "map DevicePath ds1 = map DevicePath ds" by (rule mapM_paths [OF ds1 s])
  have new: "?D \<notin> DevicePath ` set ds" "distinct (map DevicePath ds)" using Cons.prems(3) by auto
  have still: "lone A (DevicePath e) (bottom e) (mounts (osst w1))"
    if "e \<in> set ds1" "lone A (DevicePath e) (bottom e) (mounts (osst w))" for e
  proof (rule lone_cong [OF that(2)])
    have "DevicePath e \<in> DevicePath ` set ds" using that(1) arg_cong [OF paths, of set] by (metis imageI list.set_map)
    with new(1) have "DevicePath e \<noteq> ?D" by metis
    then show "belongs A p = DevicePath e \<Longrightarrow> mounts_of p (mounts (osst w1) sc) = mounts_of p (mounts (osst w) sc)"
      for p sc by (intro step(4)) simp
  qed
  have rest: "allotting mounts ready luks A w'" "\<forall>d \<in> set ds1. drive_within A d"
    "\<And>q sc. belongs A q \<notin> DevicePath ` set ds \<Longrightarrow>
       mounts_of q (mounts (osst w') sc) = mounts_of q (mounts (osst w1) sc)"
    "\<forall>d \<in> set ds1. \<not> Broken d \<longrightarrow> lone A (DevicePath d) (bottom d) (mounts (osst w)) \<longrightarrow>
       drive_mounted (mounts (osst w')) d \<and> lone A (DevicePath d) (bottom d) (mounts (osst w'))"
    using Cons.IH [OF ds1 step(1) new(2) Cons.prems(4)] still by auto
  have "drive_mounted (mounts (osst w')) d1 \<and> lone A ?D (bottom d1) (mounts (osst w'))"
    if b: "\<not> Broken d1" and l: "lone A ?D (bottom d1) (mounts (osst w))"
  proof -
    have ac: "achieves d1 w w1" by (rule a [OF d1 b]) (use Cons.prems(2) in \<open>simp add: allotting_def\<close>)
    from step(5) [OF this l]
    have m: "drive_mounted (mounts (osst w1)) d1" "lone A ?D (bottom d1) (mounts (osst w1))" by blast+
    from ac step(2,3) have "belongs A (bottom d1) = ?D"
      by (auto simp: drive_within_def bottom_def part_def dest!: part_innermost)
    with drive_mounted_cong [OF m(1) rest(3)] lone_cong [OF m(2) rest(3)] new(1) show ?thesis by simp
  qed
  with rest step show ?case by (simp add: ds')
qed

section \<open>The bottom of a drive stays\<close>

lemma LUKS_Validate_mapped:
  assumes "LUKS_Validate v osi p (Some m) w = (Inr (None, od'), w')"
  obtains m' w1 where "od' = Some m'" and "v m w1 = (Inr (None, m'), w')"
proof -
  from assms obtain q od1 w1 w2 where l: "luks_discover osi p (Some m) q w1 = (Inr (None, od1), w2)"
    and rest: "bindM (luks_not_mounted osi p) (\<lambda>err.
     case err of Some e \<Rightarrow> ret (Some e, od1) | None \<Rightarrow>
     case od1 of
       None \<Rightarrow> ret (None, None)
     | Some m \<Rightarrow> bindM (v m) (\<lambda>(err, m). ret (err, Some m))) w2 = (Inr (None, od'), w')"
    unfolding LUKS_Validate_def by (elim bindM_InrE) (auto split: option.splits)
  from l have "od1 = Some m" by (auto simp: luks_discover_def split: if_splits)
  with rest obtain m' w3 where "v m w3 = (Inr (None, m'), w')" "od' = Some m'"
    by (auto elim!: bindM_InrE split: option.splits)
  then show ?thesis by (rule that [rotated])
qed

lemma LUKS_Setup_mapped:
  assumes "LUKS_Setup v s osi drv p f (Some m) nm w = (Inr (True, d'), w')"
  obtains m1 m' w1 w2 w3 f' nm' where "v m w1 = (Inr (None, m1), w2)" and "s m1 w3 = (Inr (True, m'), w')"
    and "d' = LUKSDevice p f' (Some m') nm'"
proof -
  from assms obtain od1 w1 w2 m2 nm' w3 m' where V: "LUKS_Validate v osi p (Some m) w = (Inr (None, od1), w1)"
    and O: "LUKS_Open osi drv p od1 nm w2 = (Inr (True, Some m2, nm'), w3)"
    and S: "s m2 w3 = (Inr (True, m'), w')" and d: "d' = LUKSDevice p True (Some m') nm'"
    by (rule LUKS_Setup_steps)
  from V obtain m1 w0 where m1: "od1 = Some m1" and v: "v m w0 = (Inr (None, m1), w1)" by (rule LUKS_Validate_mapped)
  from O m1 have "m2 = m1" by (simp add: LUKS_Open_def)
  with S have "s m1 w3 = (Inr (True, m'), w')" by simp
  with v show ?thesis using d by (rule that)
qed

lemma Device_Validate_bottom:
  assumes "Device_Validate n osi d w = (Inr (None, d'), w')" and "innermost d = XFSDevice q f m"
  shows "\<exists>f' m'. innermost d' = XFSDevice q f' m'"
  using assms
proof (induction n arbitrary: d w d' w')
  case 0
  then show ?case by (cases d) (fastforce elim!: bindM_InrE)+
next
  case (Suc n)
  show ?case
  proof (cases d)
    case (XFSDevice p f m)
    with Suc.prems show ?thesis by (fastforce elim!: bindM_InrE)
  next
    case (LUKSDevice p g od nm)
    with Suc.prems(2) obtain d0 where d0: "od = Some d0" "innermost d0 = XFSDevice q f m" by (cases od) auto
    with Suc.prems(1) LUKSDevice obtain od' w1 where
      v: "LUKS_Validate (Device_Validate n osi) osi p (Some d0) w = (Inr (None, od'), w1)"
      and d': "d' = LUKSDevice p g od' nm"
      by (auto elim!: bindM_InrE)
    from v obtain d1 w2 where "od' = Some d1" "Device_Validate n osi d0 w2 = (Inr (None, d1), w1)"
      by (rule LUKS_Validate_mapped)
    with Suc.IH [OF this(2) d0(2)] d' show ?thesis by simp
  qed
qed

lemma XFS_Setup_value:
  "XFS_Setup h osi drv q f m w = (Inr (True, d'), w') \<Longrightarrow> \<exists>x. d' = XFSDevice q True x"
  unfolding XFS_Setup_def Let_def XFS_Format_def
  by (auto elim!: bindM_InrE thenM_InrE split: option.splits if_splits)

lemma Device_Setup_bottom:
  assumes "Device_Setup n h osi drv d w = (Inr (True, d'), w')" and "innermost d = XFSDevice q f m"
  shows "dev_path (innermost d') = q"
proof -
  have xfs: "dev_path (innermost d') = q" if "XFS_Setup h osi drv q f m w = (Inr (True, d'), w')" for f m w d'
    using XFS_Setup_value [OF that] by auto
  show ?thesis
    using assms
  proof (induction n arbitrary: d w d' f m)
    case 0
    then show ?case by (cases d) (auto simp: xfs)
  next
    case (Suc n)
    show ?case
    proof (cases d)
      case (XFSDevice p g x)
      with Suc.prems show ?thesis by (auto simp: xfs)
    next
      case (LUKSDevice p g od nm)
      with Suc.prems(2) obtain d0 where d0: "od = Some d0" "innermost d0 = XFSDevice q f m" by (cases od) auto
      with Suc.prems(1) LUKSDevice have s: "LUKS_Setup (Device_Validate n osi) (Device_Setup n h osi drv) osi drv
          p g (Some d0) nm w = (Inr (True, d'), w')" by simp
      from s obtain m1 m' w1 w2 w3 f' nm' where v: "Device_Validate n osi d0 w1 = (Inr (None, m1), w2)"
        and s1: "Device_Setup n h osi drv m1 w3 = (Inr (True, m'), w')" and d': "d' = LUKSDevice p f' (Some m') nm'"
        by (rule LUKS_Setup_mapped)
      from Device_Validate_bottom [OF v d0(2)] obtain f1 x1 where "innermost m1 = XFSDevice q f1 x1" by blast
      with Suc.IH [OF s1] d' show ?thesis by simp
    qed
  qed
qed

lemma Device_Setup_XFS:
  "Device_Setup n h osi drv d w = (Inr (True, d'), w') \<Longrightarrow> \<exists>q x. innermost d' = XFSDevice q True x"
proof (induction n arbitrary: d w d' w')
  case 0
  then show ?case by (cases d) (auto dest: XFS_Setup_value)
next
  case (Suc n)
  show ?case
  proof (cases d)
    case (XFSDevice p f m)
    with Suc.prems show ?thesis by (auto dest: XFS_Setup_value)
  next
    case (LUKSDevice p f od nm)
    with Suc.prems have "LUKS_Setup (Device_Validate n osi) (Device_Setup n h osi drv) osi drv p f od nm w
      = (Inr (True, d'), w')" by simp
    then obtain m w1 m' f' nm' where "Device_Setup n h osi drv m w1 = (Inr (True, m'), w')"
      and "d' = LUKSDevice p f' (Some m') nm'"
      by (rule LUKS_Setup_TrueE) (rule Device_Validate_frame)
    with Suc.IH show ?thesis by auto
  qed
qed

lemma Drive_Converge_bottom:
  assumes "Drive_Converge h osi d w = (Inr d', w')" and "\<not> Broken d'"
  shows "\<exists>dev x. Device d' = Some dev \<and> innermost dev = XFSDevice (bottom d') True x"
    and "Device d = Some dev \<Longrightarrow> innermost dev = XFSDevice q f x \<Longrightarrow> bottom d' = q"
proof -
  from assms obtain dev0 dev' where d: "Device d = Some dev0" "d' = d\<lparr>Device := Some dev'\<rparr>"
    and S: "Device_Setup (stack_limit h) h osi d dev0 w = (Inr (True, dev'), w')"
    by (rule Drive_Converge_successE)
  from Device_Setup_XFS [OF S] d
  show "\<exists>dev x. Device d' = Some dev \<and> innermost dev = XFSDevice (bottom d') True x"
    by (auto simp: bottom_def)
  assume "Device d = Some dev" "innermost dev = XFSDevice q f x"
  with Device_Setup_bottom [OF S] d show "bottom d' = q" by (simp add: bottom_def)
qed

section \<open>The work on all drives\<close>

text \<open>The loops of \<open>Converge\<close> and the assignment between them; the rest of it leaves the tables alone.\<close>

lemma Converge_parts:
  assumes "Converge h osi cfg ds w = (Inr ds', w')"
    and "mapM (Drive_Converge h osi) ds w = (Inr ds1, w1)"
    and "UpdateDriveAssignments ds1 (SwiftIDPool cfg) osi w1 = (Inr ds2, w2)"
  obtains w3 where "mapM (converge_assigned h osi cfg) ds2 w2 = (Inr ds', w3)"
    and "tables (osst w') = tables (osst w3)"
proof -
  have rest: "frames tables (thenM (CheckForUnexpectedMounts osi ds3)
      (thenM (WriteDriveAudit h cfg ds3) (thenM (flag_ready h) (ret ds3))))" for ds3
    by (intro frames_intros)
  from assms(1) obtain ds3 w3 where p: "mapM (converge_assigned h osi cfg) ds2 w2 = (Inr ds3, w3)"
    and r: "thenM (CheckForUnexpectedMounts osi ds3)
      (thenM (WriteDriveAudit h cfg ds3) (thenM (flag_ready h) (ret ds3))) w3 = (Inr ds', w')"
    unfolding Converge_def bindM_Inr [where m = "mapM _ ds", OF assms(2)]
      bindM_Inr [where m = "UpdateDriveAssignments ds1 _ osi", OF assms(3)]
    by (rule bindM_InrE)
  from r have "ds3 = ds'" by (auto elim!: thenM_InrE)
  with p framesD [OF rest r] show ?thesis using that by blast
qed

lemma Update_frame: "frames tables (UpdateDriveAssignments ds pool osi)" "frames luks (UpdateDriveAssignments ds pool osi)"
  unfolding UpdateDriveAssignments_def Let_def by (auto intro!: frames_intros)

lemma reassigned_nth:
  assumes "reassigned ds es" and "i < length ds"
  shows "Device (es ! i) = Device (ds ! i)" and "Broken (es ! i) = Broken (ds ! i)"
    and "same_drive (ds ! i) (es ! i)" and "drive_within A (es ! i) = drive_within A (ds ! i)"
proof -
  from list_all2_nthD [OF assms(1) [unfolded reassigned_def] assms(2)]
  obtain a where "es ! i = (ds ! i)\<lparr>Assignment := a\<rparr>" by blast
  then show "Device (es ! i) = Device (ds ! i)" "Broken (es ! i) = Broken (ds ! i)"
    "same_drive (ds ! i) (es ! i)" "drive_within A (es ! i) = drive_within A (ds ! i)"
    by (simp_all add: drive_within_def)
qed

text \<open>What the second loop gets from the first one, drive by drive.\<close>

lemma loops_bottom:
  assumes "mapM (Drive_Converge h osi) ds w = (Inr ds1, w1)" and "reassigned ds1 ds2"
    and "mapM (converge_assigned h osi cfg) ds2 w2 = (Inr ds', w3)" and "i < length ds'" and "\<not> Broken (ds' ! i)"
  shows "\<not> Broken (ds1 ! i) \<and> bottom (ds' ! i) = bottom (ds1 ! i) \<and> DevicePath (ds' ! i) = DevicePath (ds1 ! i)"
proof -
  have i: "i < length ds2" "i < length ds1" "i < length ds"
    using assms(4) mapM_length [OF assms(3)] mapM_length [OF assms(1)]
      list_all2_lengthD [OF assms(2) [unfolded reassigned_def]] by simp_all
  have "list_all2 (\<lambda>d d'. \<exists>w w'. converge_assigned h osi cfg d w = (Inr d', w')) ds2 ds'"
    by (rule mapM_values [OF assms(3)]) blast
  from list_all2_nthD [OF this i(1)]
  obtain v v' where ca: "converge_assigned h osi cfg (ds2 ! i) v = (Inr (ds' ! i), v')" by blast
  with assms(5) have nb: "\<not> Broken (ds2 ! i)" by (auto simp: converge_assigned_def)
  with ca obtain v1 where c: "Drive_Converge h osi (ds2 ! i) v = (Inr (ds' ! i), v1)"
    by (auto simp: converge_assigned_def elim!: bindM_InrE thenM_InrE)
  have "list_all2 (\<lambda>d d'. \<exists>w w'. Drive_Converge h osi d w = (Inr d', w')) ds ds1"
    by (rule mapM_values [OF assms(1)]) blast
  from list_all2_nthD [OF this i(3)]
  obtain u u' where c1: "Drive_Converge h osi (ds ! i) u = (Inr (ds1 ! i), u')" by blast
  note same = reassigned_nth [OF assms(2) i(2)]
  from nb same have nb1: "\<not> Broken (ds1 ! i)" by simp
  from Drive_Converge_bottom(1) [OF c1 nb1] obtain dev x where
    "Device (ds1 ! i) = Some dev" "innermost dev = XFSDevice (bottom (ds1 ! i)) True x" by blast
  with Drive_Converge_bottom(2) [OF c assms(5)] same(1) have "bottom (ds' ! i) = bottom (ds1 ! i)" by simp
  moreover have "DevicePath (ds' ! i) = DevicePath (ds1 ! i)"
    using Drive_Converge_value [OF c] same(3) by (simp add: same_drive_def)
  ultimately show ?thesis using nb1 by simp
qed

lemma pass_converge:
  assumes "mapM (Drive_Converge h osi) ds w = (Inr ds', w')" and "allotting mounts ready luks A w"
    and "distinct (map DevicePath ds)" and o: "\<forall>d \<in> set ds. opens_within osi A (DevicePath d) (DriveID d) (Keys d)"
    and i: "\<forall>d \<in> set ds. drive_within A d"
    and p: "\<forall>d \<in> set ds. \<not> Broken d \<longrightarrow> owns A (DevicePath d) (MountPathAt d [])"
  shows "allotting mounts ready luks A w' \<and> (\<forall>d \<in> set ds'. drive_within A d) \<and>
    (\<forall>q sc. belongs A q \<notin> DevicePath ` set ds \<longrightarrow>
       mounts_of q (mounts (osst w') sc) = mounts_of q (mounts (osst w) sc)) \<and>
    (\<forall>d \<in> set ds'. \<not> Broken d \<longrightarrow> lone A (DevicePath d) (bottom d) (mounts (osst w)) \<longrightarrow>
       drive_mounted (mounts (osst w')) d \<and> lone A (DevicePath d) (bottom d) (mounts (osst w')))"
proof (rule pass [OF assms(1-3)])
  show "yields (apart A (DevicePath d) T) (Drive_Converge h osi d)
      (\<lambda>d'. drive_within A d' \<and> DevicePath d' = DevicePath d)" if "d \<in> set ds" for d T
    by (rule yields_Drive_Converge) (use that o i p in blast)+
  show "achieves d' w w'" if "Drive_Converge h osi d w = (Inr d', w')" "\<not> Broken d'" "ready (osst w)" for d d' w w'
    by (rule Drive_Converge_achieves [OF that])
  show "DevicePath d' = DevicePath d" if "Drive_Converge h osi d w = (Inr d', w')" for d d' w w'
    using Drive_Converge_value [OF that] by (simp add: same_drive_def)
qed

lemma pass_assigned:
  assumes "mapM (converge_assigned h osi cfg) ds w = (Inr ds', w')" and "allotting mounts ready luks A w"
    and "distinct (map DevicePath ds)" and o: "\<forall>d \<in> set ds. opens_within osi A (DevicePath d) (DriveID d) (Keys d)"
    and i: "\<forall>d \<in> set ds. drive_within A d"
    and p: "\<forall>d \<in> set ds. \<not> Broken d \<longrightarrow> owns A (DevicePath d) (MountPathAt d [])"
  shows "allotting mounts ready luks A w' \<and> (\<forall>d \<in> set ds'. drive_within A d) \<and>
    (\<forall>q sc. belongs A q \<notin> DevicePath ` set ds \<longrightarrow>
       mounts_of q (mounts (osst w') sc) = mounts_of q (mounts (osst w) sc)) \<and>
    (\<forall>d \<in> set ds'. \<not> Broken d \<longrightarrow> lone A (DevicePath d) (bottom d) (mounts (osst w)) \<longrightarrow>
       drive_mounted (mounts (osst w')) d \<and> lone A (DevicePath d) (bottom d) (mounts (osst w')))"
proof (rule pass [OF assms(1-3)])
  show "yields (apart A (DevicePath d) T) (converge_assigned h osi cfg d)
      (\<lambda>d'. drive_within A d' \<and> DevicePath d' = DevicePath d)" if "d \<in> set ds" for d T
    by (rule yields_converge_assigned) (use that o i p in blast)+
  show "achieves d' w w'" if "converge_assigned h osi cfg d w = (Inr d', w')" "\<not> Broken d'" "ready (osst w)"
    for d d' w w'
    by (rule converge_assigned_achieves [OF that])
  show "DevicePath d' = DevicePath d" if "converge_assigned h osi cfg d w = (Inr d', w')" for d d' w w'
    using converge_assigned_value [OF that] by (simp add: same_drive_def)
qed

text \<open>The drives between the two loops.\<close>

lemma between_loops:
  assumes 1: "mapM (Drive_Converge h osi) ds w = (Inr ds1, w1)" and r: "reassigned ds1 ds2"
  shows "length ds1 = length ds" and "length ds2 = length ds" and "map DevicePath ds2 = map DevicePath ds"
    and "d \<in> set ds2 \<Longrightarrow> \<exists>d0 \<in> set ds. same_drive d0 d"
proof -
  show len: "length ds1 = length ds" "length ds2 = length ds"
    using mapM_length [OF 1] list_all2_lengthD [OF r [unfolded reassigned_def]] by simp_all
  have same: "same_drive (ds ! i) (ds2 ! i)" if "i < length ds" for i
  proof -
    have "list_all2 same_drive ds ds1"
      by (rule mapM_values [OF 1]) (drule Drive_Converge_value, simp)
    from list_all2_nthD [OF this that] have "same_drive (ds ! i) (ds1 ! i)" .
    also have "same_drive (ds1 ! i) (ds2 ! i)" using reassigned_nth(3) [OF r] len that by simp
    finally (same_drive_trans) show ?thesis .
  qed
  then show "map DevicePath ds2 = map DevicePath ds"
    by (intro nth_equalityI) (simp_all add: len same_drive_def)
  show "\<exists>d0 \<in> set ds. same_drive d0 d" if "d \<in> set ds2"
  proof -
    from that obtain i where "i < length ds" "ds2 ! i = d" using len by (auto simp: in_set_conv_nth)
    with same [of i] show ?thesis by (intro bexI [of _ "ds ! i"]) simp_all
  qed
qed

lemma Converge_all_mounted:
  assumes c: "Converge h osi cfg ds w = (Inr ds', w')"
    and 1: "mapM (Drive_Converge h osi) ds w = (Inr ds1, w1)"
    and 2: "UpdateDriveAssignments ds1 (SwiftIDPool cfg) osi w1 = (Inr ds2, w2)"
    and alloc: "allotting mounts ready luks A w" and dist: "distinct (map DevicePath ds)"
    and opens: "\<forall>d \<in> set ds. opens_within osi A (DevicePath d) (DriveID d) (Keys d)"
    and within: "\<forall>d \<in> set ds. drive_within A d"
    and places: "\<forall>d \<in> set ds \<union> set ds2. \<not> Broken d \<longrightarrow> owns A (DevicePath d) (MountPathAt d [])"
    and alone: "\<forall>d \<in> set ds'. \<not> Broken d \<longrightarrow> lone A (DevicePath d) (bottom d) (mounts (osst w))"
  shows "(\<forall>d \<in> set ds'. \<not> Broken d \<longrightarrow> drive_mounted (mounts (osst w')) d) \<and>
    (\<forall>q sc. belongs A q \<notin> DevicePath ` set ds \<longrightarrow>
       mounts_of q (mounts (osst w') sc) = mounts_of q (mounts (osst w) sc))"
proof -
  from Converge_parts [OF c 1 2] obtain w3 where 3: "mapM (converge_assigned h osi cfg) ds2 w2 = (Inr ds', w3)"
    and t3: "mounts (osst w') = mounts (osst w3)" by auto
  have r: "reassigned ds1 ds2" by (rule Update_reassigned [OF 2])
  from framesD [OF Update_frame(1) 2] framesD [OF Update_frame(2) 2]
  have t2: "mounts (osst w2) = mounts (osst w1)" "ready (osst w2) = ready (osst w1)" "luks (osst w2) = luks (osst w1)"
    by simp_all
  note ds2 = between_loops [OF 1 r]
  have len: "length ds1 = length ds" "length ds2 = length ds" "length ds' = length ds"
    using ds2(1,2) mapM_length [OF 3] by simp_all
  have P1: "allotting mounts ready luks A w1" "\<forall>d \<in> set ds1. drive_within A d"
    "\<And>q sc. belongs A q \<notin> DevicePath ` set ds \<Longrightarrow> mounts_of q (mounts (osst w1) sc) = mounts_of q (mounts (osst w) sc)"
    "\<And>d. d \<in> set ds1 \<Longrightarrow> \<not> Broken d \<Longrightarrow> lone A (DevicePath d) (bottom d) (mounts (osst w)) \<Longrightarrow>
       lone A (DevicePath d) (bottom d) (mounts (osst w1))"
    using pass_converge [OF 1 alloc dist opens within] places by simp_all
  have opens2: "\<forall>d \<in> set ds2. opens_within osi A (DevicePath d) (DriveID d) (Keys d)"
    using opens ds2(4) by (fastforce simp: same_drive_def)
  have within2: "\<forall>d \<in> set ds2. drive_within A d"
    using P1(2) reassigned_nth(4) [OF r] len by (metis in_set_conv_nth)
  have alloc2: "allotting mounts ready luks A w2" using P1(1) t2 by (simp add: allotting_def)
  have P2: "\<And>q sc. belongs A q \<notin> DevicePath ` set ds2 \<Longrightarrow> mounts_of q (mounts (osst w3) sc) = mounts_of q (mounts (osst w2) sc)"
    "\<And>d. d \<in> set ds' \<Longrightarrow> \<not> Broken d \<Longrightarrow> lone A (DevicePath d) (bottom d) (mounts (osst w2)) \<Longrightarrow>
       drive_mounted (mounts (osst w3)) d"
    using pass_assigned [OF 3 alloc2 _ opens2 within2] ds2(3) dist places by simp_all
  have "drive_mounted (mounts (osst w')) d" if d: "d \<in> set ds'" "\<not> Broken d" for d
  proof -
    from d(1) obtain i where i: "i < length ds'" "ds' ! i = d" by (auto simp: in_set_conv_nth)
    with loops_bottom [OF 1 r 3 i(1)] d(2) have same: "\<not> Broken (ds1 ! i)" "bottom d = bottom (ds1 ! i)"
      "DevicePath d = DevicePath (ds1 ! i)" by simp_all
    have "ds1 ! i \<in> set ds1" using i(1) len by simp
    moreover from alone d have "lone A (DevicePath d) (bottom d) (mounts (osst w))" by blast
    ultimately have "lone A (DevicePath d) (bottom d) (mounts (osst w1))"
      using P1(4) [OF _ same(1)] same(2,3) by metis
    with P2(2) [OF d] t2 t3 show ?thesis by simp
  qed
  moreover have "mounts_of q (mounts (osst w') sc) = mounts_of q (mounts (osst w) sc)"
    if "belongs A q \<notin> DevicePath ` set ds" for q sc
    using P1(3) [OF that] P2(1) [of q sc] that arg_cong [OF ds2(3), of set] t2 t3 by simp
  ultimately show ?thesis by blast
qed

end

end
