(* ===== verification/Linux_Contract.thy ===== *)
theory Linux_Contract
  imports Linux Core_Pass
begin

text \<open>
  The implementation of \<open>os.Interface\<close> by \<open>struct Linux\<close> honours the contracts of theory
  \<open>Os_Contract\<close> on every host: the interpretation \<open>lin\<close> of both locales, which carries
  the lemmas of the core over to the autopilot as it runs in production.
\<close>

section \<open>The contracts hold\<close>

definition luks_view :: "linux \<Rightarrow> string \<Rightarrow> string" where
  "luks_view l p = (case mappings l p of None \<Rightarrow> [] | Some q \<Rightarrow> q)"

lemma linux_mount_returns:
  assumes "ready (osst w)" shows "\<exists>ok w'. linux_MountDevice h p mp sc w = (Inr ok, w')"
proof -
  obtain r w' where "linux_MountDevice h p mp sc w = (r, w')" by fastforce
  moreover from this assms have "\<exists>ok. r = Inr ok" by (rule linux_MountDevice_cases) auto
  ultimately show ?thesis by auto
qed

lemma linux_unmount_returns:
  assumes "ready (osst w)" shows "\<exists>ok w'. linux_UnmountDevice h x sc w = (Inr ok, w')"
proof -
  obtain r w' where "linux_UnmountDevice h x sc w = (r, w')" by fastforce
  moreover from this assms have "\<exists>ok. r = Inr ok" by (rule linux_UnmountDevice_cases) auto
  ultimately show ?thesis by auto
qed

lemma linux_mount_table:
  assumes "linux_MountDevice h p mp sc w = (r, w')" and "ready (osst w)"
  shows "active (osst w') sc' = active (osst w) sc' \<or>
    (\<exists>m. mp_DevicePath m = p \<and> mp_MountPath m = mp \<and>
         active (osst w') sc' = active (osst w) sc' @ [m])"
  using assms by (cases rule: linux_MountDevice_cases) (auto simp: active_edited)

lemma linux_mount_ok:
  assumes "linux_MountDevice h p mp sc w = (Inr True, w')" and "ready (osst w)"
  shows "mp \<in> set (dev_paths p (active (osst w') sc))"
  using assms by (cases rule: linux_MountDevice_cases) (auto simp: active_edited mem_dev_paths)

lemma unmounted_at_absent: "\<forall>m \<in> set ms. mp_MountPath m \<noteq> x \<Longrightarrow> unmounted_at x ms ms"
  by (auto simp: unmounted_at_def)

lemma linux_unmount_ok:
  assumes "linux_UnmountDevice h x sc w = (Inr True, w')" and "ready (osst w)"
  shows "unmounted_at x (active (osst w) sc) (active (osst w') sc)"
  using assms
  by (cases rule: linux_UnmountDevice_cases)
     (simp_all add: active_edited removeMountPoint_unmounted_at unmounted_at_absent)

lemma linux_unmount_table:
  assumes "linux_UnmountDevice h x sc w = (r, w')" and "ready (osst w)"
  shows "active (osst w') sc' = active (osst w) sc' \<or>
    unmounted_at x (active (osst w) sc') (active (osst w') sc')"
  using assms
  by (cases rule: linux_UnmountDevice_cases)
     (auto simp: active_edited removeMountPoint_unmounted_at)

lemma frames_OpenLUKS: "frames (\<lambda>s. (active s, ready s)) (linux_OpenLUKSContainer h p n ks)"
  unfolding frames_def
proof
  fix w
  obtain q ok w' where o: "linux_OpenLUKSContainer h p n ks w = (Inr (q, ok), w')"
    by (rule returnsE [OF returns_OpenLUKSContainer]) auto
  from linux_OpenLUKSContainer_effect [OF this]
  show "(active (osst (snd (linux_OpenLUKSContainer h p n ks w))),
         ready (osst (snd (linux_OpenLUKSContainer h p n ks w)))) = (active (osst w), ready (osst w))"
    by (auto simp: o ready_def split: if_splits)
qed

lemma linux_mount_luks: "frames luks_view (linux_MountDevice h p mp sc)"
proof -
  have set: "frames luks_view (set_active sc ms)" for sc ms
    unfolding set_active_def frames_def
    by (auto simp: io_defs luks_view_def mappings_def split: option.split)
  have edit: "frames luks_view (edit_active sc f)" for sc f
    unfolding edit_active_def by (intro frames_intros set) (auto simp: frames_def)
  show ?thesis
    unfolding linux_MountDevice_def
    by (auto intro!: frames_intros edit framesI [of "Run _ _ _"] framesI [of get_os] keeps_intros)
qed

lemma linux_unmount_luks: "frames luks_view (linux_UnmountDevice h x sc)"
proof -
  have set: "frames luks_view (set_active sc ms)" for sc ms
    unfolding set_active_def frames_def
    by (auto simp: io_defs luks_view_def mappings_def split: option.split)
  have edit: "frames luks_view (edit_active sc f)" for sc f
    unfolding edit_active_def by (intro frames_intros set) (auto simp: frames_def)
  show ?thesis
    unfolding linux_UnmountDevice_def
    by (auto intro!: frames_intros edit framesI [of "Run _ _ _"] framesI [of get_os] keeps_intros)
qed

interpretation lin: os_contract "linux_osi h" active ready luks_view for h
proof (unfold_locales, goal_cases)
  case (1 p sc w)
  show ?case by (simp add: linux_osi_def linux_GetMountPointsOf_def io_defs mounts_of_def)
next
  case (2 p sc w)
  show ?case by (auto simp: linux_osi_def linux_GetMountPointsIn_def io_defs Let_def)
next
  case (3 w p mp sc)
  then show ?case by (simp add: linux_osi_def linux_mount_returns)
next
  case (4 p mp sc w r w')
  from 4(1)[unfolded linux_osi_def, simplified] 4(2) show ?case
    by (cases rule: linux_MountDevice_cases) (use 4(2) in simp_all)
next
  case (5 p mp sc w r w' sc')
  then show ?case by (simp add: linux_osi_def linux_mount_table)
next
  case (6 p mp sc w w')
  then show ?case by (simp add: linux_osi_def linux_mount_ok)
next
  case (7 w x sc)
  then show ?case by (simp add: linux_osi_def linux_unmount_returns)
next
  case (8 x sc w r w')
  from 8(1)[unfolded linux_osi_def, simplified] 8(2) show ?case
    by (cases rule: linux_UnmountDevice_cases) (use 8(2) in simp_all)
next
  case (9 x sc w w')
  then show ?case by (simp add: linux_osi_def linux_unmount_ok)
next
  case (10 x sc w r w' sc')
  then show ?case by (simp add: linux_osi_def linux_unmount_table)
next
  case (19 p w)
  show ?case by (simp add: linux_osi_def linux_GetLUKSMappingOf_def io_defs luks_view_def)
next
  case (23 p name ks)
  show ?case by (simp add: linux_osi_def frames_OpenLUKS)
next
  case (24 p name ks w q ok w')
  then have "linux_OpenLUKSContainer h p name ks w = (Inr (q, ok), w')"
    by (simp add: linux_osi_def)
  from linux_OpenLUKSContainer_effect [OF this] show ?case
    by (auto simp: luks_view_def fun_eq_iff)
next
  case (29 p mp sc)
  show ?case by (simp add: linux_osi_def linux_mount_luks)
next
  case (30 x sc)
  show ?case by (simp add: linux_osi_def linux_unmount_luks)
qed (auto simp: linux_osi_def intro!: returns_intros framesI keeps_intros)

text \<open>A container is opened under its name below /dev/mapper, whatever device it is in.\<close>

lemma linux_opens_within:
  "belongs A (dev_mapper name) = D \<Longrightarrow> opens_within (linux_osi h) A D name ks"
  by (auto simp: opens_within_def part_def linux_osi_def dest: linux_OpenLUKSContainer_effect)

text \<open>Reading a file changes nothing, so that the swift-ids read are those in the files at the time.\<close>

lemma linux_reads_as:
  assumes "\<And>p k. snd (sys_readfile h p k) = k"
  shows "reads_as (linux_osi h) (\<lambda>p. case fst (sys_readfile h (swiftIDPathIn p) (kern w)) of
      Inr buf \<Rightarrow> Inr (TrimSpace buf) | Inl (NotExist _) \<Rightarrow> Inr [] | Inl e \<Rightarrow> Inl e) w"
proof (rule reads_asI)
  fix p and v :: "'a lworld"
  show "snd (ReadSwiftID (linux_osi h) p v) = v"
    using assms [of "swiftIDPathIn p" "kern v"]
    by (cases "sys_readfile h (swiftIDPathIn p) (kern v)")
       (simp add: linux_osi_def linux_ReadSwiftID_def bindM_def sysM_def)
next
  fix p ls
  show "\<exists>w2. ReadSwiftID (linux_osi h) p (w\<lparr>logs := ls\<rparr>) =
      (Inr (case fst (sys_readfile h (swiftIDPathIn p) (kern w)) of
        Inr buf \<Rightarrow> Inr (TrimSpace buf) | Inl (NotExist _) \<Rightarrow> Inr [] | Inl e \<Rightarrow> Inl e), w2)"
    by (cases "sys_readfile h (swiftIDPathIn p) (kern w)")
       (simp add: linux_osi_def linux_ReadSwiftID_def bindM_def sysM_def)
qed

end
