(* ===== verification/Core_Invariant.thy ===== *)
theory Core_Invariant
  imports Converger
begin

text \<open>
  Invariants of the operating system layer: when each of its operations keeps a property of
  its private state, whether it returns or ends the process, then so does everything that
  the core and the converger do with it.
\<close>

lemma keeps_Pair_Inl [keeps_intros]: "keeps I (Pair (Inl e))"
  by (simp add: keeps_def)

lemma keeps_update_firstM [keeps_intros]:
  "(\<And>x. x \<in> set xs \<Longrightarrow> keeps I (f x)) \<Longrightarrow> keeps I (update_firstM P f xs)"
  by (induction xs) (auto intro!: keeps_intros)

lemma keeps_XFS_Validate_mounts [keeps_intros]: "keeps (\<lambda>w. P (osst w)) (XFS_Validate_mounts p sc ms mp)"
  by (induction p sc ms mp rule: XFS_Validate_mounts.induct) (auto intro!: keeps_intros)

locale os_invariant =
  fixes osi :: "('k, 's) world os_interface"
    and J :: "'s \<Rightarrow> bool"
  assumes classify_keeps: "keeps (\<lambda>w. J (osst w)) (ClassifyDevice osi p)"
    and format_keeps: "keeps (\<lambda>w. J (osst w)) (FormatDevice osi p)"
    and mount_keeps: "keeps (\<lambda>w. J (osst w)) (MountDevice osi p x sc)"
    and unmount_keeps: "keeps (\<lambda>w. J (osst w)) (UnmountDevice osi x sc)"
    and refresh_mounts_keeps: "keeps (\<lambda>w. J (osst w)) (RefreshMountPoints osi)"
    and get_in_keeps: "keeps (\<lambda>w. J (osst w)) (GetMountPointsIn osi x sc)"
    and get_of_keeps: "keeps (\<lambda>w. J (osst w)) (GetMountPointsOf osi p sc)"
    and create_keeps: "keeps (\<lambda>w. J (osst w)) (CreateLUKSContainer osi p key)"
    and open_keeps: "keeps (\<lambda>w. J (osst w)) (OpenLUKSContainer osi p n ks)"
    and close_keeps: "keeps (\<lambda>w. J (osst w)) (CloseLUKSContainer osi n)"
    and refresh_luks_keeps: "keeps (\<lambda>w. J (osst w)) (RefreshLUKSMappings osi)"
    and get_luks_keeps: "keeps (\<lambda>w. J (osst w)) (GetLUKSMappingOf osi p)"
    and read_id_keeps: "keeps (\<lambda>w. J (osst w)) (ReadSwiftID osi x)"
    and write_id_keeps: "keeps (\<lambda>w. J (osst w)) (WriteSwiftID osi x i)"
    and chown_keeps: "keeps (\<lambda>w. J (osst w)) (Chown osi x u g)"
begin

lemmas os_keeps = classify_keeps format_keeps mount_keeps unmount_keeps refresh_mounts_keeps get_in_keeps
  get_of_keeps create_keeps open_keeps close_keeps refresh_luks_keeps get_luks_keeps read_id_keeps
  write_id_keeps chown_keeps

lemma newDevice_keeps: "keeps (\<lambda>w. J (osst w)) (newDevice osi p b)"
  unfolding newDevice_def by (auto split: DeviceType.splits intro!: keeps_intros os_keeps)

subsection \<open>Filesystems and containers\<close>

lemma XFS_Validate_keeps: "keeps (\<lambda>w. J (osst w)) (XFS_Validate osi p mp)"
  unfolding XFS_Validate_def XFS_Validate_scope_def
  by (auto split: prod.splits intro!: keeps_intros os_keeps)

lemma XFS_Setup_keeps: "keeps (\<lambda>w. J (osst w)) (XFS_Setup h osi drv p f mp)"
  unfolding XFS_Setup_def XFS_Format_def unmount_others_def clear_unmount_propagation_def Let_def
  by (auto split: prod.splits option.splits os_error.splits intro!: keeps_intros os_keeps XFS_Validate_keeps)

lemma XFS_Teardown_keeps: "keeps (\<lambda>w. J (osst w)) (XFS_Teardown h osi drv p f mp)"
  unfolding XFS_Teardown_def unmount_all_def propagate_unmount_def
  by (auto intro!: keeps_intros os_keeps)

lemma LUKS_Validate_keeps:
  assumes "\<And>m. keeps (\<lambda>w. J (osst w)) (V m)"
  shows "keeps (\<lambda>w. J (osst w)) (LUKS_Validate V osi p mapped)"
  unfolding LUKS_Validate_def luks_discover_def luks_not_mounted_def
  by (auto split: prod.splits option.splits intro!: keeps_intros os_keeps newDevice_keeps assms)

lemma Device_Validate_keeps: "keeps (\<lambda>w. J (osst w)) (Device_Validate n osi d)"
proof (induction n arbitrary: d)
  case 0
  then show ?case by (cases d) (auto split: prod.splits intro!: keeps_intros XFS_Validate_keeps)
next
  case (Suc n)
  then show ?case
    by (cases d) (auto split: prod.splits intro!: keeps_intros XFS_Validate_keeps LUKS_Validate_keeps)
qed

lemma LUKS_Setup_keeps:
  assumes "\<And>m. keeps (\<lambda>w. J (osst w)) (V m)" and "\<And>m. keeps (\<lambda>w. J (osst w)) (S m)"
  shows "keeps (\<lambda>w. J (osst w)) (LUKS_Setup V S osi drv p f mapped n)"
  unfolding LUKS_Setup_def LUKS_Format_def LUKS_Open_def
  by (auto split: prod.splits option.splits
      intro!: keeps_intros os_keeps newDevice_keeps LUKS_Validate_keeps assms)

lemma Device_Setup_keeps: "keeps (\<lambda>w. J (osst w)) (Device_Setup n h osi drv d)"
proof (induction n arbitrary: d)
  case 0
  then show ?case by (cases d) (auto intro!: keeps_intros XFS_Setup_keeps)
next
  case (Suc n)
  then show ?case by (cases d) (auto intro!: XFS_Setup_keeps LUKS_Setup_keeps Device_Validate_keeps)
qed

lemma LUKS_Close_keeps: "keeps (\<lambda>w. J (osst w)) (LUKS_Close osi p f n)"
  unfolding LUKS_Close_def by (auto intro!: keeps_intros os_keeps)

lemma Device_Teardown_keeps: "keeps (\<lambda>w. J (osst w)) (Device_Teardown h osi drv d)"
proof (induction d)
  case (LUKSDevice p f mapped n)
  then show ?case
    by (cases mapped) (auto split: prod.splits intro!: keeps_intros LUKS_Close_keeps)
qed (simp add: XFS_Teardown_keeps)

subsection \<open>Drives\<close>

lemma MarkAsBroken_keeps: "keeps (\<lambda>w. J (osst w)) (MarkAsBroken h d)"
  unfolding MarkAsBroken_def Let_def by (auto intro!: keeps_intros)

lemma teardown_device_keeps: "keeps (\<lambda>w. J (osst w)) (teardown_device h osi d)"
  unfolding teardown_device_def
  by (auto split: option.splits intro!: keeps_intros Device_Teardown_keeps)

lemma Drive_Converge_keeps: "keeps (\<lambda>w. J (osst w)) (Drive_Converge h osi d)"
  unfolding Drive_Converge_def Let_def
  by (auto split: option.splits prod.splits
      intro!: keeps_intros teardown_device_keeps Device_Setup_keeps MarkAsBroken_keeps)

lemma Drive_Teardown_keeps: "keeps (\<lambda>w. J (osst w)) (Drive_Teardown h osi d)"
  unfolding Drive_Teardown_def by (auto intro!: keeps_intros teardown_device_keeps)

lemma check_broken_flag_keeps: "keeps (\<lambda>w. J (osst w)) (check_broken_flag h p d)"
  unfolding check_broken_flag_def
  by (auto split: sum.splits os_error.splits intro!: keeps_intros MarkAsBroken_keeps)

lemma NewDrive_keeps: "keeps (\<lambda>w. J (osst w)) (NewDrive h osi p s ks)"
  unfolding NewDrive_def ensure_drive_id_def Let_def
  by (auto intro!: keeps_intros newDevice_keeps check_broken_flag_keeps)

subsection \<open>Assignments\<close>

lemma apply_at_keeps: "keeps (\<lambda>w. J (osst w)) (apply_at a i st)"
  unfolding apply_at_def Apply_def Let_def by (auto intro!: keeps_intros)

lemma scan_drive_keeps: "keeps (\<lambda>w. J (osst w)) (scan_drive osi pool b i st)"
  unfolding scan_drive_def scan_swift_id_def Let_def
  by (auto split: sum.splits option.splits intro!: keeps_intros os_keeps apply_at_keeps)

lemma auto_assign_keeps: "keeps (\<lambda>w. J (osst w)) (auto_assign osi pool i acc)"
  unfolding auto_assign_def Let_def Apply_def
  by (auto split: prod.splits option.splits intro!: keeps_intros os_keeps)

lemma Update_keeps: "keeps (\<lambda>w. J (osst w)) (UpdateDriveAssignments ds pool osi)"
  unfolding UpdateDriveAssignments_def Let_def
  by (auto split: prod.splits intro!: keeps_intros scan_drive_keeps auto_assign_keeps)

subsection \<open>The converger\<close>

lemma Handle_keeps: "keeps (\<lambda>w. J (osst w)) (Handle h osi cfg e ds)"
  by (cases e) (auto split: list.splits
      intro!: keeps_intros NewDrive_keeps Drive_Converge_keeps Drive_Teardown_keeps MarkAsBroken_keeps)

lemma Converge_keeps: "keeps (\<lambda>w. J (osst w)) (Converge h osi cfg ds)"
  unfolding Converge_def converge_assigned_def CheckForUnexpectedMounts_def WriteDriveAudit_def flag_ready_def
  by (auto split: option.splits intro!: keeps_intros os_keeps Drive_Converge_keeps Update_keeps)

lemma converger_iteration_keeps: "keeps (\<lambda>w. J (osst w)) (converger_iteration h osi cfg es c)"
  unfolding converger_iteration_def handle_event_def Let_def
  by (auto intro!: keeps_intros os_keeps Handle_keeps Converge_keeps)

lemma RunConverger_keeps: "keeps (\<lambda>w. J (osst w)) (RunConverger h osi cfg queue)"
  unfolding RunConverger_def by (auto intro!: keeps_intros converger_iteration_keeps)

end

end
