(* ===== verification/Linux_Tables.thy ===== *)
theory Linux_Tables
  imports Linux_Contract Core_Invariant
begin

text \<open>
  The tables of mounts of \<open>struct Linux\<close>: unless the mount namespaces are separate, the lists
  for the two scopes are always the same, and the mode never changes. Another
  interpretation of the operating system layer, this time of \<open>os_invariant\<close>.
\<close>

definition mirrored :: "MountPropagationMode \<Rightarrow> linux \<Rightarrow> bool" where
  "mirrored mode l \<longleftrightarrow>
     PropagationMode l = mode \<and>
     (mode \<noteq> SeparateMountNamespaces \<longrightarrow> active l HostScope = active l LocalScope)"

lemma mirrored_luks [simp]: "mirrored mode (l\<lparr>ActiveLUKSMappings := m\<rparr>) = mirrored mode l"
  by (simp add: mirrored_def active_def)

lemma keeps_get_put:
  assumes "\<And>l. P l \<Longrightarrow> P (g l)"
  shows "keeps (\<lambda>w. P (osst w)) (bindM get_os (\<lambda>l. put_os (g l)))"
  using assms by (simp add: keeps_def bindM_def)

lemma keeps_get_put_then:
  assumes "\<And>l. P l \<Longrightarrow> P (g l)" and "keeps (\<lambda>w. P (osst w)) m"
  shows "keeps (\<lambda>w. P (osst w)) (bindM get_os (\<lambda>l. thenM (put_os (g l)) m))"
  using assms by (simp add: keeps_def bindM_def thenM_def)

lemma set_active_mode: "PropagationMode (osst (snd (set_active sc ms w))) = PropagationMode (osst w)"
  by (simp add: set_active_def bindM_def split: option.splits)

lemma keeps_set_active: "keeps (\<lambda>w. PropagationMode (osst w) = mode) (set_active sc ms)"
  by (simp add: keeps_def set_active_mode)

lemma edit_active_mirrored: "keeps (\<lambda>w. mirrored mode (osst w)) (edit_active scope f)"
  unfolding keeps_def
proof (intro allI impI)
  fix w :: "'k lworld" assume m: "mirrored mode (osst w)"
  show "mirrored mode (osst (snd (edit_active scope f w)))"
  proof (cases "ready (osst w)")
    case True
    with m edit_active_run [OF this, of scope f] show ?thesis
      by (auto simp: mirrored_def edited_def mountScopesAreSeparate_def active_def)
  next
    case False
    then have "ActiveMountPoints (osst w) = None" by (simp add: ready_def)
    with m show ?thesis
      by (simp add: edit_active_def set_active_def io_defs split: if_splits)
  qed
qed

lemma keeps_collectMountPoints: "keeps (\<lambda>w. P (osst w)) (collectMountPoints h scope)"
  unfolding collectMountPoints_def by (auto split: prod.splits sum.splits intro!: keeps_intros)

lemma RefreshMountPoints_mirrored: "keeps (\<lambda>w. mirrored mode (osst w)) (linux_RefreshMountPoints h)"
proof (cases "mode = SeparateMountNamespaces")
  case True
  have "keeps (\<lambda>w. PropagationMode (osst w) = mode) (bindM get_os (\<lambda>l.
      thenM (put_os (l\<lparr>ActiveMountPoints := x\<rparr>))
        (if mountScopesAreSeparate l then bindM (collectMountPoints h HostScope) (set_active HostScope)
         else set_active HostScope ms)))" for x ms
    unfolding keeps_def
  proof (intro allI impI)
    fix w :: "'a lworld" assume m: "PropagationMode (osst w) = mode"
    let ?w = "w\<lparr>osst := (osst w)\<lparr>ActiveMountPoints := x\<rparr>\<rparr>"
    have c: "keeps (\<lambda>w. PropagationMode (osst w) = mode) (bindM (collectMountPoints h HostScope) (set_active HostScope))"
      by (rule keeps_bindM [OF keeps_collectMountPoints keeps_set_active])
    have "PropagationMode (osst ?w) = mode" using m by simp
    with c
    have "PropagationMode (osst (snd ((if mountScopesAreSeparate (osst w)
        then bindM (collectMountPoints h HostScope) (set_active HostScope) else set_active HostScope ms) ?w))) = mode"
      unfolding keeps_def by (simp add: set_active_mode m)
    then show "PropagationMode (osst (snd (bindM get_os (\<lambda>l.
      thenM (put_os (l\<lparr>ActiveMountPoints := x\<rparr>))
        (if mountScopesAreSeparate l then bindM (collectMountPoints h HostScope) (set_active HostScope)
         else set_active HostScope ms)) w))) = mode"
      by (simp add: bindM_def [of get_os] thenM_def bindM_def [of "put_os _"])
  qed
  then have "keeps (\<lambda>w. PropagationMode (osst w) = mode) (linux_RefreshMountPoints h)"
    unfolding linux_RefreshMountPoints_def by (intro keeps_bindM [OF keeps_collectMountPoints])
  with True show ?thesis by (simp add: mirrored_def)
next
  case False
  have "keeps (\<lambda>w. mirrored mode (osst w)) (bindM get_os (\<lambda>l.
      thenM (put_os (l\<lparr>ActiveMountPoints := Some ((\<lambda>_. [])(LocalScope := ms))\<rparr>))
        (if mountScopesAreSeparate l then bindM (collectMountPoints h HostScope) (set_active HostScope)
         else set_active HostScope ms)))" for ms
    using False
    by (simp add: keeps_def mirrored_def bindM_def [of get_os] thenM_def bindM_def [of "put_os _"]
        mountScopesAreSeparate_def set_active_def active_def)
  then show ?thesis
    unfolding linux_RefreshMountPoints_def by (intro keeps_bindM [OF keeps_collectMountPoints])
qed

lemma add_mapping_mirrored: "keeps (\<lambda>w. mirrored mode (osst w)) (add_mapping k v)"
  unfolding add_mapping_def by (rule keeps_get_put) simp

lemma OpenLUKSContainer_mirrored: "keeps (\<lambda>w. mirrored mode (osst w)) (linux_OpenLUKSContainer h p n ks)"
  by (induction ks) (auto split: prod.splits intro!: keeps_intros add_mapping_mirrored)

lemma getBackingDevicePath_keeps: "keeps (\<lambda>w. P (osst w)) (getBackingDevicePath h n)"
  unfolding getBackingDevicePath_def must_Return_def
  by (auto split: prod.splits option.splits sum.splits intro!: keeps_intros)

lemma RefreshLUKSMappings_mirrored: "keeps (\<lambda>w. mirrored mode (osst w)) (linux_RefreshLUKSMappings h)"
proof -
  have line: "keeps (\<lambda>w. mirrored mode (osst w)) (refresh_mapping_line h out line)" for out line
    unfolding refresh_mapping_line_def
    by (auto split: list.splits sum.splits option.splits
        intro!: keeps_intros add_mapping_mirrored getBackingDevicePath_keeps)
  have lsblk: "keeps (\<lambda>w. P (osst w)) (run_lsblk h)" for P
    unfolding run_lsblk_def by (auto split: sum.splits intro!: keeps_intros)
  show ?thesis
    unfolding linux_RefreshLUKSMappings_def
    by (intro keeps_bindM lsblk keeps_get_put_then)
       (auto split: prod.splits intro!: keeps_intros line)
qed

interpretation tables: os_invariant "linux_osi h" "mirrored mode"
proof unfold_locales
  show "keeps (\<lambda>w. mirrored mode (osst w)) (MountDevice (linux_osi h) p x sc)" for p x sc
    by (auto simp: linux_osi_def linux_MountDevice_def intro!: keeps_intros edit_active_mirrored)
  show "keeps (\<lambda>w. mirrored mode (osst w)) (UnmountDevice (linux_osi h) x sc)" for x sc
    by (auto simp: linux_osi_def linux_UnmountDevice_def intro!: keeps_intros edit_active_mirrored)
qed (auto simp: linux_osi_def linux_GetMountPointsIn_def linux_GetMountPointsOf_def linux_GetLUKSMappingOf_def
    Let_def
    intro!: keeps_intros RefreshMountPoints_mirrored OpenLUKSContainer_mirrored RefreshLUKSMappings_mirrored)

end
