(* ===== verification/Linux_Tools.thy ===== *)
theory Linux_Tools
  imports Linux_Tables Converger
begin

text \<open>
  What the tools and the kernel of a machine in order answer: conditions on the functions of the
  record \<open>host\<close> alone, from which it follows that the operations of \<open>struct Linux\<close> never end
  the process. The \<open>rank\<close> of a path is how deep containers are nested in the device.
\<close>

section \<open>The answers of the tools\<close>

text \<open>A command exits with status 0, whatever the state of the machine, and prints something that
  satisfies \<open>P\<close>.\<close>

definition prints :: "'k host \<Rightarrow> command \<Rightarrow> string list \<Rightarrow> (string \<Rightarrow> bool) \<Rightarrow> bool" where
  "prints h c cmd P \<longleftrightarrow>
     (\<forall>k. let r = fst (sys_exec h (command_argv h c cmd) (Stdin c) k)
          in exec_err r = None \<and> P (exec_stdout r))"

text \<open>\<open>file\<close> answers for every device, so none is unreadable.\<close>

definition file_answers :: "'k host \<Rightarrow> bool" where
  "file_answers h \<longleftrightarrow>
     (\<forall>p. prints h (Command0\<lparr>NoChroot := True\<rparr>) [''file'', ''-bLs'', TrimPrefix p ''/''] (\<lambda>_. True))"

text \<open>\<open>mount\<close> prints no line "<device> on <mountpoint>" that ends before the options.\<close>

definition complete_line :: "string \<Rightarrow> bool" where
  "complete_line line \<longleftrightarrow>
     (let words = Split CHR 0x20 line in length words < 3 \<or> words ! 1 \<noteq> ''on'' \<or> length words \<ge> 6)"

definition mount_answers :: "'k host \<Rightarrow> bool" where
  "mount_answers h \<longleftrightarrow>
     (\<forall>sc. prints h ((scoped_command sc)\<lparr>ExitOnError := True\<rparr>) [''mount'']
             (\<lambda>out. \<forall>line \<in> set (Split CHR ''\<newline>'' out). complete_line line))"

text \<open>The links in a path can be resolved. The mapping called \<open>name\<close> lies deeper than its backing
  device \<open>p\<close>, by whatever name that device goes.\<close>

definition absolute :: "string \<Rightarrow> string" where
  "absolute p = (if HasPrefix p ''/'' then p else ''/'' @ p)"

definition resolves :: "'k host \<Rightarrow> string \<Rightarrow> (string \<Rightarrow> bool) \<Rightarrow> bool" where
  "resolves h p P \<longleftrightarrow>
     (\<forall>k. \<exists>q. fst (sys_evalsymlinks h (TrimPrefix p ''/'') k) = Inr q \<and> P (absolute q))"

definition backs :: "'k host \<Rightarrow> (string \<Rightarrow> nat) \<Rightarrow> string \<Rightarrow> string \<Rightarrow> bool" where
  "backs h rank name p \<longleftrightarrow>
     rank (dev_mapper name) < rank p \<and> resolves h p (\<lambda>q. rank (dev_mapper name) < rank q)"

text \<open>\<open>lsblk\<close> prints JSON, and every device that holds a LUKS mapping is of a type that the
  program knows (C32 is about devices of other types).\<close>

definition lsblk_answers :: "'k host \<Rightarrow> (string \<Rightarrow> nat) \<Rightarrow> bool" where
  "lsblk_answers h rank \<longleftrightarrow>
     prints h (Command0\<lparr>ExitOnError := True\<rparr>) [''lsblk'', ''-J'']
       (\<lambda>out. \<exists>devs. json_lsblk h out = Inr devs \<and>
          (\<forall>d \<in> set (preorders devs). \<forall>name. holds_mapping name d \<longrightarrow>
             (\<exists>p. lsblk_devicePath d = Inr p \<and> backs h rank name p)))"

text \<open>\<open>dmsetup\<close> answers, and \<open>cryptsetup status\<close> names the backing device of every mapping that
  \<open>dmsetup\<close> lists, or says that there is none.\<close>

definition status_answers :: "'k host \<Rightarrow> (string \<Rightarrow> nat) \<Rightarrow> string \<Rightarrow> bool" where
  "status_answers h rank name \<longleftrightarrow>
     prints h (Command0\<lparr>ExitOnError := True\<rparr>) [''cryptsetup'', ''status'', name]
       (\<lambda>out. \<exists>p. backingDeviceRx True out = Some p \<and> (p = ''(null)'' \<or> resolves h p (backs h rank name)))"

definition dmsetup_answers :: "'k host \<Rightarrow> (string \<Rightarrow> nat) \<Rightarrow> bool" where
  "dmsetup_answers h rank \<longleftrightarrow>
     prints h (Command0\<lparr>ExitOnError := True\<rparr>) [''dmsetup'', ''ls'', ''--target=crypt'']
       (\<lambda>out. TrimSpace out = ''No devices found'' \<or>
          (\<forall>line \<in> set (Split CHR ''\<newline>'' out). \<forall>name ws. Fields line = name # ws \<longrightarrow> status_answers h rank name))"

text \<open>A container that can be opened lies deeper than the device that holds it.\<close>

definition opening_descends :: "'k host \<Rightarrow> (string \<Rightarrow> nat) \<Rightarrow> bool" where
  "opening_descends h rank \<longleftrightarrow>
     (\<forall>p name key k.
        let c = Command0\<lparr>Stdin := key @ ''\<newline>'', SkipLog := True\<rparr>
        in exec_err (fst (sys_exec h (command_argv h c [''cryptsetup'', ''luksOpen'', p, name]) (Stdin c) k)) = None
           \<longrightarrow> rank (dev_mapper name) < rank p)"

text \<open>A machine in order. The stack is deep enough for all devices.\<close>

definition tools_work :: "'k host \<Rightarrow> (string \<Rightarrow> nat) \<Rightarrow> bool" where
  "tools_work h rank \<longleftrightarrow>
     (\<forall>p. rank p < stack_limit h) \<and> file_answers h \<and> mount_answers h \<and> lsblk_answers h rank \<and>
     dmsetup_answers h rank \<and> opening_descends h rank \<and> touch_works h"

section \<open>What follows for the operations\<close>

lemma Run_value:
  fixes w :: "('k, 's) world"
  assumes "Run h c cmd w = (Inr x, w')" and "cmd \<noteq> []"
  shows "x = (exec_stdout (fst (sys_exec h (command_argv h c cmd) (Stdin c) (kern w))),
              exec_err (fst (sys_exec h (command_argv h c cmd) (Stdin c) (kern w))) = None)"
proof -
  obtain r k where e: "sys_exec h (command_argv h c cmd) (Stdin c) (kern w) = (r, k)" by fastforce
  obtain res w1 where l: "log_outcome c (hd cmd) (command_argv h c cmd) r (w\<lparr>kern := k\<rparr>) = (res, w1)" by fastforce
  have "x = (exec_stdout r, exec_err r = None)"
  proof (cases cmd)
    case (Cons n rest)
    with assms(1) e l show ?thesis by (cases res) (simp_all add: Run_def Let_def sysM_def bindM_def)
  qed (use assms(2) in simp)
  with e show ?thesis by simp
qed

lemma prints_Run:
  fixes w :: "'k lworld"
  assumes "prints h c cmd P" and "cmd \<noteq> []"
  obtains out w' where "Run h c cmd w = (Inr (out, True), w')" and "P out" and "osst w' = osst w"
proof -
  from assms(1) have "exec_err (fst (sys_exec h (command_argv h c cmd) (Stdin c) k)) = None"
    and p: "P (exec_stdout (fst (sys_exec h (command_argv h c cmd) (Stdin c) k)))" for k
    by (simp_all add: prints_def Let_def)
  then obtain x w' where r: "Run h c cmd w = (Inr x, w')"
    using returnsE [OF returns_Run_works] assms(2) by blast
  from r Run_value [OF r assms(2)] assms(1)
  have x: "x = (exec_stdout (fst (sys_exec h (command_argv h c cmd) (Stdin c) (kern w))), True)"
    by (simp add: prints_def Let_def)
  show ?thesis by (rule that [OF r [unfolded x] p osst_Run [OF r]])
qed

lemma file_answers_readable: "file_answers h \<Longrightarrow> readable (linux_osi h)"
  unfolding readable_def
proof (intro allI notI)
  fix p and w w' :: "'a lworld"
  assume f: "file_answers h" and c: "ClassifyDevice (linux_osi h) p w = (Inr DeviceTypeUnreadable, w')"
  from f have "prints h (Command0\<lparr>NoChroot := True\<rparr>) [''file'', ''-bLs'', TrimPrefix p ''/''] (\<lambda>_. True)"
    unfolding file_answers_def by blast
  then obtain out w1 where
    "Run h (Command0\<lparr>NoChroot := True\<rparr>) [''file'', ''-bLs'', TrimPrefix p ''/''] w = (Inr (out, True), w1)"
    by (rule prints_Run) simp_all
  with c show False
    by (simp add: linux_osi_def linux_ClassifyDevice_def bindM_def device_type_of_def split: if_splits)
qed

lemma opening_descends_below: "opening_descends h rank \<Longrightarrow> opens_below (linux_osi h) rank"
proof -
  assume o: "opening_descends h rank"
  have "rank q < rank p" if "linux_OpenLUKSContainer h p name ks w = (Inr (q, True), w')" for p name ks w q w'
    using that
  proof (induction ks arbitrary: w)
    case (Cons key ks)
    let ?c = "Command0\<lparr>Stdin := key @ ''\<newline>'', SkipLog := True\<rparr>" and ?cmd = "[''cryptsetup'', ''luksOpen'', p, name]"
    from Cons.prems obtain out ok w1 where r: "Run h ?c ?cmd w = (Inr (out, ok), w1)"
      and rest: "(if ok then thenM (add_mapping p (dev_mapper name)) (ret (dev_mapper name, True))
        else linux_OpenLUKSContainer h p name ks) w1 = (Inr (q, True), w')"
      by (auto elim!: bindM_InrE)
    show ?case
    proof (cases ok)
      case True
      with r have "exec_err (fst (sys_exec h (command_argv h ?c ?cmd) (Stdin ?c) (kern w))) = None"
        by (auto simp: Run_def Let_def sysM_def elim!: bindM_InrE split: prod.splits)
      with o have "rank (dev_mapper name) < rank p" unfolding opening_descends_def Let_def by blast
      with True rest show ?thesis by (auto elim!: thenM_InrE)
    next
      case False
      with rest Cons.IH show ?thesis by simp
    qed
  qed simp
  then show ?thesis by (auto simp: opens_below_def linux_osi_def)
qed

section \<open>Reading the mounts\<close>

lemma parse_complete_lines: "\<forall>line \<in> set ls. complete_line line \<Longrightarrow> \<exists>ms. parse_mount_lines ls = Inr ms"
proof (induction ls)
  case (Cons l ls)
  then obtain ms where "parse_mount_lines ls = Inr ms" by auto
  moreover have "\<exists>om. parse_mount_line l = Inr om"
    using Cons.prems by (auto simp: parse_mount_line_def complete_line_def Let_def)
  ultimately show ?case by auto
qed simp

lemma collectMountPoints_works:
  fixes w :: "'k lworld"
  assumes "mount_answers h"
  obtains ms w' where "collectMountPoints h sc w = (Inr ms, w')" and "osst w' = osst w"
proof -
  have "prints h ((scoped_command sc)\<lparr>ExitOnError := True\<rparr>) [''mount'']
      (\<lambda>out. \<forall>line \<in> set (Split CHR ''\<newline>'' out). complete_line line)"
    using assms unfolding mount_answers_def by blast
  then obtain out w1 where r: "Run h ((scoped_command sc)\<lparr>ExitOnError := True\<rparr>) [''mount''] w = (Inr (out, True), w1)"
    and l: "\<forall>line \<in> set (Split CHR ''\<newline>'' out). complete_line line" and o: "osst w1 = osst w"
    by (rule prints_Run) simp_all
  from parse_complete_lines [OF l] obtain ms where "parse_mount_lines (Split CHR ''\<newline>'' out) = Inr ms" by blast
  with r have "collectMountPoints h sc w = (Inr ms, w1)" by (simp add: collectMountPoints_def bindM_def)
  then show ?thesis using o by (rule that)
qed

lemma set_active_run:
  "ActiveMountPoints (osst w) = Some t \<Longrightarrow>
   set_active sc ms w = (Inr (), w\<lparr>osst := (osst w)\<lparr>ActiveMountPoints := Some (t(sc := ms))\<rparr>\<rparr>)"
  by (simp add: set_active_def bindM_def)

lemma RefreshMountPoints_works:
  fixes w :: "'k lworld"
  assumes "mount_answers h"
  obtains w' where "linux_RefreshMountPoints h w = (Inr (), w')" and "ready (osst w')"
proof -
  obtain ms w1 where 1: "collectMountPoints h LocalScope w = (Inr ms, w1)" "osst w1 = osst w"
    by (rule collectMountPoints_works [OF assms])
  let ?w = "w1\<lparr>osst := (osst w1)\<lparr>ActiveMountPoints := Some ((\<lambda>_. [])(LocalScope := ms))\<rparr>\<rparr>"
  have run: "linux_RefreshMountPoints h w =
      (if mountScopesAreSeparate (osst w1) then bindM (collectMountPoints h HostScope) (set_active HostScope)
       else set_active HostScope ms) ?w"
    unfolding linux_RefreshMountPoints_def bindM_Inr [where m = "collectMountPoints h LocalScope", OF 1(1)]
      bindM_Inr [where m = get_os, OF get_os_run] thenM_Inr [where m = "put_os _", OF put_os_run]
    by (rule refl)
  obtain hs w2 where 2: "collectMountPoints h HostScope ?w = (Inr hs, w2)" "osst w2 = osst ?w"
    by (rule collectMountPoints_works [OF assms])
  show ?thesis
  proof (cases "mountScopesAreSeparate (osst w1)")
    case True
    with 2 show ?thesis
      by (intro that [of "w2\<lparr>osst := (osst w2)\<lparr>ActiveMountPoints := Some ((\<lambda>_. [])(LocalScope := ms, HostScope := hs))\<rparr>\<rparr>"])
         (simp_all add: run bindM_def set_active_run ready_def del: fun_upd_apply)
  next
    case False
    then show ?thesis
      by (intro that [of "w1\<lparr>osst := (osst w1)\<lparr>ActiveMountPoints := Some ((\<lambda>_. [])(LocalScope := ms, HostScope := ms))\<rparr>\<rparr>"])
         (simp_all add: run set_active_run ready_def del: fun_upd_apply)
  qed
qed

section \<open>Reading the mappings\<close>

text \<open>The mappings read so far lie deeper than their backing devices.\<close>

definition descending :: "(string \<Rightarrow> nat) \<Rightarrow> 'k lworld \<Rightarrow> bool" where
  "descending rank w \<longleftrightarrow>
     ready (osst w) \<and> (\<forall>p q. mappings (osst w) p = Some q \<longrightarrow> rank q < rank p)"

lemma descending_sane: "descending rank w \<Longrightarrow> sane_tables ready luks_view rank w"
  by (auto simp: descending_def sane_tables_def luks_view_def split: option.splits)

lemma descending_osst: "osst w' = osst w \<Longrightarrow> descending rank w' = descending rank w"
  by (simp add: descending_def)

lemma add_mapping_safe:
  "rank q < rank p \<Longrightarrow> safe (descending rank) (add_mapping p q) (\<lambda>_. True)"
  by (auto simp: safe_def add_mapping_run descending_def ready_def)

lemma prints_safe:
  fixes h :: "'k host"
  assumes "prints h c cmd P" and "cmd \<noteq> []"
  shows "safe (descending rank) (Run h c cmd) (\<lambda>(out, ok). P out)"
proof (rule safeI)
  fix w :: "'k lworld"
  assume d: "descending rank w"
  obtain out w' where "Run h c cmd w = (Inr (out, True), w')" "P out" "osst w' = osst w"
    by (rule prints_Run [OF assms])
  with d descending_osst [of w' w rank]
  show "\<exists>x w'. Run h c cmd w = (Inr x, w') \<and> descending rank w' \<and> (case x of (out, ok) \<Rightarrow> P out)"
    by (intro exI [of _ "(out, True)"] exI [of _ w']) simp
qed

lemma resolves_safe:
  fixes h :: "'k host"
  assumes "resolves h p P"
  shows "safe (descending rank) (evalSymlinksInChroot h p) (\<lambda>r. \<exists>q. r = Inr q \<and> P q)"
proof (rule safeI)
  fix w :: "'k lworld" assume d: "descending rank w"
  from assms obtain q where q: "fst (sys_evalsymlinks h (TrimPrefix p ''/'') (kern w)) = Inr q" "P (absolute q)"
    unfolding resolves_def by blast
  then obtain k where "sys_evalsymlinks h (TrimPrefix p ''/'') (kern w) = (Inr q, k)" by (metis prod.collapse)
  then have "evalSymlinksInChroot h p w = (Inr (Inr (absolute q)), w\<lparr>kern := k\<rparr>)"
    by (simp add: evalSymlinksInChroot_def Let_def bindM_def sysM_def absolute_def)
  with q d show "\<exists>x w'. evalSymlinksInChroot h p w = (Inr x, w') \<and> descending rank w' \<and> (\<exists>q. x = Inr q \<and> P q)"
    by (simp add: descending_def)
qed

lemma getBackingDevicePath_safe:
  assumes "status_answers h rank name"
  shows "safe (descending rank) (getBackingDevicePath h name) (\<lambda>op. \<forall>p. op = Some p \<longrightarrow> backs h rank name p)"
proof -
  have log: "safe (descending rank) (log_error msg) (\<lambda>_. True)" for msg
    by (simp add: safe_def descending_def)
  show ?thesis
    unfolding getBackingDevicePath_def
  proof (rule safe_bindM [OF prints_safe [OF assms [unfolded status_answers_def]]])
    fix x :: "string \<times> bool"
    assume "case x of (out, ok) \<Rightarrow> \<exists>p. backingDeviceRx True out = Some p \<and> (p = ''(null)'' \<or> resolves h p (backs h rank name))"
    then obtain out ok p where x: "x = (out, ok)" and p: "backingDeviceRx True out = Some p"
      and r: "p = ''(null)'' \<or> resolves h p (backs h rank name)" by auto
    show "safe (descending rank) (case x of (stdout, _) \<Rightarrow>
        case backingDeviceRx True stdout of
          None \<Rightarrow> log_fatal (''cannot find backing device for /dev/mapper/'' @ name)
        | Some m1 \<Rightarrow>
            if m1 = ''(null)'' then
              thenM (log_error (''skipping /dev/mapper/'' @ name @
                    '': `cryptsetup status` reports backing device as `(null)` (the kernel log probably has an IO error for the underlying device)''))
                 (ret None)
            else bindM (bindM (evalSymlinksInChroot h m1) must_Return)
                (\<lambda>devicePath. ret (Some (if devicePath \<noteq> m1 then devicePath else m1))))
        (\<lambda>op. \<forall>p. op = Some p \<longrightarrow> backs h rank name p)"
      unfolding x p prod.case option.case
    proof (rule safe_if)
      assume "p \<noteq> ''(null)''"
      with r have "resolves h p (backs h rank name)" by simp
      note e = resolves_safe [OF this]
      show "safe (descending rank) (bindM (bindM (evalSymlinksInChroot h p) must_Return)
            (\<lambda>devicePath. ret (Some (if devicePath \<noteq> p then devicePath else p))))
          (\<lambda>op. \<forall>p. op = Some p \<longrightarrow> backs h rank name p)"
        unfolding bindM_assoc
        by (rule safe_bindM [OF e]) (auto simp: must_Return_def safe_def)
    qed (rule safe_thenM [OF log], simp add: safe_def)
  qed simp
qed

lemma refresh_mapping_line_safe:
  assumes known: "\<And>d name. d \<in> set (preorders devs) \<Longrightarrow> holds_mapping name d \<Longrightarrow>
      \<exists>p. lsblk_devicePath d = Inr p \<and> backs h rank name p"
    and status: "\<And>name ws. Fields line = name # ws \<Longrightarrow> status_answers h rank name"
  shows "safe (descending rank) (refresh_mapping_line h devs line) (\<lambda>_. True)"
proof (cases "Fields line")
  case Nil
  then show ?thesis by (simp add: refresh_mapping_line_def safe_ret)
next
  case (Cons name ws)
  let ?find = "case FindBackingDeviceForLUKS devs name of
       Inl e \<Rightarrow> exitM e | Inr (Some p) \<Rightarrow> ret (Some p) | Inr None \<Rightarrow> getBackingDevicePath h name"
  have find: "safe (descending rank) ?find (\<lambda>op. \<forall>p. op = Some p \<longrightarrow> backs h rank name p)"
  proof (cases "find (holds_mapping name) (preorders devs)")
    case None
    then show ?thesis
      using getBackingDevicePath_safe [OF status [OF Cons]] by (simp add: FindBacking_preorder(2) first_path_def)
  next
    case (Some d)
    then have "d \<in> set (preorders devs)" "holds_mapping name d" by (auto simp: find_Some_iff)
    with known obtain p where "lsblk_devicePath d = Inr p" "backs h rank name p" by blast
    with Some show ?thesis by (simp add: FindBacking_preorder(2) first_path_def safe_ret)
  qed
  have add: "safe (descending rank) (thenM (add_mapping p (dev_mapper name))
      (bindM (evalSymlinksInChroot h p) (\<lambda>r. case r of
         Inl e \<Rightarrow> log_fatal (''while resolving symlinks in '' @ p @ '': '' @ e)
       | Inr canonical \<Rightarrow> add_mapping canonical (dev_mapper name)))) (\<lambda>_. True)"
    if b: "backs h rank name p" for p
  proof (rule safe_thenM [OF add_mapping_safe])
    show "rank (dev_mapper name) < rank p" using b by (simp add: backs_def)
    from b have e: "resolves h p (\<lambda>q. rank (dev_mapper name) < rank q)" by (simp add: backs_def)
    show "safe (descending rank) (bindM (evalSymlinksInChroot h p) (\<lambda>r. case r of
         Inl e \<Rightarrow> log_fatal (''while resolving symlinks in '' @ p @ '': '' @ e)
       | Inr canonical \<Rightarrow> add_mapping canonical (dev_mapper name))) (\<lambda>_. True)"
      by (rule safe_bindM [OF resolves_safe [OF e]]) (auto intro: add_mapping_safe)
  qed
  show ?thesis
    unfolding refresh_mapping_line_def Cons list.case
  proof (rule safe_bindM [OF find])
    fix op assume op: "\<forall>p. op = Some p \<longrightarrow> backs h rank name p"
    show "safe (descending rank) (case op of None \<Rightarrow> ret () | Some p \<Rightarrow> thenM (add_mapping p (dev_mapper name))
        (bindM (evalSymlinksInChroot h p) (\<lambda>r. case r of
           Inl e \<Rightarrow> log_fatal (''while resolving symlinks in '' @ p @ '': '' @ e)
         | Inr canonical \<Rightarrow> add_mapping canonical (dev_mapper name)))) (\<lambda>_. True)"
    proof (cases op)
      case None
      show ?thesis unfolding None option.case by (simp add: safe_ret)
    next
      case (Some p)
      show ?thesis unfolding Some option.case by (rule add) (use op Some in simp)
    qed
  qed
qed

lemma RefreshLUKSMappings_works:
  fixes w :: "'k lworld"
  assumes "lsblk_answers h rank" and "dmsetup_answers h rank" and r: "ready (osst w)"
  obtains w' where "linux_RefreshLUKSMappings h w = (Inr (), w')" and "descending rank w'"
proof -
  let ?c = "Command0\<lparr>ExitOnError := True\<rparr>"
  obtain out w1 where 1: "Run h ?c [''lsblk'', ''-J''] w = (Inr (out, True), w1)" "osst w1 = osst w"
    and "\<exists>devs. json_lsblk h out = Inr devs \<and> (\<forall>d \<in> set (preorders devs). \<forall>name. holds_mapping name d \<longrightarrow>
             (\<exists>p. lsblk_devicePath d = Inr p \<and> backs h rank name p))"
    by (rule prints_Run [OF assms(1) [unfolded lsblk_answers_def]]) simp_all
  then obtain devs where j: "json_lsblk h out = Inr devs"
    and known: "\<And>d name. d \<in> set (preorders devs) \<Longrightarrow> holds_mapping name d \<Longrightarrow>
      \<exists>p. lsblk_devicePath d = Inr p \<and> backs h rank name p" by blast
  from 1 j have l: "run_lsblk h w = (Inr devs, w1)"
    by (simp add: run_lsblk_def bindM_def ParseLsblkOutput_def)
  let ?w = "w1\<lparr>osst := (osst w1)\<lparr>ActiveLUKSMappings := Some Map.empty\<rparr>\<rparr>"
  have d: "descending rank ?w" using r 1(2) by (simp add: descending_def ready_def)
  let ?rest = "bindM (Run h ?c [''dmsetup'', ''ls'', ''--target=crypt'']) (\<lambda>(stdout, _).
        if TrimSpace stdout = ''No devices found'' then ret ()
        else forM (Split CHR ''\<newline>'' stdout) (refresh_mapping_line h devs))"
  have rest: "safe (descending rank) ?rest (\<lambda>_. True)"
  proof (rule safe_bindM [OF prints_safe [OF assms(2) [unfolded dmsetup_answers_def]]])
    fix x :: "string \<times> bool"
    assume "case x of (out, ok) \<Rightarrow> TrimSpace out = ''No devices found'' \<or>
      (\<forall>line \<in> set (Split CHR ''\<newline>'' out). \<forall>name ws. Fields line = name # ws \<longrightarrow> status_answers h rank name)"
    then show "safe (descending rank) (case x of (stdout, _) \<Rightarrow>
        if TrimSpace stdout = ''No devices found'' then ret ()
        else forM (Split CHR ''\<newline>'' stdout) (refresh_mapping_line h devs)) (\<lambda>_. True)"
      by (cases x) (simp, intro impI conjI safe_if safe_ret safe_forM refresh_mapping_line_safe known; blast?)
  qed simp
  have run: "linux_RefreshLUKSMappings h w = ?rest ?w"
    unfolding linux_RefreshLUKSMappings_def bindM_Inr [where m = "run_lsblk h", OF l]
      bindM_Inr [where m = get_os, OF get_os_run] thenM_Inr [where m = "put_os _", OF put_os_run]
    by (rule refl)
  obtain u w' where "?rest ?w = (Inr u, w')" and "descending rank w'"
    by (rule safeE [OF rest d])
  with run have "linux_RefreshLUKSMappings h w = (Inr (), w')" by simp
  then show ?thesis using \<open>descending rank w'\<close> by (rule that)
qed

section \<open>A machine in order never ends the process\<close>

lemma tools_work_refreshes:
  fixes h :: "'k host"
  assumes "tools_work h rank"
  shows "refreshes ready luks_view rank (linux_osi h)"
  unfolding refreshes_def
proof
  fix w :: "'k lworld"
  have t: "mount_answers h" "lsblk_answers h rank" "dmsetup_answers h rank"
    using assms by (simp_all add: tools_work_def)
  obtain w1 where 1: "linux_RefreshMountPoints h w = (Inr (), w1)" "ready (osst w1)"
    by (rule RefreshMountPoints_works [OF t(1)])
  obtain w2 where 2: "linux_RefreshLUKSMappings h w1 = (Inr (), w2)" "descending rank w2"
    by (rule RefreshLUKSMappings_works [OF t(2,3) 1(2)])
  from 1 2 descending_sane [OF 2(2)]
  show "\<exists>w'. thenM (RefreshMountPoints (linux_osi h)) (RefreshLUKSMappings (linux_osi h)) w = (Inr (), w') \<and>
      sane_tables ready luks_view rank w'"
    by (simp add: linux_osi_def thenM_def bindM_def)
qed

lemma tools_workD:
  assumes "tools_work h rank"
  shows "\<And>p. rank p < stack_limit h" and "readable (linux_osi h)" and "opens_below (linux_osi h) rank"
    and "touch_works h" and "refreshes ready luks_view rank (linux_osi h)"
  using assms file_answers_readable [of h] opening_descends_below [of h rank] tools_work_refreshes [OF assms]
  by (simp_all add: tools_work_def)

text \<open>One iteration of the converger, and all of them.\<close>

lemma tools_work_iteration:
  assumes "tools_work h rank" and "\<forall>d \<in> set (Drives c). drive_ok rank (stack_limit h) d"
  obtains c' w' where "converger_iteration h (linux_osi h) cfg es c w = (Inr c', w')"
    and "\<forall>d \<in> set (Drives c'). drive_ok rank (stack_limit h) d"
  by (rule safeE [OF lin.converger_iteration_safe [OF tools_workD [OF assms(1)] assms(2)] TrueI])

lemma tools_work_run:
  assumes "tools_work h rank"
  obtains c w' where "RunConverger h (linux_osi h) cfg queue w = (Inr c, w')"
    and "\<forall>d \<in> set (Drives c). drive_ok rank (stack_limit h) d"
  by (rule safeE [OF lin.RunConverger_safe [OF tools_workD [OF assms]] TrueI])

end
