(* ===== verification/Sample_Linux.thy ===== *)
theory Sample_Linux
  imports Linux_Tools
begin

text \<open>
  Concrete Linux machines, on which the theorems about the whole program are applied.
\<close>

section \<open>Samples\<close>

text \<open>A machine with one mount namespace, no mounts and no LUKS mappings, on which every
  command succeeds silently.\<close>

definition linux0 :: linux where
  "linux0 = \<lparr>ActiveMountPoints = Some (\<lambda>_. []), ActiveLUKSMappings = Some (\<lambda>_. None),
             PropagationMode = OneMountNamespace\<rparr>"

definition linux_world :: "linux \<Rightarrow> trace lworld" where
  "linux_world l = \<lparr>kern = [], logs = [], osst = l\<rparr>"

definition quiet_osi :: "trace lworld os_interface" where
  "quiet_osi = linux_osi quiet_host"

lemma linux0_ready [simp]: "ready linux0" "separate_mounts (active linux0)"
  by (simp_all add: ready_def linux0_def separate_mounts_def exclusive_def active_def)

section \<open>A machine on which everything works\<close>

text \<open>Every command succeeds and prints nothing, except that sfdisk describes the disk, and that
  a container inside a container cannot be opened: cryptsetup finds the name of the mapping
  taken. There are two disks.\<close>

definition calm_out :: "string list \<Rightarrow> exec_result" where
  "calm_out argv =
     (if ''luksOpen'' \<in> set argv \<and> HasPrefix (last (butlast argv)) ''/dev/mapper/''
      then failing ''exit status 5''
      else if take 3 argv = [''chroot'', ''.'', ''sfdisk''] then printing ''Disk: 8 TiB'' else silent)"

definition calm_host :: "trace host" where
  "calm_host = (sample_host calm_out (\<lambda>_. Inl (NotExist [])) (\<lambda>_. Inl (NotExist [])))
     \<lparr>sys_glob := (\<lambda>p k. (Inr (if p = ''dev/sd*'' then [''dev/sda'', ''dev/sdb''] else []), k))\<rparr>"

definition calm_rank :: "string \<Rightarrow> nat" where
  "calm_rank p = (if HasPrefix p ''/dev/mapper/'' then 0 else 1)"

lemma calm_exec [simp]:
  "sys_exec calm_host argv stdin k = (calm_out argv, k @ [argv])" "geteuid calm_host = 0"
  "json_lsblk calm_host s = Inr []" "stack_limit calm_host = 100"
  by (simp_all add: calm_host_def sample_host_def)

lemma calm_Run:
  assumes "cmd \<noteq> []" and "calm_out (command_argv calm_host c cmd) = silent"
  shows "Run calm_host c cmd w = (Inr ([], True), w\<lparr>kern := kern w @ [command_argv calm_host c cmd]\<rparr>)"
  using assms
  by (cases cmd) (simp_all add: Run_def Let_def bindM_def sysM_def log_outcome_def whenM_def thenM_def silent_def)

lemma calm_argv:
  "NoChroot c \<Longrightarrow> command_argv calm_host c cmd = with_nsenter c cmd"
  "\<not> NoChroot c \<Longrightarrow> command_argv calm_host c cmd = [''chroot'', ''.''] @ with_nsenter c cmd"
  by (simp_all add: command_argv_def with_sudo_def with_chroot_def)

lemma calm_prints:
  assumes "calm_out (command_argv calm_host c cmd) = silent" and "P []"
  shows "prints calm_host c cmd P"
  using assms by (simp add: prints_def silent_def Let_def)

lemma calm_silent:
  "cmd \<noteq> [] \<Longrightarrow> ''luksOpen'' \<notin> set cmd \<Longrightarrow> hd cmd \<noteq> ''sfdisk'' \<Longrightarrow> hd cmd \<noteq> ''chroot'' \<Longrightarrow>
   calm_out (command_argv calm_host c cmd) = silent"
  by (cases cmd; cases "NoChroot c"; auto simp: calm_argv with_nsenter_def calm_out_def)

lemma calm_opening:
  "exec_err (calm_out (command_argv calm_host (Command0\<lparr>Stdin := s, SkipLog := True\<rparr>) [''cryptsetup'', ''luksOpen'', p, name])) = None
   \<Longrightarrow> calm_rank (dev_mapper name) < calm_rank p"
proof -
  have "HasPrefix (dev_mapper name) ''/dev/mapper/''" by (simp add: dev_mapper_def HasPrefix_def)
  then show "exec_err (calm_out (command_argv calm_host (Command0\<lparr>Stdin := s, SkipLog := True\<rparr>)
      [''cryptsetup'', ''luksOpen'', p, name])) = None \<Longrightarrow> ?thesis"
    by (auto simp: calm_rank_def calm_argv Command0_def with_nsenter_def calm_out_def failing_def)
qed

lemma calm_tools: "tools_work calm_host calm_rank"
proof -
  have "file_answers calm_host"
    unfolding file_answers_def
    by (intro allI calm_prints) (simp_all add: calm_argv Command0_def with_nsenter_def calm_out_def HasPrefix_def)
  moreover have "mount_answers calm_host"
    unfolding mount_answers_def by (intro allI calm_prints calm_silent) (simp_all add: complete_line_def)
  moreover have "lsblk_answers calm_host calm_rank"
    unfolding lsblk_answers_def by (intro calm_prints calm_silent) simp_all
  moreover have "dmsetup_answers calm_host calm_rank"
  proof -
    have "Fields [] = []" by code_simp
    then show ?thesis unfolding dmsetup_answers_def by (intro calm_prints calm_silent) simp_all
  qed
  moreover have "opening_descends calm_host calm_rank"
    unfolding opening_descends_def Let_def
    by (auto dest: calm_opening)
  moreover have "touch_works calm_host"
    by (simp add: touch_works_def calm_silent silent_def)
  ultimately show ?thesis by (simp add: tools_work_def calm_rank_def)
qed

lemmas calm_readable = tools_workD(2) [OF calm_tools]
lemmas calm_opens_below = tools_workD(3) [OF calm_tools]

text \<open>So the event loop runs on this machine, for every batch of events.\<close>

lemma calm_run: "\<exists>c w'. RunConverger calm_host (linux_osi calm_host) cfg queue w = (Inr c, w')"
  by (rule tools_work_run [OF calm_tools]) blast

text \<open>The same machine with an open LUKS container on one disk, of which the tools tell.\<close>

definition dmsetup_ls :: "string list" where
  "dmsetup_ls = command_argv calm_host (Command0\<lparr>ExitOnError := True\<rparr>) [''dmsetup'', ''ls'', ''--target=crypt'']"

definition status_A :: "string list" where
  "status_A = command_argv calm_host (Command0\<lparr>ExitOnError := True\<rparr>) [''cryptsetup'', ''status'', ''A'']"

definition crypt_out :: "string list \<Rightarrow> exec_result" where
  "crypt_out argv =
     (if argv = dmsetup_ls then printing ''A (254:0)''
      else if argv = status_A then printing ''  device:  /dev/sda'' else calm_out argv)"

definition crypt_tree :: "LsblkDevice list" where
  "crypt_tree =
     [LsblkDevice ''sda'' ''8:0'' False ''8T'' False ''disk'' None
        [LsblkDevice ''A'' ''254:0'' False ''8T'' False ''crypt'' (Some ''/srv/node/swift1'') []]]"

definition crypt_host :: "trace host" where
  "crypt_host = calm_host\<lparr>json_lsblk := (\<lambda>_. Inr crypt_tree),
                          sys_exec := (\<lambda>argv stdin k. (crypt_out argv, k @ [argv]))\<rparr>"

lemma crypt_sel [simp]:
  "sys_exec crypt_host argv stdin k = (crypt_out argv, k @ [argv])" "json_lsblk crypt_host s = Inr crypt_tree"
  "stack_limit crypt_host = 100" "sys_evalsymlinks crypt_host p k = (Inr p, k)"
  "command_argv crypt_host c cmd = command_argv calm_host c cmd"
  by (simp_all add: crypt_host_def command_argv_def with_sudo_def) (simp_all add: calm_host_def sample_host_def)

lemma crypt_listed [simp]:
  "dmsetup_ls = [''chroot'', ''.'', ''dmsetup'', ''ls'', ''--target=crypt'']"
  "status_A = [''chroot'', ''.'', ''nsenter'', ''--mount=/proc/1/ns/mnt'', ''--ipc=/proc/1/ns/ipc'', ''--'',
               ''cryptsetup'', ''status'', ''A'']"
  by (simp_all add: dmsetup_ls_def status_A_def calm_argv Command0_def with_nsenter_def)

lemma crypt_backs: "backs crypt_host calm_rank ''A'' ''/dev/sda''"
  by (simp add: backs_def resolves_def absolute_def calm_rank_def dev_mapper_def HasPrefix_def TrimPrefix_def)

lemma crypt_holds: "d \<in> set (preorders crypt_tree) \<Longrightarrow> holds_mapping name d \<Longrightarrow>
    name = ''A'' \<and> lsblk_devicePath d = Inr ''/dev/sda''"
  by (auto simp: crypt_tree_def holds_mapping_def is_crypt_child_def lsblk_devicePath_def)

lemma crypt_tools: "tools_work crypt_host calm_rank"
proof -
  have other: "prints crypt_host c cmd P" if "prints calm_host c cmd P"
    and "command_argv calm_host c cmd \<noteq> dmsetup_ls" "command_argv calm_host c cmd \<noteq> status_A" for c cmd P
    using that by (simp add: prints_def crypt_out_def)
  note calm = calm_tools [unfolded tools_work_def]
  have "file_answers crypt_host"
    using calm unfolding file_answers_def by (auto intro!: other simp: calm_argv Command0_def with_nsenter_def)
  moreover have "mount_answers crypt_host"
    using calm unfolding mount_answers_def
    by (auto intro!: other simp: calm_argv Command0_def with_nsenter_def scoped_command_def split: if_splits)
  moreover have "lsblk_answers crypt_host calm_rank"
    unfolding lsblk_answers_def
  proof (rule other)
    show "prints calm_host (Command0\<lparr>ExitOnError := True\<rparr>) [''lsblk'', ''-J'']
       (\<lambda>out. \<exists>devs. json_lsblk crypt_host out = Inr devs \<and>
          (\<forall>d \<in> set (preorders devs). \<forall>name. holds_mapping name d \<longrightarrow>
             (\<exists>p. lsblk_devicePath d = Inr p \<and> backs crypt_host calm_rank name p)))"
      by (rule calm_prints [OF calm_silent]) (use crypt_holds crypt_backs in fastforce)+
  qed (simp_all add: calm_argv Command0_def with_nsenter_def)
  moreover have "status_answers crypt_host calm_rank ''A''"
  proof -
    have "backingDeviceRx True ''  device:  /dev/sda'' = Some ''/dev/sda''" by code_simp
    moreover have "resolves crypt_host ''/dev/sda'' (backs crypt_host calm_rank ''A'')"
      using crypt_backs by (simp add: resolves_def absolute_def TrimPrefix_def HasPrefix_def)
    ultimately show ?thesis
      by (simp add: status_answers_def prints_def crypt_out_def printing_def calm_argv Command0_def with_nsenter_def)
  qed
  then have "dmsetup_answers crypt_host calm_rank"
  proof -
    have "Split CHR ''\<newline>'' ''A (254:0)'' = [''A (254:0)'']" "Fields ''A (254:0)'' = [''A'', ''(254:0)'']" by code_simp+
    with \<open>status_answers crypt_host calm_rank ''A''\<close> show ?thesis
      by (simp add: dmsetup_answers_def prints_def crypt_out_def printing_def calm_argv Command0_def with_nsenter_def)
  qed
  moreover have "opening_descends crypt_host calm_rank"
  proof -
    have "crypt_out (command_argv calm_host c [''cryptsetup'', ''luksOpen'', p, name]) =
        calm_out (command_argv calm_host c [''cryptsetup'', ''luksOpen'', p, name])" for c p name
      by (cases "NoChroot c") (auto simp: crypt_out_def calm_argv with_nsenter_def)
    then show ?thesis
      unfolding opening_descends_def Let_def
      by (auto dest: calm_opening)
  qed
  moreover have "touch_works crypt_host"
    using calm by (auto simp: touch_works_def crypt_out_def calm_argv Command0_def with_nsenter_def)
  ultimately show ?thesis by (simp add: tools_work_def calm_rank_def)
qed

lemma calm_nested: "nested luks_view calm_rank (linux_world linux0)"
  by (simp add: nested_def luks_view_def linux_world_def linux0_def mappings_def)

section \<open>Three drives\<close>

text \<open>An encrypted drive whose container is closed, a broken drive and an ordinary one, beside the
  disk of the operating system. Every drive owns its directory below /run/swift-storage.\<close>

definition three_drives :: "drive list" where
  "three_drives =
     [(xfs_drive ''/dev/sda'' [])\<lparr>Device := Some (LUKSDevice ''/dev/sda'' True None []), Keys := [''key'']\<rparr>,
      (xfs_drive ''/dev/sdb'' [])\<lparr>Broken := True\<rparr>,
      xfs_drive ''/dev/sdc'' []]"

definition boot_mount :: MountPoint where
  "boot_mount = \<lparr>mp_DevicePath = ''/dev/sdz'', mp_MountPath = ''/boot'', mp_Options = {''rw''}\<rparr>"

definition boot_linux :: linux where
  "boot_linux = linux0\<lparr>ActiveMountPoints := Some (\<lambda>_. [boot_mount])\<rparr>"

definition three_allotted :: allotment where
  "three_allotted =
     \<lparr>belongs = (\<lambda>p. if p = ''/dev/mapper/sda'' then ''/dev/sda'' else if p = ''/dev/mapper/sdb'' then ''/dev/sdb''
                    else if p = ''/dev/mapper/sdc'' then ''/dev/sdc'' else p),
      owner = (\<lambda>x. if x = ''/run/swift-storage/sda'' then ''/dev/sda''
                   else if x = ''/run/swift-storage/sdc'' then ''/dev/sdc'' else ''/dev/sdz'')\<rparr>"

lemma boot_active: "active (osst (linux_world boot_linux)) = (\<lambda>_. [boot_mount])"
  by (simp add: active_def linux_world_def boot_linux_def)

lemma boot_belongs: "belongs three_allotted ''/dev/sdz'' = ''/dev/sdz''"
  by (simp add: three_allotted_def)

lemma boot_owner: "owner three_allotted ''/boot'' = ''/dev/sdz''"
  by (simp add: three_allotted_def)

lemma boot_luks: "luks_view (osst (linux_world boot_linux)) p = []"
  by (simp add: luks_view_def mappings_def linux_world_def boot_linux_def linux0_def)

lemma boot_allotting: "allotting active ready luks_view three_allotted (linux_world boot_linux)"
  unfolding allotting_def allotted_def boot_active boot_luks
  by (simp add: boot_mount_def boot_belongs boot_owner ready_def linux_world_def boot_linux_def)

lemma boot_lone: "D \<noteq> ''/dev/sdz'' \<Longrightarrow> lone three_allotted D q (active (osst (linux_world boot_linux)))"
  unfolding lone_def boot_active by (simp add: boot_mount_def boot_belongs)

lemma returned:
  assumes "case p of (Inr a, w) \<Rightarrow> P a w | (Inl e, w) \<Rightarrow> False"
  obtains a w where "p = (Inr a, w)" "P a w"
  using assms by (cases p; cases "fst p") auto

lemma three_run:
  obtains ds1 w1 ds2 w2 ds' w' where
    "mapM (Drive_Converge quiet_host (linux_osi quiet_host)) three_drives (linux_world boot_linux) = (Inr ds1, w1)"
    "UpdateDriveAssignments ds1 (SwiftIDPool test_config) (linux_osi quiet_host) w1 = (Inr ds2, w2)"
    "Converge quiet_host (linux_osi quiet_host) test_config three_drives (linux_world boot_linux) = (Inr ds', w')"
    "\<forall>d \<in> set three_drives \<union> set ds2. \<not> Broken d \<longrightarrow> owns three_allotted (DevicePath d) (MountPathAt d [])"
    "map Broken ds' = [False, True, False]"
    "map MountPath ds' = [''/run/swift-storage/sda'', ''/run/swift-storage/sdb'', ''/run/swift-storage/sdc'']"
proof -
  have "case mapM (Drive_Converge quiet_host quiet_osi) three_drives (linux_world boot_linux) of
      (Inr ds1, w1) \<Rightarrow> (case UpdateDriveAssignments ds1 (SwiftIDPool test_config) quiet_osi w1 of
        (Inr ds2, w2) \<Rightarrow> (case Converge quiet_host quiet_osi test_config three_drives (linux_world boot_linux) of
          (Inr ds', w') \<Rightarrow>
            (\<forall>d \<in> set three_drives \<union> set ds2. \<not> Broken d \<longrightarrow> owns three_allotted (DevicePath d) (MountPathAt d [])) \<and>
            map Broken ds' = [False, True, False] \<and>
            map MountPath ds' = [''/run/swift-storage/sda'', ''/run/swift-storage/sdb'', ''/run/swift-storage/sdc'']
        | _ \<Rightarrow> False) | _ \<Rightarrow> False) | _ \<Rightarrow> False"
    by code_simp
  then show ?thesis unfolding quiet_osi_def by (elim returned conjE) (rule that)
qed

end
