(* ===== verification/Go_Regexp.thy ===== *)
theory Go_Regexp
  imports Go_Strings
begin

text \<open>
  The regular expressions of the drive and kernel log collectors, written as the searches
  that Go's package regexp performs for them, and the reading of UTF-8. Classes are the
  ASCII classes of the package; the flag \<open>(?i)\<close> folds ASCII letters (the package also folds
  U+017F and U+212A, which is not modelled).
\<close>

section \<open>Searches\<close>

definition char_between :: "char \<Rightarrow> char \<Rightarrow> char \<Rightarrow> bool" where
  "char_between lo hi c \<longleftrightarrow> (of_char lo :: nat) \<le> of_char c \<and> of_char c \<le> (of_char hi :: nat)"

definition lower_letter :: "char \<Rightarrow> bool" where
  "lower_letter c \<longleftrightarrow> char_between CHR ''a'' CHR ''z'' c"

definition letter_or_digit :: "char \<Rightarrow> bool" where
  "letter_or_digit c \<longleftrightarrow>
     lower_letter c \<or> char_between CHR ''A'' CHR ''Z'' c \<or> char_between CHR ''0'' CHR ''9'' c"

text \<open>The class \<open>\w\<close>; \<open>\b\<close> stands between a character in it and one that is not, or at an
  end of the text beside a character in it.\<close>

definition word_char :: "char \<Rightarrow> bool" where
  "word_char c \<longleftrightarrow> letter_or_digit c \<or> c = CHR ''_''"

definition word_starts :: "string \<Rightarrow> bool" where
  "word_starts s = (case s of [] \<Rightarrow> False | c # _ \<Rightarrow> word_char c)"

text \<open>\<open>\b(?:p1|p2|...)\b\<close> with the flag i, for alternatives that begin and end with word
  characters. The flag of the search says whether the character before is a word character.\<close>

definition bounded_here :: "string list \<Rightarrow> string \<Rightarrow> bool" where
  "bounded_here alternatives s \<longleftrightarrow>
     list_ex (\<lambda>a. HasPrefix (ToLower s) a \<and> \<not> word_starts (drop (length a) s)) alternatives"

fun find_bounded :: "string list \<Rightarrow> bool \<Rightarrow> string \<Rightarrow> bool" where
  "find_bounded alternatives in_word [] = False"
| "find_bounded alternatives in_word (c # s) =
     ((\<not> in_word \<and> bounded_here alternatives (c # s)) \<or> find_bounded alternatives (word_char c) s)"

text \<open>\<open>\b(sd[a-z]{1,2})\b\<close>: two letters are tried before one.\<close>

definition sd_here :: "string \<Rightarrow> string option" where
  "sd_here s =
     (if \<not> HasPrefix s ''sd'' then None
      else case drop 2 s of
        [] \<Rightarrow> None
      | a # t \<Rightarrow>
          if \<not> lower_letter a then None
          else (case t of
                  [] \<Rightarrow> Some (''sd'' @ [a])
                | b # u \<Rightarrow>
                    if lower_letter b \<and> \<not> word_starts u then Some (''sd'' @ [a, b])
                    else if \<not> word_starts t then Some (''sd'' @ [a])
                    else None))"

fun find_sd :: "bool \<Rightarrow> string \<Rightarrow> string option" where
  "find_sd in_word [] = None"
| "find_sd in_word (c # s) =
     (case (if in_word then None else sd_here (c # s)) of
        Some d \<Rightarrow> Some d
      | None \<Rightarrow> find_sd (word_char c) s)"

text \<open>\<open>(?m)^label\s*(\S+)\s*$\<close>: at the start of the text and after every newline.\<close>

fun find_labelled :: "string \<Rightarrow> bool \<Rightarrow> string \<Rightarrow> string option" where
  "find_labelled label bol [] = None"
| "find_labelled label bol (c # s) =
     (case (if bol \<and> HasPrefix (c # s) label then word_to_eol (drop (length label) (c # s)) else None) of
        Some word \<Rightarrow> Some word
      | None \<Rightarrow> find_labelled label (c = CHR ''\<newline>'') s)"

section \<open>Words\<close>

text \<open>The maximal runs of word characters of a text, in order.\<close>

fun words_of :: "string \<Rightarrow> string list" where
  "words_of [] = [[]]"
| "words_of (c # s) =
     (if word_char c then (case words_of s of [] \<Rightarrow> [[c]] | w # ws \<Rightarrow> (c # w) # ws)
      else [] # words_of s)"

definition sd_name :: "string \<Rightarrow> bool" where
  "sd_name w \<longleftrightarrow>
     HasPrefix w ''sd'' \<and> (length w = 3 \<or> length w = 4) \<and> list_all lower_letter (drop 2 w)"

lemma words_of_not_Nil [simp]: "words_of s \<noteq> []"
  by (induction s) (auto split: list.splits)

lemma words_of_word: "\<forall>c \<in> set w. word_char c \<Longrightarrow>
  words_of (w @ s) = (w @ hd (words_of s)) # tl (words_of s)"
  by (induction w) (auto split: list.splits)

lemma words_of_break: "\<not> word_starts s \<Longrightarrow> hd (words_of s) = []"
  by (cases s) (auto simp: word_starts_def split: list.splits)

lemma lower_letter_word: "lower_letter c \<Longrightarrow> word_char c"
  by (simp add: word_char_def letter_or_digit_def)

lemma sd_word_chars: "sd_name w \<Longrightarrow> \<forall>c \<in> set w. word_char c"
proof -
  assume w: "sd_name w"
  then obtain r where r: "w = ''sd'' @ r" "list_all lower_letter r"
    by (auto simp: sd_name_def HasPrefix_iff)
  have "word_char CHR ''s''" "word_char CHR ''d''" by code_simp+
  with r show ?thesis by (auto simp: list_all_iff lower_letter_word)
qed

lemma hd_words_of: "hd (words_of s) = takeWhile word_char s"
  by (induction s) (auto split: list.splits)

lemma word_starts_iff: "word_starts s \<longleftrightarrow> takeWhile word_char s \<noteq> []"
  by (cases s) (auto simp: word_starts_def)

lemma lower_letter_words: "list_all lower_letter r \<Longrightarrow> takeWhile word_char (r @ s) = r @ takeWhile word_char s"
  by (induction r) (auto simp: lower_letter_word)

text \<open>The regular expression matches at the start of a text whose first word is a device
  name, and captures this word.\<close>

lemma sd_here_word:
  "sd_here s = (if sd_name (takeWhile word_char s) then Some (takeWhile word_char s) else None)"
proof (cases "HasPrefix s ''sd''")
  case False
  have "\<not> sd_name (takeWhile word_char s)"
  proof
    assume "sd_name (takeWhile word_char s)"
    then obtain r where "takeWhile word_char s = ''sd'' @ r" by (auto simp: sd_name_def HasPrefix_iff)
    then have "s = ''sd'' @ (r @ dropWhile word_char s)" by (metis append.assoc takeWhile_dropWhile_id)
    with False show False unfolding HasPrefix_iff by blast
  qed
  with False show ?thesis by (simp add: sd_here_def)
next
  case True
  then obtain t where s: "s = ''sd'' @ t" by (auto simp: HasPrefix_iff)
  have w: "takeWhile word_char s = ''sd'' @ takeWhile word_char t"
    using s by (simp add: word_char_def letter_or_digit_def lower_letter_def char_between_def)
  have here: "sd_here s = (case t of [] \<Rightarrow> None | a # t \<Rightarrow>
      if \<not> lower_letter a then None
      else (case t of [] \<Rightarrow> Some (''sd'' @ [a])
            | b # u \<Rightarrow> if lower_letter b \<and> \<not> word_starts u then Some (''sd'' @ [a, b])
                     else if \<not> word_starts t then Some (''sd'' @ [a]) else None))"
    using s by (simp add: sd_here_def HasPrefix_def)
  have name: "sd_name (''sd'' @ r) \<longleftrightarrow> (length r = 1 \<or> length r = 2) \<and> list_all lower_letter r" for r
    by (auto simp: sd_name_def HasPrefix_def)
  show ?thesis
    unfolding here w name
    by (auto simp: word_starts_iff length_Suc_conv split: list.splits dest: lower_letter_word)
qed

lemma find_sd_words:
  "find_sd in_word s = find sd_name ((if in_word then tl else id) (words_of s))"
proof (induction s arbitrary: in_word)
  case Nil
  then show ?case by (simp add: sd_name_def)
next
  case (Cons c s)
  have "hd (words_of (c # s)) = takeWhile word_char (c # s)" by (rule hd_words_of)
  then have h: "words_of (c # s) = takeWhile word_char (c # s) # tl (words_of (c # s))"
    by (metis list.collapse words_of_not_Nil)
  have t: "tl (words_of (c # s)) = (if word_char c then tl else id) (words_of s)"
    by (auto split: list.splits)
  show ?case
    by (subst h) (auto simp only: find_sd.simps sd_here_word Cons.IH t find.simps list.sel id_apply
        split: option.splits if_splits)
qed

section \<open>Phrases\<close>

definition word_ends :: "bool \<Rightarrow> string \<Rightarrow> bool" where
  "word_ends in_word a = (if a = [] then in_word else word_char (last a))"

lemma bounded_here_iff:
  "bounded_here alternatives s \<longleftrightarrow>
     (\<exists>b c. s = b @ c \<and> ToLower b \<in> set alternatives \<and> \<not> word_starts c)"
proof
  assume "bounded_here alternatives s"
  then obtain a where a: "a \<in> set alternatives" "HasPrefix (ToLower s) a" "\<not> word_starts (drop (length a) s)"
    by (auto simp: bounded_here_def list_ex_iff)
  then have "ToLower (take (length a) s) = a" by (simp add: HasPrefix_def ToLower_def take_map)
  with a show "\<exists>b c. s = b @ c \<and> ToLower b \<in> set alternatives \<and> \<not> word_starts c"
    by (metis append_take_drop_id)
next
  assume "\<exists>b c. s = b @ c \<and> ToLower b \<in> set alternatives \<and> \<not> word_starts c"
  then show "bounded_here alternatives s"
    by (auto simp: bounded_here_def list_ex_iff ToLower_def intro!: bexI)
qed

lemma find_bounded_iff:
  assumes "[] \<notin> set alternatives"
  shows "find_bounded alternatives in_word s \<longleftrightarrow>
     (\<exists>a b c. s = a @ b @ c \<and> ToLower b \<in> set alternatives \<and> \<not> word_ends in_word a \<and> \<not> word_starts c)"
proof (induction s arbitrary: in_word)
  case Nil
  from assms show ?case by (auto simp: ToLower_def)
next
  case (Cons x s)
  let ?found = "\<lambda>in_word s a b c. s = a @ b @ c \<and> ToLower b \<in> set alternatives
    \<and> \<not> word_ends in_word a \<and> \<not> word_starts c"
  have "(\<exists>a. P a) \<longleftrightarrow> P [] \<or> (\<exists>y a. P (y # a))" for P :: "string \<Rightarrow> bool"
    by (metis list.exhaust)
  then have "(\<exists>a b c. ?found in_word (x # s) a b c) \<longleftrightarrow>
      (\<exists>b c. ?found in_word (x # s) [] b c) \<or> (\<exists>y a b c. ?found in_word (x # s) (y # a) b c)" .
  also have "(\<exists>b c. ?found in_word (x # s) [] b c) \<longleftrightarrow> \<not> in_word \<and> bounded_here alternatives (x # s)"
    by (auto simp: bounded_here_iff word_ends_def)
  also have "(\<exists>y a b c. ?found in_word (x # s) (y # a) b c) \<longleftrightarrow> find_bounded alternatives (word_char x) s"
    by (auto simp: Cons.IH word_ends_def)
  finally show ?case by simp
qed

end
