(* ===== verification/Linux_Drive.thy ===== *)
theory Linux_Drive
  imports Linux_Luks Go_Regexp "HOL-Library.AList" "HOL-Library.List_Lexorder" "HOL-Library.Char_ord"
begin

text \<open>
  \<open>pkg/os/linux_drive.go\<close>: the collector that looks for drives with the configured patterns
  whenever it is triggered, and reports which ones are gone and which ones are new.

  Go does not say in which order a loop over a map visits the entries: a pass gets the order
  as an argument, a function that permutes lists. Maps are association lists with distinct
  keys. \<open>sort.Slice\<close> is a stable sort here; the order that it gives to drives with equal
  device paths is that of the loop, hence any order.
\<close>

section \<open>Serial numbers\<close>

definition driveWithPartitionTableRx :: "string \<Rightarrow> bool" where
  "driveWithPartitionTableRx stdout =
     list_ex (\<lambda>line. HasPrefix (ToLower line) ''disklabel type'') (Split CHR ''\<newline>'' stdout)"

definition serialNumberRx :: "string \<Rightarrow> string option" where
  "serialNumberRx stdout = find_labelled ''Serial number:'' True stdout"

text \<open>How many bytes after the byte \<open>c\<close> belong to the same UTF-8 character; none after a byte
  that does not start a valid one.\<close>

definition rune_tail :: "char \<Rightarrow> string \<Rightarrow> nat" where
  "rune_tail c s =
     (let n = (of_char c :: nat);
          byte = (\<lambda>i lo hi. i < length s \<and> lo \<le> (of_char (s ! i) :: nat) \<and> of_char (s ! i) \<le> (hi :: nat));
          cont = (\<lambda>i. byte i 128 191)
      in if 194 \<le> n \<and> n \<le> 223 \<and> cont 0 then 1
         else if n = 224 \<and> byte 0 160 191 \<and> cont 1 then 2
         else if n = 237 \<and> byte 0 128 159 \<and> cont 1 then 2
         else if 225 \<le> n \<and> n \<le> 239 \<and> n \<noteq> 237 \<and> cont 0 \<and> cont 1 then 2
         else if n = 240 \<and> byte 0 144 191 \<and> cont 1 \<and> cont 2 then 3
         else if 241 \<le> n \<and> n \<le> 243 \<and> cont 0 \<and> cont 1 \<and> cont 2 then 3
         else if n = 244 \<and> byte 0 128 143 \<and> cont 1 \<and> cont 2 then 3
         else 0)"

definition plain_char :: "char \<Rightarrow> bool" where
  "plain_char c \<longleftrightarrow> letter_or_digit c \<or> c = CHR ''_'' \<or> c = CHR ''-''"

text \<open>Every character of the class \<open>[^a-zA-Z0-9_-]\<close> becomes "_".\<close>

fun sanitizeSerialNumber :: "string \<Rightarrow> string" where
  "sanitizeSerialNumber [] = []"
| "sanitizeSerialNumber (c # s) =
     (if plain_char c then c # sanitizeSerialNumber s
      else CHR ''_'' # sanitizeSerialNumber (drop (rune_tail c s) s))"

definition tryFindSerialNumberForBrokenDevice :: "'k host \<Rightarrow> string \<Rightarrow> ('k lworld, string option) io" where
  "tryFindSerialNumberForBrokenDevice h devicePath =
     bindM (run_lsblk h) (\<lambda>lsblkOutput.
     case FindSerialNumberForDevice lsblkOutput devicePath of
       Inl e \<Rightarrow> exitM e
     | Inr serialNumber \<Rightarrow> ret serialNumber)"

section \<open>CollectDrives\<close>

text \<open>"expand globs to find drives"\<close>

definition find_existing :: "'k host \<Rightarrow> string list \<Rightarrow> ('k lworld, (string \<times> string) list) io" where
  "find_existing h devicePathGlobs =
     foldM devicePathGlobs (\<lambda>pattern0 existing.
       let pattern = TrimPrefix pattern0 ''/''
       in bindM (sysM (sys_glob h pattern)) (\<lambda>r.
          case r of
            Inl err \<Rightarrow> log_fatal (''glob('' @ Quote pattern @ '') failed: '' @ error_text err)
          | Inr matches \<Rightarrow>
              foldM matches (\<lambda>globbedRelPath existing.
                bindM (bindM (evalSymlinksInChroot h globbedRelPath) must_Return) (\<lambda>devicePath.
                ret (AList.update (''/'' @ globbedRelPath) devicePath existing))) existing)) []"

text \<open>The part of the loop over new drives that decides whether to report one.\<close>

definition smartctl_serial :: "'k host \<Rightarrow> string \<Rightarrow> ('k lworld, string) io" where
  "smartctl_serial h devicePath =
     bindM (Run h (Command0\<lparr>SkipLog := True, NoChroot := True, NoNsenter := True\<rparr>)
              [''smartctl'', ''-d'', ''scsi'', ''-i'', TrimPrefix devicePath ''/'']) (\<lambda>(stdout, ok).
     ret (if ok then (case serialNumberRx stdout of None \<Rightarrow> [] | Some m1 \<Rightarrow> sanitizeSerialNumber m1)
          else []))"

definition inspect_drive :: "'k host \<Rightarrow> string \<Rightarrow> string \<Rightarrow> ('k lworld, os_drive option) io" where
  "inspect_drive h globbedPath devicePath =
     bindM (run h [''sfdisk'', ''-l'', devicePath]) (\<lambda>(stdout, _).
     if driveWithPartitionTableRx stdout then
       thenM (log_info (''ignoring drive '' @ devicePath @ '' because it contains partitions'')) (ret None)
     else if TrimSpace stdout = [] then
       bindM (tryFindSerialNumberForBrokenDevice h devicePath) (\<lambda>serialNumber.
       thenM (log_info (''ignoring drive '' @ devicePath @ '' because it is not readable''))
         (ret (map_option (\<lambda>s. \<lparr>od_DevicePath = devicePath, od_FoundAtPath = globbedPath,
                                od_SerialNumber = s\<rparr>) serialNumber)))
     else
       bindM (smartctl_serial h devicePath) (\<lambda>s.
       ret (Some \<lparr>od_DevicePath = devicePath, od_FoundAtPath = globbedPath, od_SerialNumber = s\<rparr>)))"

definition inspect_drives ::
    "'k host \<Rightarrow> (string \<times> string) list \<Rightarrow> ('k lworld, os_drive list) io" where
  "inspect_drives h fresh =
     foldM fresh (\<lambda>(globbedPath, devicePath) addedDrives.
       bindM (inspect_drive h globbedPath devicePath) (\<lambda>r.
       ret (case r of None \<Rightarrow> addedDrives | Some d \<Rightarrow> addedDrives @ [d]))) []"

text \<open>The two channels of the collector, as one sequence of messages.\<close>

datatype drive_message = Removed "string list" | Added "os_drive list"

definition gone_drives :: "(string \<times> string) list \<Rightarrow> (string \<times> string) list \<Rightarrow> (string \<times> string) list" where
  "gone_drives existing known = filter (\<lambda>gd. map_of existing (fst gd) = None) known"

definition kept_drives :: "(string \<times> string) list \<Rightarrow> (string \<times> string) list \<Rightarrow> (string \<times> string) list" where
  "kept_drives existing known = filter (\<lambda>gd. map_of existing (fst gd) \<noteq> None) known"

definition fresh_drives :: "(string \<times> string) list \<Rightarrow> (string \<times> string) list \<Rightarrow> (string \<times> string) list" where
  "fresh_drives existing known = filter (\<lambda>gd. map_of known (fst gd) = None) existing"

definition collect_pass ::
    "'k host \<Rightarrow> string list \<Rightarrow> ((string \<times> string) list \<Rightarrow> (string \<times> string) list)
     \<Rightarrow> (string \<times> string) list \<Rightarrow> ('k lworld, (string \<times> string) list \<times> drive_message list) io" where
  "collect_pass h devicePathGlobs order known =
     bindM (find_existing h devicePathGlobs) (\<lambda>existing.
     if existing = [] then
       log_fatal (''no drives found matching the configured patterns: '' @ Join '', '' devicePathGlobs)
     else
       let gone = gone_drives existing known;
           kept = kept_drives existing known;
           fresh = order (fresh_drives existing kept)
       in bindM (inspect_drives h fresh) (\<lambda>addedDrives.
          ret (kept @ fresh,
               (if gone \<noteq> [] then [Removed (sort (map snd gone))] else []) @
               (if addedDrives \<noteq> [] then [Added (sort_key od_DevicePath addedDrives)] else []))))"

text \<open>The work loop: one order for each trigger.\<close>

definition CollectDrives ::
    "'k host \<Rightarrow> string list \<Rightarrow> ((string \<times> string) list \<Rightarrow> (string \<times> string) list) list
     \<Rightarrow> ('k lworld, (string \<times> string) list \<times> drive_message list) io" where
  "CollectDrives h devicePathGlobs triggers =
     foldM triggers (\<lambda>order (known, sent).
       bindM (collect_pass h devicePathGlobs order known) (\<lambda>(known', messages).
       ret (known', sent @ messages))) ([], [])"

section \<open>Lemmas\<close>

lemma sanitize_plain: "list_all plain_char (sanitizeSerialNumber s)"
  by (induction s rule: sanitizeSerialNumber.induct) (auto simp: plain_char_def)

lemma sanitize_id: "list_all plain_char s \<Longrightarrow> sanitizeSerialNumber s = s"
  by (induction s) auto

lemma sanitize_length: "length (sanitizeSerialNumber s) \<le> length s"
proof (induction s rule: sanitizeSerialNumber.induct)
  case (2 c s)
  show ?case
  proof (cases "plain_char c")
    case False
    with 2(2) have "length (sanitizeSerialNumber (drop (rune_tail c s) s)) \<le> length s"
      by (metis diff_le_self le_trans length_drop)
    with False show ?thesis by simp
  qed (use 2(1) in simp)
qed simp

lemma sanitize_Nil_iff [simp]: "sanitizeSerialNumber s = [] \<longleftrightarrow> s = []"
  by (cases s) auto

lemma plain_file_name:
  assumes "list_all plain_char s" and "s \<noteq> []"
  shows "file_name s"
proof -
  have "\<not> plain_char CHR ''/''" "\<not> plain_char CHR ''.''" by code_simp+
  with assms show ?thesis by (auto simp: file_name_def list_all_iff)
qed

lemma find_labelled_word: "find_labelled label bol s = Some m \<Longrightarrow> m \<noteq> []"
  by (induction label bol s rule: find_labelled.induct)
     (auto simp: word_to_eol_def Let_def split: option.splits if_splits)

subsection \<open>A pass of the collector\<close>

text \<open>The paths that a pattern can match, and the devices that these paths lead to.\<close>

definition globbed :: "'k host \<Rightarrow> string list \<Rightarrow> string \<Rightarrow> bool" where
  "globbed h globs rel \<longleftrightarrow>
     (\<exists>g \<in> set globs. \<exists>k ms k'. sys_glob h (TrimPrefix g ''/'') k = (Inr ms, k') \<and> rel \<in> set ms)"

definition leads_to :: "'k host \<Rightarrow> string \<Rightarrow> string \<Rightarrow> bool" where
  "leads_to h rel dev \<longleftrightarrow>
     (\<exists>(w :: 'k lworld) w'. evalSymlinksInChroot h rel w = (Inr (Inr dev), w'))"

definition found_at :: "'k host \<Rightarrow> string list \<Rightarrow> (string \<times> string) \<Rightarrow> bool" where
  "found_at h globs gd \<longleftrightarrow>
     (\<exists>rel. fst gd = ''/'' @ rel \<and> globbed h globs rel \<and> leads_to h rel (snd gd))"

lemma must_Return_InrE:
  assumes "must_Return r w = (Inr x, w')" obtains "r = Inr x" and "w' = w"
  using assms by (cases r) (auto simp: must_Return_def)

lemma find_existing_value:
  assumes "find_existing h globs w = (Inr existing, w')"
  shows "distinct (map fst existing) \<and> (\<forall>gd \<in> set existing. found_at h globs gd)"
proof -
  let ?P = "\<lambda>ex. distinct (map fst ex) \<and> (\<forall>gd \<in> set ex. found_at h globs gd)"
  have inner: "?P ex'"
    if "foldM ms (\<lambda>rel ex. bindM (bindM (evalSymlinksInChroot h rel) must_Return) (\<lambda>dev.
          ret (AList.update (''/'' @ rel) dev ex))) ex w = (Inr ex', w')"
      and "?P ex" and "\<forall>rel \<in> set ms. globbed h globs rel" for ms ex ex' and w w' :: "'a lworld"
    using that(1,2)
  proof (rule foldM_keeps_value)
    fix rel v w v' w'
    assume rel: "rel \<in> set ms" and P: "?P v"
      and "bindM (bindM (evalSymlinksInChroot h rel) must_Return) (\<lambda>dev.
          ret (AList.update (''/'' @ rel) dev v)) w = (Inr v', w')"
    then obtain dev w1 where e: "evalSymlinksInChroot h rel w = (Inr (Inr dev), w1)"
      and v': "v' = AList.update (''/'' @ rel) dev v"
      by (auto elim!: bindM_InrE must_Return_InrE)
    from e rel that(3) have "found_at h globs (''/'' @ rel, dev)"
      by (auto simp: found_at_def leads_to_def)
    moreover have "set (AList.update k x xs) \<subseteq> insert (k, x) (set xs)" for k x and xs :: "(string \<times> string) list"
      by (induction xs) auto
    then have "set v' \<subseteq> insert (''/'' @ rel, dev) (set v)" unfolding v' .
    ultimately have "\<forall>gd \<in> set v'. found_at h globs gd" using P by blast
    with P v' show "?P v'" by (simp add: distinct_update)
  qed
  from assms show ?thesis
    unfolding find_existing_def
  proof (rule foldM_keeps_value)
    fix pat v w v' w'
    assume pat: "pat \<in> set globs" and P: "?P v"
      and "(let pattern = TrimPrefix pat ''/'' in bindM (sysM (sys_glob h pattern)) (\<lambda>r. case r of
            Inl err \<Rightarrow> log_fatal (''glob('' @ Quote pattern @ '') failed: '' @ error_text err)
          | Inr matches \<Rightarrow> foldM matches (\<lambda>globbedRelPath existing.
              bindM (bindM (evalSymlinksInChroot h globbedRelPath) must_Return) (\<lambda>devicePath.
              ret (AList.update (''/'' @ globbedRelPath) devicePath existing))) v)) w = (Inr v', w')"
    then obtain ms w1 where g: "sysM (sys_glob h (TrimPrefix pat ''/'')) w = (Inr (Inr ms), w1)"
      and f: "foldM ms (\<lambda>rel ex. bindM (bindM (evalSymlinksInChroot h rel) must_Return) (\<lambda>dev.
          ret (AList.update (''/'' @ rel) dev ex))) v w1 = (Inr v', w')"
      by (auto simp: Let_def elim!: bindM_InrE split: sum.splits)
    from g have "\<forall>rel \<in> set ms. globbed h globs rel"
      using pat by (auto simp: globbed_def sysM_def split: prod.splits)
    from inner [OF f P this] show "?P v'" .
  qed simp
qed

lemma inspect_drive_value:
  assumes "inspect_drive h g d w = (Inr (Some x), w')"
  shows "od_DevicePath x = d \<and> od_FoundAtPath x = g"
  using assms unfolding inspect_drive_def
  by (auto elim!: bindM_InrE thenM_InrE split: if_splits)

text \<open>The reported drives are some of the new ones, in the order of the loop.\<close>

lemma inspect_drives_value:
  assumes "inspect_drives h fresh w = (Inr added, w')"
  shows "subseq (map (\<lambda>x. (od_FoundAtPath x, od_DevicePath x)) added) fresh"
proof -
  let ?m = "map (\<lambda>x. (od_FoundAtPath x, od_DevicePath x))"
  let ?f = "\<lambda>(g, d) addedDrives. bindM (inspect_drive h g d) (\<lambda>r.
       ret (case r of None \<Rightarrow> addedDrives | Some x \<Rightarrow> addedDrives @ [x]))"
  have "\<exists>new. added = acc @ new \<and> subseq (?m new) fresh"
    if "foldM fresh ?f acc w = (Inr added, w')" for acc and w :: "'a lworld"
    using that
  proof (induction fresh arbitrary: acc w)
    case (Cons gd fresh)
    obtain g d where gd: "gd = (g, d)" by fastforce
    have "bindM (inspect_drive h g d) (\<lambda>r. foldM fresh ?f (case r of None \<Rightarrow> acc | Some x \<Rightarrow> acc @ [x])) w
        = (Inr added, w')"
      using Cons.prems by (simp only: foldM.simps gd prod.case bindM_assoc bindM_ret)
    then obtain r w1 where r: "inspect_drive h g d w = (Inr r, w1)"
      and f: "foldM fresh ?f (case r of None \<Rightarrow> acc | Some x \<Rightarrow> acc @ [x]) w1 = (Inr added, w')"
      by (rule bindM_InrE)
    from Cons.IH [OF f] obtain new where new: "added = (case r of None \<Rightarrow> acc | Some x \<Rightarrow> acc @ [x]) @ new"
      "subseq (?m new) fresh" by blast
    show ?case
    proof (cases r)
      case None
      with new show ?thesis by auto
    next
      case (Some x)
      with inspect_drive_value [of h g d w x w1] r new gd show ?thesis
        by (intro exI [of _ "x # new"]) auto
    qed
  qed simp
  from this [of "[]"] assms show ?thesis by (simp add: inspect_drives_def)
qed

lemma collect_pass_value:
  assumes "collect_pass h globs order known w = (Inr (known', messages), w')"
  obtains existing added where "distinct (map fst existing)" and "\<forall>gd \<in> set existing. found_at h globs gd"
    and "existing \<noteq> []"
    and "known' = kept_drives existing known @ order (fresh_drives existing (kept_drives existing known))"
    and "subseq (map (\<lambda>x. (od_FoundAtPath x, od_DevicePath x)) added)
           (order (fresh_drives existing (kept_drives existing known)))"
    and "messages = (if gone_drives existing known \<noteq> [] then [Removed (sort (map snd (gone_drives existing known)))] else [])
           @ (if added \<noteq> [] then [Added (sort_key od_DevicePath added)] else [])"
proof -
  from assms obtain existing w1 where e: "find_existing h globs w = (Inr existing, w1)"
    and *: "(if existing = [] then
       log_fatal (''no drives found matching the configured patterns: '' @ Join '', '' globs)
     else
       let gone = gone_drives existing known;
           kept = kept_drives existing known;
           fresh = order (fresh_drives existing kept)
       in bindM (inspect_drives h fresh) (\<lambda>addedDrives.
          ret (kept @ fresh,
               (if gone \<noteq> [] then [Removed (sort (map snd gone))] else []) @
               (if addedDrives \<noteq> [] then [Added (sort_key od_DevicePath addedDrives)] else [])))) w1
      = (Inr (known', messages), w')"
    unfolding collect_pass_def by (rule bindM_InrE)
  from * have ne: "existing \<noteq> []" by auto
  with * obtain added where i: "inspect_drives h (order (fresh_drives existing (kept_drives existing known))) w1 = (Inr added, w')"
    and "known' = kept_drives existing known @ order (fresh_drives existing (kept_drives existing known))"
    and "messages = (if gone_drives existing known \<noteq> [] then [Removed (sort (map snd (gone_drives existing known)))] else [])
           @ (if added \<noteq> [] then [Added (sort_key od_DevicePath added)] else [])"
    by (auto simp: Let_def elim!: bindM_InrE)
  with find_existing_value [OF e] ne inspect_drives_value [OF i] that show thesis by blast
qed

subsection \<open>The tables of mounts and mappings stay as they are\<close>

lemma keeps_must_Return [keeps_intros]: "keeps (\<lambda>w. P (osst w)) (must_Return r)"
  unfolding must_Return_def by (cases r) (auto intro!: keeps_intros)

lemma keeps_run_lsblk [keeps_intros]: "keeps (\<lambda>w. P (osst w)) (run_lsblk h)"
  unfolding run_lsblk_def by (auto split: sum.splits intro!: keeps_intros)

lemma keeps_find_existing [keeps_intros]: "keeps (\<lambda>w. P (osst w)) (find_existing h globs)"
  unfolding find_existing_def Let_def by (auto split: sum.splits intro!: keeps_intros)

lemma keeps_inspect_drive [keeps_intros]: "keeps (\<lambda>w. P (osst w)) (inspect_drive h g d)"
  unfolding inspect_drive_def tryFindSerialNumberForBrokenDevice_def smartctl_serial_def
  by (auto split: sum.splits intro!: keeps_intros)

lemma keeps_collect_pass [keeps_intros]: "keeps (\<lambda>w. P (osst w)) (collect_pass h globs order known)"
  unfolding collect_pass_def inspect_drives_def Let_def by (auto split: prod.splits intro!: keeps_intros)

end
