(* ===== verification/Linux_Kernellog.thy ===== *)
theory Linux_Kernellog
  imports Linux_Luks Go_Regexp
begin

text \<open>
  \<open>pkg/os/linux_kernellog.go\<close>: the collector that follows the kernel log with journalctl and
  reports the drives that a line about an error names. The lines are an argument: each
  \<open>ReadString\<close> on the pipe gives some text and possibly an error. The debug messages (off
  unless DEBUG is set) and the pause before the first read are not modelled.
\<close>

section \<open>The expressions\<close>

definition klogErrorRx :: "string \<Rightarrow> bool" where
  "klogErrorRx line =
     find_bounded [''error'', ''metadata corruption detected'', ''unmount and run xfs_repair''] False line"

definition klogDeviceRx :: "string \<Rightarrow> string option" where
  "klogDeviceRx line = find_sd False line"

section \<open>CollectDriveErrors\<close>

definition klog_argv :: "'k host \<Rightarrow> string list" where
  "klog_argv h =
     (let command = [''chroot'', ''.'', ''nsenter'', ''--ipc=/proc/1/ns/ipc'', ''--'', ''journalctl'', ''-kf'']
      in if geteuid h \<noteq> 0 then [''sudo''] @ command else command)"

text \<open>What one line makes the collector send.\<close>

definition klog_line :: "string \<Rightarrow> drive_error list" where
  "klog_line text =
     (let line = TrimSpace text
      in if line = [] then []
         else if \<not> klogErrorRx line then []
         else (case klogDeviceRx line of
                 None \<Rightarrow> []
               | Some name \<Rightarrow> [\<lparr>de_DevicePath = ''/dev/'' @ name, de_Message = line\<rparr>]))"

datatype read_error = EOF | ReadError string

definition klog_read :: "string \<times> read_error option \<Rightarrow> (('k, 's) world, drive_error list) io" where
  "klog_read r =
     thenM (case snd r of Some (ReadError e) \<Rightarrow> log_error e | _ \<Rightarrow> ret ())
           (ret (klog_line (fst r)))"

text \<open>\<open>popen\<close> stands for \<open>StdoutPipe\<close> and \<open>Start\<close>, with the error of the one that fails. The result is
  what has been sent over the channel, each element one send.\<close>

definition klog_start ::
    "'k host \<Rightarrow> (string list \<Rightarrow> (('k, 's) world, string + unit) io) \<Rightarrow> (('k, 's) world, unit) io" where
  "klog_start h popen = bindM (popen (klog_argv h)) must_Return"

definition CollectDriveErrors ::
    "'k host \<Rightarrow> (string list \<Rightarrow> (('k, 's) world, string + unit) io) \<Rightarrow> (string \<times> read_error option) list
     \<Rightarrow> (('k, 's) world, drive_error list list) io" where
  "CollectDriveErrors h popen reads =
     bindM (klog_start h popen) (\<lambda>_.
       foldM reads (\<lambda>r sent. bindM (klog_read r) (\<lambda>errs.
         ret (if errs = [] then sent else sent @ [errs]))) [])"

section \<open>Properties\<close>

text \<open>An error phrase stands in the line as whole words.\<close>

definition mentions_error :: "string \<Rightarrow> bool" where
  "mentions_error line \<longleftrightarrow> (\<exists>a b c. line = a @ b @ c \<and>
     ToLower b \<in> {''error'', ''metadata corruption detected'', ''unmount and run xfs_repair''} \<and>
     \<not> word_ends False a \<and> \<not> word_starts c)"

text \<open>C24: A line of the kernel log is reported for the first disk that it names. The collector
  reports a line if and only if an error phrase stands in it as whole words, in any case,
  and one of its words is "sd" with one or two small letters; the drive is the first such
  word, and the message is the line without the white space around it.\<close>

theorem kernel_log_names_first_disk:
  "klog_line text =
     (case find sd_name (words_of (TrimSpace text)) of
        Some name \<Rightarrow> if mentions_error (TrimSpace text)
                    then [\<lparr>de_DevicePath = ''/dev/'' @ name, de_Message = TrimSpace text\<rparr>] else []
      | None \<Rightarrow> [])"
proof -
  have "klogErrorRx line = mentions_error line" for line
    unfolding klogErrorRx_def mentions_error_def by (subst find_bounded_iff) auto
  moreover have "klogDeviceRx line = find sd_name (words_of line)" for line
    by (simp add: klogDeviceRx_def find_sd_words)
  moreover have "find sd_name (words_of []) = None" by (simp add: sd_name_def)
  ultimately show ?thesis
    by (auto simp: klog_line_def Let_def split: option.splits)
qed

end
