(* ===== verification/Collectors.thy ===== *)
theory Collectors
  imports Converger Linux_Drive Linux_Kernellog
begin

text \<open>
  \<open>collectors.go\<close>: the goroutines that turn what happens on the machine into batches of events
  for the converger. Each function here gives the batches that a collector sends, in order;
  how the collectors and the converger run beside each other is in theory \<open>System\<close>.
\<close>

section \<open>Drives\<close>

text \<open>What \<open>CollectDriveEvents\<close> makes of a message of \<open>CollectDrives\<close>.\<close>

primrec drive_events :: "drive_message \<Rightarrow> event list" where
  "drive_events (Added drives) =
     map (\<lambda>d. DriveAddedEvent (od_DevicePath d) (od_FoundAtPath d) (od_SerialNumber d)) drives"
| "drive_events (Removed devicePaths) = map DriveRemovedEvent devicePaths"

definition CollectDriveEvents ::
    "'k host \<Rightarrow> Configuration \<Rightarrow> ((string \<times> string) list \<Rightarrow> (string \<times> string) list) list
     \<Rightarrow> ('k lworld, event list list) io" where
  "CollectDriveEvents h cfg triggers =
     bindM (CollectDrives h (DriveGlobs cfg) triggers) (\<lambda>(_, messages). ret (map drive_events messages))"

section \<open>Reinstatements\<close>

definition broken_flag_dirs :: "string list" where
  "broken_flag_dirs = [''run/swift-storage/broken'', ''var/lib/swift-storage/broken'']"

text \<open>The loop over the two directories; \<open>None\<close> is the jump to the label OUTER.\<close>

fun find_broken ::
    "'k host \<Rightarrow> string list \<Rightarrow> string list \<Rightarrow> (('k, 's) world, string list option) io" where
  "find_broken h [] newBrokenDevices = ret (Some newBrokenDevices)"
| "find_broken h (brokenFlagDir # dirs) newBrokenDevices =
     bindM (ForeachSymlinkIn h brokenFlagDir (\<lambda>name devicePath. List.insert devicePath) newBrokenDevices)
       (\<lambda>(success, broken). if \<not> success then ret None else find_broken h dirs broken)"

text \<open>One turn of the loop. The set \<open>brokenDevices\<close> is a list without repetitions, and \<open>order\<close>
  the order in which the loop over it goes.\<close>

definition reinstatement_pass ::
    "'k host \<Rightarrow> (string list \<Rightarrow> string list) \<Rightarrow> string list
     \<Rightarrow> (('k, 's) world, (string list \<times> event list) option) io" where
  "reinstatement_pass h order brokenDevices =
     bindM (find_broken h broken_flag_dirs []) (\<lambda>r.
     ret (case r of
            None \<Rightarrow> None
          | Some newBrokenDevices \<Rightarrow>
              Some (newBrokenDevices,
                    map DriveReinstatedEvent
                      (filter (\<lambda>p. p \<notin> set newBrokenDevices) (order brokenDevices)))))"

definition CollectReinstatements ::
    "'k host \<Rightarrow> (string list \<Rightarrow> string list) list \<Rightarrow> (('k, 's) world, string list \<times> event list list) io" where
  "CollectReinstatements h turns =
     foldM turns (\<lambda>order (brokenDevices, sent).
       bindM (reinstatement_pass h order brokenDevices) (\<lambda>r.
       ret (case r of
              None \<Rightarrow> (brokenDevices, sent)
            | Some (newBrokenDevices, events) \<Rightarrow>
                (newBrokenDevices, if length events > 0 then sent @ [events] else sent)))) ([], [])"

section \<open>Wakeups and the kernel log\<close>

definition ScheduleWakeups :: "'k host \<Rightarrow> nat \<Rightarrow> (('k, 's) world, event list list) io" where
  "ScheduleWakeups h n =
     bindM (StandardTrigger h ''run/swift-storage/wakeup'' False n) (\<lambda>triggers.
     ret (replicate triggers [WakeupEvent]))"

definition error_events :: "drive_error list \<Rightarrow> event list list" where
  "error_events errs = map (\<lambda>err. [DriveErrorEvent (de_DevicePath err) (de_Message err)]) errs"

definition WatchKernelLog ::
    "'k host \<Rightarrow> (string list \<Rightarrow> (('k, 's) world, string + unit) io) \<Rightarrow> (string \<times> read_error option) list
     \<Rightarrow> (('k, 's) world, event list list) io" where
  "WatchKernelLog h popen reads =
     bindM (CollectDriveErrors h popen reads) (\<lambda>errors. ret (concat (map error_events errors)))"

section \<open>Reinstatements: lemmas\<close>

text \<open>Listing a directory and reading a link change nothing.\<close>

definition reads_only :: "'k host \<Rightarrow> bool" where
  "reads_only h \<longleftrightarrow>
     (\<forall>p k. snd (sys_readdir h p k) = k) \<and> (\<forall>p k. snd (sys_readlink h p k) = k)"

text \<open>Where the links in the directory point to.\<close>

definition link_targets :: "'k host \<Rightarrow> 'k \<Rightarrow> string \<Rightarrow> string set" where
  "link_targets h k dir =
     {p. \<exists>fis name. fst (sys_readdir h dir k) = Inr fis \<and> (name, True) \<in> set fis \<and>
         fst (sys_readlink h (FpJoin [dir, name]) k) = Inr p}"

lemma visit_entries_value:
  assumes "foldM fis (visit_entry h dir (\<lambda>_. List.insert)) (ok0, acc) w = (Inr (True, acc'), w')"
    and "reads_only h"
  shows "ok0 \<and> kern w' = kern w \<and> (distinct acc \<longrightarrow> distinct acc') \<and>
    set acc' = set acc \<union> {p. \<exists>name. (name, True) \<in> set fis \<and> fst (sys_readlink h (FpJoin [dir, name]) (kern w)) = Inr p}"
  using assms(1)
proof (induction fis arbitrary: ok0 acc w)
  case Nil
  then show ?case by simp
next
  case (Cons fi fis)
  obtain name link where fi: "fi = (name, link)" by fastforce
  let ?r = "sys_readlink h (FpJoin [dir, name]) (kern w)"
  have k: "snd ?r = kern w" using assms(2) by (simp add: reads_only_def)
  from Cons.prems obtain ok1 acc1 w1 where
    v: "visit_entry h dir (\<lambda>_. List.insert) fi (ok0, acc) w = (Inr (ok1, acc1), w1)"
    and f: "foldM fis (visit_entry h dir (\<lambda>_. List.insert)) (ok1, acc1) w1 = (Inr (True, acc'), w')"
    by (auto elim!: bindM_InrE)
  note ih = Cons.IH [OF f]
  show ?case
  proof (cases link)
    case False
    with v fi have "ok1 = ok0" "acc1 = acc" "w1 = w" by (auto simp: visit_entry_def)
    with ih fi False show ?thesis by auto
  next
    case True
    show ?thesis
    proof (cases "fst ?r")
      case (Inl e)
      with v fi True have "\<not> ok1"
        by (auto simp: visit_entry_def bindM_def sysM_def thenM_def split: prod.splits)
      with ih show ?thesis by blast
    next
      case (Inr p)
      with v fi True k have "ok1 = ok0" "acc1 = List.insert p acc" "kern w1 = kern w"
        by (auto simp: visit_entry_def bindM_def sysM_def split: prod.splits)
      with ih fi True Inr show ?thesis by auto
    qed
  qed
qed

lemma ForeachSymlinkIn_value:
  assumes "ForeachSymlinkIn h dir (\<lambda>_. List.insert) acc w = (Inr (True, acc'), w')" and "reads_only h"
  shows "kern w' = kern w \<and> (distinct acc \<longrightarrow> distinct acc') \<and>
    set acc' = set acc \<union> link_targets h (kern w) dir"
proof -
  obtain r k where rk: "sys_readdir h dir (kern w) = (r, k)" by fastforce
  with assms(2) have k: "k = kern w" unfolding reads_only_def by (metis snd_conv)
  from assms(1) rk obtain fis where r: "r = Inr fis"
    by (auto simp: ForeachSymlinkIn_def bindM_def sysM_def thenM_def split: sum.splits)
  from assms(1) rk r k
  have "foldM fis (visit_entry h dir (\<lambda>_. List.insert)) (True, acc) (w\<lparr>kern := kern w\<rparr>) = (Inr (True, acc'), w')"
    by (simp add: ForeachSymlinkIn_def bindM_def sysM_def)
  from visit_entries_value [OF this assms(2)] rk r show ?thesis
    by (simp add: link_targets_def)
qed

lemma find_broken_value:
  assumes "find_broken h dirs acc w = (Inr (Some acc'), w')" and "reads_only h"
  shows "kern w' = kern w \<and> (distinct acc \<longrightarrow> distinct acc') \<and>
    set acc' = set acc \<union> (\<Union>dir \<in> set dirs. link_targets h (kern w) dir)"
  using assms(1)
proof (induction dirs arbitrary: acc w)
  case (Cons dir dirs)
  then obtain acc1 w1 where f: "ForeachSymlinkIn h dir (\<lambda>_. List.insert) acc w = (Inr (True, acc1), w1)"
    and r: "find_broken h dirs acc1 w1 = (Inr (Some acc'), w')"
    by (auto elim!: bindM_InrE split: if_splits)
  from ForeachSymlinkIn_value [OF f assms(2)] Cons.IH [OF r] show ?case by auto
qed simp

lemma keeps_find_broken [keeps_intros]: "keeps (\<lambda>w. P (osst w)) (find_broken h dirs acc)"
  by (induction dirs arbitrary: acc) (auto intro!: keeps_intros)

lemma keeps_reinstatement_pass [keeps_intros]: "keeps (\<lambda>w. P (osst w)) (reinstatement_pass h order broken)"
  unfolding reinstatement_pass_def by (auto intro!: keeps_intros)

lemma keeps_klog_start [keeps_intros]:
  assumes "\<And>argv. keeps (\<lambda>w. P (osst w)) (popen argv)"
  shows "keeps (\<lambda>w. P (osst w)) (klog_start h popen)"
  unfolding klog_start_def must_Return_def
  by (rule keeps_bindM [OF assms]) (auto split: sum.split intro!: keeps_intros)

lemma keeps_klog_read [keeps_intros]: "keeps (\<lambda>w. P (osst w)) (klog_read r)"
  unfolding klog_read_def by (auto split: option.splits read_error.splits intro!: keeps_intros)

section \<open>Properties\<close>

text \<open>C23: A reinstatement is the removal of the last flag of a device. A turn of
  \<open>CollectReinstatements\<close> that can read both directories remembers exactly the devices that
  a link in one of them points to, and sends one event for each device that it remembered
  before and that no link points to any more.\<close>

theorem reinstatements_are_removed_flags:
  assumes "reinstatement_pass h order broken w = (Inr (Some (broken', events)), w')"
    and "distinct broken" and "mset (order broken) = mset broken" and "reads_only h"
  shows "set broken' = (\<Union>dir \<in> set broken_flag_dirs. link_targets h (kern w) dir) \<and> distinct broken' \<and>
    distinct events \<and> set events = DriveReinstatedEvent ` (set broken - set broken')"
proof -
  from assms(1) have f: "find_broken h broken_flag_dirs [] w = (Inr (Some broken'), w')"
    and events: "events = map DriveReinstatedEvent (filter (\<lambda>p. p \<notin> set broken') (order broken))"
    by (auto simp: reinstatement_pass_def elim!: bindM_InrE split: option.splits)
  have "set (order broken) = set broken" "distinct (order broken)"
    using assms(2,3) by (metis mset_eq_setD, metis mset_eq_imp_distinct_iff)
  moreover have "inj DriveReinstatedEvent" by (simp add: inj_on_def)
  ultimately show ?thesis
    using find_broken_value [OF f assms(4)]
    by (auto simp: events distinct_map inj_on_def)
qed

definition flagged_host :: "trace host" where
  "flagged_host = quiet_host
     \<lparr>sys_readdir := (\<lambda>dir k. (Inr (if dir = ''run/swift-storage/broken'' then [(''B'', True), (''lost+found'', False)] else []), k)),
      sys_readlink := (\<lambda>p k. (if p = ''run/swift-storage/broken/B'' then Inr ''/dev/sdb'' else Inl (NotExist []), k))\<rparr>"

theorem reinstatements_are_removed_flags_witness:
  "\<exists>broken' events w'. reinstatement_pass flagged_host id [''/dev/sda'', ''/dev/sdb''] sample_world
       = (Inr (Some (broken', events)), w') \<and>
     set broken' = {''/dev/sdb''} \<and> set events = {DriveReinstatedEvent ''/dev/sda''}"
proof -
  have path: "FpJoin [''run/swift-storage/broken'', ''B''] = ''run/swift-storage/broken/B''" by code_simp
  have "ForeachSymlinkIn flagged_host ''run/swift-storage/broken'' (\<lambda>_. List.insert) [] w = (Inr (True, [''/dev/sdb'']), w)"
    for w :: "(trace, unit) world"
    by (simp add: ForeachSymlinkIn_def visit_entry_def bindM_def sysM_def flagged_host_def path)
  moreover have "ForeachSymlinkIn flagged_host ''var/lib/swift-storage/broken'' (\<lambda>_. List.insert) acc w = (Inr (True, acc), w)"
    for acc and w :: "(trace, unit) world"
    by (simp add: ForeachSymlinkIn_def bindM_def sysM_def flagged_host_def)
  ultimately have "find_broken flagged_host broken_flag_dirs [] sample_world = (Inr (Some [''/dev/sdb'']), sample_world)"
    by (simp add: broken_flag_dirs_def bindM_def)
  then have r: "reinstatement_pass flagged_host id [''/dev/sda'', ''/dev/sdb''] sample_world
      = (Inr (Some ([''/dev/sdb''], [DriveReinstatedEvent ''/dev/sda''])), sample_world)"
    by (simp add: reinstatement_pass_def bindM_def)
  have "reads_only flagged_host" by (simp add: reads_only_def flagged_host_def)
  from reinstatements_are_removed_flags [OF r _ _ this]
  have "set [DriveReinstatedEvent ''/dev/sda''] = DriveReinstatedEvent ` (set [''/dev/sda'', ''/dev/sdb''] - set [''/dev/sdb''])"
    by simp
  then have "set [DriveReinstatedEvent ''/dev/sda''] = {DriveReinstatedEvent ''/dev/sda''}" by simp
  with r show ?thesis
    by (intro exI [of _ "[''/dev/sdb'']"] exI [of _ "[DriveReinstatedEvent ''/dev/sda'']"]
        exI [of _ sample_world]) simp
qed

text \<open>C25: The serial number of a drive is safe as a file name. What is taken from the output of
  smartctl has no more bytes than the serial number printed there, is the same when it is
  plain, does not change when it is cleaned again, and names a file: the broken-flag of the
  drive lies directly in the directory for the flags.\<close>

theorem serial_number_is_file_name:
  assumes "serialNumberRx stdout = Some m"
  shows "file_name (sanitizeSerialNumber m) \<and> length (sanitizeSerialNumber m) \<le> length m \<and>
    (list_all plain_char m \<longrightarrow> sanitizeSerialNumber m = m) \<and>
    sanitizeSerialNumber (sanitizeSerialNumber m) = sanitizeSerialNumber m \<and>
    dir_part (TransientBrokenFlagPath (d\<lparr>DriveID := sanitizeSerialNumber m\<rparr>)) = ''/run/swift-storage/broken/''"
proof -
  have "m \<noteq> []" using assms find_labelled_word unfolding serialNumberRx_def by blast
  then have f: "file_name (sanitizeSerialNumber m)" by (simp add: plain_file_name sanitize_plain)
  then have "CHR ''/'' \<notin> set (sanitizeSerialNumber m)" by (simp add: file_name_def)
  from dir_part_append [OF this, of "''/run/swift-storage/broken''"]
  have "dir_part (TransientBrokenFlagPath (d\<lparr>DriveID := sanitizeSerialNumber m\<rparr>)) = ''/run/swift-storage/broken/''"
    by (simp add: TransientBrokenFlagPath_def)
  with f show ?thesis by (simp add: sanitize_length sanitize_id sanitize_plain)
qed

theorem serial_number_is_file_name_witness:
  "file_name (sanitizeSerialNumber ''WD/../X+1]'') \<and> length (sanitizeSerialNumber ''WD/../X+1]'') \<le> 10"
proof -
  have "serialNumberRx (''Vendor: LIO'' @ ''\<newline>'' @ ''Serial number:  WD/../X+1] '' @ ''\<newline>'') = Some ''WD/../X+1]''"
    by code_simp
  note s = serial_number_is_file_name [OF this]
  have "length ''WD/../X+1]'' = 10" by simp
  with conjunct1 [OF s] conjunct1 [OF conjunct2 [OF s]] show ?thesis
    by (simp only: simp_thms)
qed

end
