(* ===== verification/System.thy ===== *)
theory System
  imports Collectors Linux_Tools
begin

text \<open>
  \<open>main.go\<close> and the process as a whole: the start-up, and then the goroutines that it starts (the
  server for the metrics, the four collectors and what the integration tests need), the channel
  to the converger and the converger as a step relation. The turns of the
  collectors and the iterations of the converger are atomic steps, in any order, and the
  rest of the machine may change between any two of them. A collector waits when the channel
  is full.
\<close>

section \<open>Start-up\<close>

definition main_prepare :: "'k host \<Rightarrow> Configuration \<Rightarrow> ('k lworld, unit) io" where
  "main_prepare h cfg =
     (let workingDir = (if ChrootPath cfg \<noteq> [] then ChrootPath cfg else ''/'')
      in bindM (sysM (sys_chdir h workingDir)) (\<lambda>err.
         case err of
           Some e \<Rightarrow> log_fatal (''chdir to '' @ workingDir @ '': '' @ error_text e)
         | None \<Rightarrow>
             thenM (Run h (Command0\<lparr>ExitOnError := True\<rparr>)
                      [''mkdir'', ''-p'',
                       ''/run/swift-storage/broken'',
                       ''/run/swift-storage/state/unmount-propagation'',
                       ''/var/cache/swift'',
                       ''/var/lib/swift-storage/broken''])
             (bindM (bindM (NewLinux h) must_Return) (\<lambda>l.
              thenM (put_os l)
                    (linux_Chown h ''/var/cache/swift'' (OwnerUser cfg) (OwnerGroup cfg))))))"

section \<open>The goroutines\<close>

datatype collector = DriveCollector | ReinstatementCollector | WakeupScheduler | KernelLogWatcher

datatype goroutine = MetricsServer string | Collector collector | TestMode test_goroutine

text \<open>What the goroutine of the metrics does with \<open>res\<close>, the result of
  \<open>httpext.ListenAndServeContext\<close>: an error ends the process (\<open>must.Succeed\<close>), without one only
  the goroutine ends.\<close>

definition metrics_returns :: "string option \<Rightarrow> (('k, 's) world, unit) io" where
  "metrics_returns res = (case res of Some err \<Rightarrow> log_fatal err | None \<Rightarrow> ret ())"

definition metrics_server :: "Configuration \<Rightarrow> goroutine list" where
  "metrics_server cfg =
     (if MetricsListenAddress cfg \<noteq> [] then [MetricsServer (MetricsListenAddress cfg)] else [])"

definition collectors :: "goroutine list" where
  "collectors = map Collector [DriveCollector, ReinstatementCollector, WakeupScheduler, KernelLogWatcher]"

text \<open>The function \<open>main\<close> up to \<open>RunConverger\<close>: the goroutines that run beside the converger.\<close>

definition goroutines :: "'k host \<Rightarrow> Configuration \<Rightarrow> goroutine list" where
  "goroutines h cfg =
     metrics_server cfg @ collectors @ (if InTestMode h then map TestMode SetupTestMode else [])"

definition main_start :: "'k host \<Rightarrow> Configuration \<Rightarrow> ('k lworld, goroutine list) io" where
  "main_start h cfg = thenM (main_prepare h cfg) (ret (goroutines h cfg))"

section \<open>The state of the process\<close>

text \<open>The maps of the collectors, whether the watcher of the kernel log has started journalctl, the
  batches that each collector still has to send, the channel, and the state of the converger.\<close>

record 'k system =
  st_world :: "'k lworld"
  st_known :: "(string \<times> string) list"
  st_flagged :: "string list"
  st_watching :: bool
  st_pending :: "collector \<Rightarrow> event list list"
  st_queue :: "event list list"
  st_converger :: converger

datatype 'k process = Running "'k system" | Ended exit

definition queue_capacity :: nat where
  "queue_capacity = 10"

definition initial_system :: "'k lworld \<Rightarrow> 'k system" where
  "initial_system w =
     \<lparr>st_world = w, st_known = [], st_flagged = [], st_watching = False, st_pending = (\<lambda>_. []), st_queue = [],
      st_converger = \<lparr>Drives = [], eventCounter = metrics_init\<rparr>\<rparr>"

definition permutes :: "('a list \<Rightarrow> 'a list) \<Rightarrow> bool" where
  "permutes order \<longleftrightarrow> (\<forall>xs. mset (order xs) = mset xs)"

section \<open>The steps\<close>

text \<open>
  The drive collector and the watcher of the kernel log hand their messages to a second goroutine,
  which may still have one batch to send when the next turn begins. The other collectors begin a
  turn only when they have sent everything. Before its first turn, the watcher starts journalctl,
  and what comes of that (\<open>popen\<close>) may be anything.
\<close>

inductive sys_step :: "'k host \<Rightarrow> Configuration \<Rightarrow> 'k process \<Rightarrow> 'k process \<Rightarrow> bool"
  for h :: "'k host" and cfg :: Configuration where
  environment:
    "sys_step h cfg (Running s) (Running (s\<lparr>st_world := (st_world s)\<lparr>kern := k\<rparr>\<rparr>))"
| drives:
    "length (st_pending s DriveCollector) \<le> 1 \<Longrightarrow> permutes order \<Longrightarrow>
     collect_pass h (DriveGlobs cfg) order (st_known s) (st_world s) = (Inr (known', messages), w') \<Longrightarrow>
     sys_step h cfg (Running s)
       (Running (s\<lparr>st_world := w', st_known := known',
          st_pending := (st_pending s)(DriveCollector := st_pending s DriveCollector @ map drive_events messages)\<rparr>))"
| drives_exit:
    "length (st_pending s DriveCollector) \<le> 1 \<Longrightarrow> permutes order \<Longrightarrow>
     collect_pass h (DriveGlobs cfg) order (st_known s) (st_world s) = (Inl e, w') \<Longrightarrow>
     sys_step h cfg (Running s) (Ended e)"
| reinstatements:
    "st_pending s ReinstatementCollector = [] \<Longrightarrow> permutes order \<Longrightarrow>
     reinstatement_pass h order (st_flagged s) (st_world s) = (Inr (Some (flagged', events)), w') \<Longrightarrow>
     sys_step h cfg (Running s)
       (Running (s\<lparr>st_world := w', st_flagged := flagged',
          st_pending := (st_pending s)(ReinstatementCollector := (if length events > 0 then [events] else []))\<rparr>))"
| reinstatements_failed:
    "st_pending s ReinstatementCollector = [] \<Longrightarrow>
     reinstatement_pass h order (st_flagged s) (st_world s) = (Inr None, w') \<Longrightarrow>
     sys_step h cfg (Running s) (Running (s\<lparr>st_world := w'\<rparr>))"
| wakeup:
    "st_pending s WakeupScheduler = [] \<Longrightarrow>
     sys_step h cfg (Running s)
       (Running (s\<lparr>st_pending := (st_pending s)(WakeupScheduler := [[WakeupEvent]])\<rparr>))"
| kernel_log_start:
    "\<not> st_watching s \<Longrightarrow> klog_start h (\<lambda>argv. sysM (popen argv)) (st_world s) = (Inr (), w') \<Longrightarrow>
     sys_step h cfg (Running s) (Running (s\<lparr>st_world := w', st_watching := True\<rparr>))"
| kernel_log_exit:
    "\<not> st_watching s \<Longrightarrow> klog_start h (\<lambda>argv. sysM (popen argv)) (st_world s) = (Inl e, w') \<Longrightarrow>
     sys_step h cfg (Running s) (Ended e)"
| kernel_log:
    "st_watching s \<Longrightarrow> length (st_pending s KernelLogWatcher) \<le> 1 \<Longrightarrow>
     klog_read r (st_world s) = (Inr errs, w') \<Longrightarrow>
     sys_step h cfg (Running s)
       (Running (s\<lparr>st_world := w',
          st_pending := (st_pending s)(KernelLogWatcher := st_pending s KernelLogWatcher @ error_events errs)\<rparr>))"
| send:
    "st_pending s c = b # bs \<Longrightarrow> length (st_queue s) < queue_capacity \<Longrightarrow>
     sys_step h cfg (Running s)
       (Running (s\<lparr>st_queue := st_queue s @ [b], st_pending := (st_pending s)(c := bs)\<rparr>))"
| converge:
    "st_queue s = b # bs \<Longrightarrow>
     converger_iteration h (linux_osi h) cfg b (st_converger s) (st_world s) = (Inr c', w') \<Longrightarrow>
     sys_step h cfg (Running s)
       (Running (s\<lparr>st_world := w', st_queue := bs, st_converger := c'\<rparr>))"
| converge_exit:
    "st_queue s = b # bs \<Longrightarrow>
     converger_iteration h (linux_osi h) cfg b (st_converger s) (st_world s) = (Inl e, w') \<Longrightarrow>
     sys_step h cfg (Running s) (Ended e)"
| metrics:
    "MetricsServer addr \<in> set (goroutines h cfg) \<Longrightarrow> metrics_returns res (st_world s) = (Inr (), w') \<Longrightarrow>
     sys_step h cfg (Running s) (Running (s\<lparr>st_world := w'\<rparr>))"
| metrics_exit:
    "MetricsServer addr \<in> set (goroutines h cfg) \<Longrightarrow> metrics_returns res (st_world s) = (Inl e, w') \<Longrightarrow>
     sys_step h cfg (Running s) (Ended e)"
| test_mode:
    "TestMode g \<in> set (goroutines h cfg) \<Longrightarrow> test_turn g (st_world s) = (Inr (), w') \<Longrightarrow>
     sys_step h cfg (Running s) (Running (s\<lparr>st_world := w'\<rparr>))"
| test_mode_exit:
    "TestMode g \<in> set (goroutines h cfg) \<Longrightarrow> test_turn g (st_world s) = (Inl e, w') \<Longrightarrow>
     sys_step h cfg (Running s) (Ended e)"

inductive_cases sys_stepE: "sys_step h cfg (Running s) (Running s')"
lemmas sys_step_cases = sys_stepE [consumes 1, case_names environment drives reinstatements
  reinstatements_failed wakeup kernel_log_start kernel_log send converge metrics test_mode]

inductive_cases sys_exitE: "sys_step h cfg (Running s) (Ended e)"
lemmas sys_exit_cases = sys_exitE [consumes 1, case_names drives kernel_log converge metrics test_mode]

inductive_cases ended_stepE: "sys_step h cfg (Ended e) p"

inductive reachable :: "'k host \<Rightarrow> Configuration \<Rightarrow> 'k lworld \<Rightarrow> 'k process \<Rightarrow> bool"
  for h :: "'k host" and cfg :: Configuration and w0 :: "'k lworld" where
  start: "reachable h cfg w0 (Running (initial_system w0))"
| step: "reachable h cfg w0 p \<Longrightarrow> sys_step h cfg p p' \<Longrightarrow> reachable h cfg w0 p'"

text \<open>An invariant of the running states.\<close>

lemma reachable_induct_running:
  assumes "reachable h cfg w0 (Running s)"
    and "I (initial_system w0)"
    and "\<And>s s'. I s \<Longrightarrow> sys_step h cfg (Running s) (Running s') \<Longrightarrow> I s'"
  shows "I s"
proof -
  have "case p of Running s \<Rightarrow> I s | Ended _ \<Rightarrow> True" if "reachable h cfg w0 p" for p
    using that
  proof induction
    case start
    with assms(2) show ?case by simp
  next
    case (step p p')
    then show ?case by (auto split: process.splits elim: ended_stepE intro: assms(3))
  qed
  from this [OF assms(1)] show ?thesis by simp
qed

lemma metrics_in_goroutines [simp]:
  "MetricsServer addr \<in> set (goroutines h cfg) \<longleftrightarrow> addr = MetricsListenAddress cfg \<and> addr \<noteq> []"
  by (auto simp: goroutines_def metrics_server_def collectors_def)

lemma test_mode_in_goroutines [simp]: "TestMode g \<in> set (goroutines h cfg) \<longleftrightarrow> InTestMode h"
  by (cases g) (auto simp: goroutines_def metrics_server_def collectors_def SetupTestMode_def)

lemma metrics_returns_Inl: "metrics_returns res w = (Inl e, w') \<Longrightarrow> \<exists>err. res = Some err \<and> e = Fatal err"
  by (auto simp: metrics_returns_def split: option.splits)

lemma klog_start_Inl:
  "klog_start h (\<lambda>argv. sysM (popen argv)) w = (Inl e, w') \<Longrightarrow> \<exists>err. e = Fatal err"
  by (auto simp: klog_start_def must_Return_def sysM_def bindM_def split: prod.splits sum.splits)

lemma klog_start_fails: "\<exists>w'. klog_start h (\<lambda>argv. sysM (\<lambda>k. (Inl err, k))) w = (Inl (Fatal err), w')"
  by (simp add: klog_start_def must_Return_def sysM_def bindM_def)

lemma test_turn_Inl: "test_turn g w = (Inl e, w') \<Longrightarrow> g = SigpipeHandler \<and> e = Exited 0"
  by (cases g) auto

text \<open>The goroutines beside the collectors and the start of journalctl leave the tables alone.\<close>

lemma keeps_klog_popen: "keeps (\<lambda>w. P (osst w)) (klog_start h (\<lambda>argv. sysM (popen argv)))"
  by (intro keeps_intros)

lemma keeps_metrics_returns [keeps_intros]: "keeps (\<lambda>w. P (osst w)) (metrics_returns res)"
  unfolding metrics_returns_def by (auto split: option.splits intro!: keeps_intros)

lemma keeps_test_turn [keeps_intros]: "keeps (\<lambda>w. P (osst w)) (test_turn g)"
  by (cases g) (auto intro!: keeps_intros)

lemma main_start_iff:
  "main_start h cfg w = (Inr gs, w0) \<longleftrightarrow> main_prepare h cfg w = (Inr (), w0) \<and> gs = goroutines h cfg"
  by (auto simp: main_start_def thenM_def bindM_def split: prod.splits sum.splits)

lemmas main_start_prepared = main_start_iff [THEN iffD1, THEN conjunct1]

section \<open>The channel\<close>

definition drive_event :: "event \<Rightarrow> bool" where
  "drive_event e \<longleftrightarrow> (case e of DriveAddedEvent _ _ _ \<Rightarrow> True | DriveRemovedEvent _ \<Rightarrow> True | _ \<Rightarrow> False)"

text \<open>The channel is never over its capacity, no batch is empty, and only the drive collector
  reports drives that come or go.\<close>

definition channel_ok :: "'k system \<Rightarrow> bool" where
  "channel_ok s \<longleftrightarrow>
     length (st_queue s) \<le> queue_capacity \<and> [] \<notin> set (st_queue s) \<and> (\<forall>c. [] \<notin> set (st_pending s c)) \<and>
     (\<forall>c. c \<noteq> DriveCollector \<longrightarrow> (\<forall>b \<in> set (st_pending s c). \<forall>e \<in> set b. \<not> drive_event e))"

lemma sort_key_Nil_iff: "sort_key f xs = [] \<longleftrightarrow> xs = []"
  by (metis length_0_conv length_sort)

lemma drive_events_nonempty:
  assumes "collect_pass h globs order known w = (Inr (known', messages), w')"
  shows "[] \<notin> set (map drive_events messages)"
proof -
  from assms obtain existing added where
    "messages = (if gone_drives existing known \<noteq> [] then [Removed (sort (map snd (gone_drives existing known)))] else [])
           @ (if added \<noteq> [] then [Added (sort_key od_DevicePath added)] else [])"
    by (rule collect_pass_value)
  then show ?thesis by (auto simp: sort_key_Nil_iff)
qed

lemma reinstatement_pass_events:
  "reinstatement_pass h order broken w = (Inr (Some (broken', events)), w') \<Longrightarrow> e \<in> set events \<Longrightarrow> \<not> drive_event e"
  by (auto simp: reinstatement_pass_def drive_event_def elim!: bindM_InrE split: option.splits)

lemma channel_ok_step:
  assumes "sys_step h cfg (Running s) (Running s')" and "channel_ok s"
  shows "channel_ok s'"
  using assms
proof (cases rule: sys_step_cases)
  case (drives order known' messages w')
  with drive_events_nonempty [OF drives(4)] assms(2) show ?thesis
    by (auto simp: channel_ok_def)
next
  case (reinstatements order flagged' events w')
  with reinstatement_pass_events [OF reinstatements(4)] assms(2) show ?thesis
    by (auto simp: channel_ok_def)
next
  case (kernel_log r errs w')
  with assms(2) show ?thesis by (auto simp: channel_ok_def error_events_def drive_event_def)
next
  case (send c b bs)
  have "[] \<notin> set (b # bs)" "c \<noteq> DriveCollector \<longrightarrow> (\<forall>b \<in> set (b # bs). \<forall>e \<in> set b. \<not> drive_event e)"
    using assms(2) unfolding channel_ok_def send(2) [symmetric] by blast+
  with send assms(2) show ?thesis by (auto simp: channel_ok_def)
qed (auto simp: channel_ok_def drive_event_def)

lemma channel_ok_reachable: "reachable h cfg w0 (Running s) \<Longrightarrow> channel_ok s"
proof (erule reachable_induct_running)
  show "channel_ok (initial_system w0)" by (simp add: channel_ok_def initial_system_def)
qed (rule channel_ok_step)

section \<open>What the converger tracks\<close>

text \<open>No prefix of the events \<open>es\<close> makes the converger track a path twice.\<close>

fun never_twice :: "string list \<Rightarrow> event list \<Rightarrow> bool" where
  "never_twice ps [] \<longleftrightarrow> distinct ps"
| "never_twice ps (e # es) \<longleftrightarrow> distinct ps \<and> never_twice (track ps e) es"

lemma never_twice_distinct: "never_twice ps es \<Longrightarrow> distinct ps"
  by (cases es) auto

lemma never_twice_append:
  "never_twice ps (es @ fs) \<longleftrightarrow> never_twice ps es \<and> never_twice (foldl track ps es) fs"
  by (induction es arbitrary: ps) (auto dest: never_twice_distinct)

lemma track_other: "\<not> drive_event e \<Longrightarrow> track ps e = ps"
  by (cases e) (auto simp: drive_event_def)

lemma track_others: "\<forall>e \<in> set es. \<not> drive_event e \<Longrightarrow> foldl track ps es = ps"
  by (induction es arbitrary: ps) (auto simp: track_other)

lemma never_twice_others: "\<forall>e \<in> set es. \<not> drive_event e \<Longrightarrow> never_twice ps (es @ fs) = never_twice ps fs"
  by (induction es) (auto simp: track_other dest: never_twice_distinct)

lemma track_removed: "foldl track ps (map DriveRemovedEvent xs) = filter (\<lambda>p. p \<notin> set xs) ps"
  by (induction xs arbitrary: ps) (auto intro: filter_cong)

lemma never_twice_removed: "distinct ps \<Longrightarrow> never_twice ps (map DriveRemovedEvent xs)"
  by (induction xs arbitrary: ps) auto

lemma track_added:
  "foldl track ps (map (\<lambda>d. DriveAddedEvent (od_DevicePath d) (f d) (g d)) ds) = ps @ map od_DevicePath ds"
  by (induction ds arbitrary: ps) auto

lemma never_twice_added:
  "distinct (ps @ map od_DevicePath ds) \<Longrightarrow>
   never_twice ps (map (\<lambda>d. DriveAddedEvent (od_DevicePath d) (f d) (g d)) ds)"
  by (induction ds arbitrary: ps) auto

text \<open>What the messages of one pass do.\<close>

definition pass_messages :: "(string \<times> string) list \<Rightarrow> os_drive list \<Rightarrow> drive_message list" where
  "pass_messages gone added =
     (if gone \<noteq> [] then [Removed (sort (map snd gone))] else []) @
     (if added \<noteq> [] then [Added (sort_key od_DevicePath added)] else [])"

lemma track_messages:
  "foldl track ps (concat (map drive_events (pass_messages gone added))) =
     filter (\<lambda>p. p \<notin> snd ` set gone) ps @ map od_DevicePath (sort_key od_DevicePath added)"
  by (simp add: pass_messages_def track_removed track_added)

lemma never_twice_messages:
  assumes "distinct ps"
    and "distinct (filter (\<lambda>p. p \<notin> snd ` set gone) ps @ map od_DevicePath (sort_key od_DevicePath added))"
  shows "never_twice ps (concat (map drive_events (pass_messages gone added)))"
  using assms
  by (auto simp: pass_messages_def never_twice_append track_removed never_twice_removed never_twice_added)

text \<open>Every device is found under one path only, the same at any time.\<close>

definition one_name :: "'k host \<Rightarrow> string list \<Rightarrow> bool" where
  "one_name h globs \<longleftrightarrow>
     (\<forall>rel rel' dev. globbed h globs rel \<longrightarrow> globbed h globs rel' \<longrightarrow>
        leads_to h rel dev \<longrightarrow> leads_to h rel' dev \<longrightarrow> rel = rel')"

lemma one_name_found: "one_name h globs \<Longrightarrow> found_at h globs a \<Longrightarrow> found_at h globs b \<Longrightarrow> snd a = snd b \<Longrightarrow> fst a = fst b"
  unfolding one_name_def found_at_def by metis

lemma one_name_distinct:
  assumes "one_name h globs" and "\<forall>gd \<in> set known. found_at h globs gd" and "distinct (map fst known)"
  shows "distinct (map snd known)"
proof -
  have "inj_on snd (set known)"
  proof (rule inj_onI)
    fix a b assume "a \<in> set known" "b \<in> set known" "snd a = snd b"
    with assms(1,2) show "a = b" by (metis one_name_found prod.expand)
  qed
  with assms(3) show ?thesis by (simp add: distinct_map)
qed

text \<open>What the converger will track when it has handled everything that is on its way.\<close>

definition in_flight :: "'k system \<Rightarrow> event list" where
  "in_flight s = concat (st_queue s) @ concat (st_pending s DriveCollector)"

definition tracked :: "'k system \<Rightarrow> string list" where
  "tracked s = map DevicePath (Drives (st_converger s))"

text \<open>The drive collector knows every drive once, and the reported ones among them, \<open>R\<close>, are
  those that the converger tracks in the end.\<close>

definition collector_agrees :: "'k host \<Rightarrow> string list \<Rightarrow> 'k system \<Rightarrow> bool" where
  "collector_agrees h globs s \<longleftrightarrow>
     distinct (map fst (st_known s)) \<and> (\<forall>gd \<in> set (st_known s). found_at h globs gd) \<and>
     never_twice (tracked s) (in_flight s) \<and>
     (\<exists>R. mset (foldl track (tracked s) (in_flight s)) = mset (map snd R) \<and>
          set R \<subseteq> set (st_known s) \<and> distinct R)"

lemma subseq_filter: "subseq xs ys \<Longrightarrow> set xs \<subseteq> set ys \<and> (distinct ys \<longrightarrow> distinct xs)"
  by (induction rule: list_emb.induct) auto

text \<open>What the collector knows after a pass.\<close>

lemma known_after_pass:
  fixes order :: "(string \<times> string) list \<Rightarrow> (string \<times> string) list"
  assumes "permutes order" and "distinct (map fst known)" and "distinct (map fst existing)"
  defines "kept \<equiv> kept_drives existing known"
  defines "fresh \<equiv> order (fresh_drives existing kept)"
  shows "set fresh = set (fresh_drives existing kept)" and "distinct (map fst fresh)"
    and "set kept \<inter> set fresh = {}" and "distinct (map fst (kept @ fresh))"
proof -
  have m: "mset fresh = mset (fresh_drives existing kept)" using assms(1) by (simp add: permutes_def fresh_def)
  then show f: "set fresh = set (fresh_drives existing kept)" by (rule mset_eq_setD)
  have "distinct (map fst (fresh_drives existing kept))"
    using assms(3) by (simp add: fresh_drives_def distinct_map_filter)
  then show d: "distinct (map fst fresh)" using m by (metis mset_eq_imp_distinct_iff mset_map)
  have apart: "fst ` set kept \<inter> fst ` set fresh = {}"
    unfolding f by (force simp: fresh_drives_def map_of_eq_None_iff)
  then show "set kept \<inter> set fresh = {}" by blast
  have "distinct (map fst kept)" using assms(2) by (simp add: kept_def kept_drives_def distinct_map_filter)
  with d apart show "distinct (map fst (kept @ fresh))" by simp
qed

text \<open>The messages of a pass take the tracked paths along.\<close>

lemma tracked_after_pass:
  assumes "mset ps = mset (map snd R)" and "inj_on snd (set known)" and "set R \<subseteq> set known" and "set gone \<subseteq> set known"
  shows "mset (filter (\<lambda>p. p \<notin> snd ` set gone) ps) = mset (map snd (filter (\<lambda>r. r \<notin> set gone) R))"
proof -
  have "snd r \<notin> snd ` set gone \<longleftrightarrow> r \<notin> set gone" if "r \<in> set R" for r
    using inj_on_image_mem_iff [OF assms(2) _ assms(4)] that assms(3) by blast
  then have "filter (\<lambda>p. p \<notin> snd ` set gone) (map snd R) = map snd (filter (\<lambda>r. r \<notin> set gone) R)"
    unfolding filter_map comp_def by (intro arg_cong [where f = "map snd"] filter_cong) auto
  with assms(1) show ?thesis by (metis mset_filter)
qed

lemma pass_agrees:
  assumes names: "one_name h globs" and known: "distinct (map fst known)" "\<forall>gd \<in> set known. found_at h globs gd"
    and order: "permutes order" and R: "mset ps = mset (map snd R)" "set R \<subseteq> set known" "distinct R"
    and pass: "collect_pass h globs order known w = (Inr (known', messages), w')"
  shows "distinct (map fst known') \<and> (\<forall>gd \<in> set known'. found_at h globs gd) \<and>
    never_twice ps (concat (map drive_events messages)) \<and>
    (\<exists>R'. mset (foldl track ps (concat (map drive_events messages))) = mset (map snd R') \<and>
          set R' \<subseteq> set known' \<and> distinct R')"
proof -
  from pass obtain existing added where ex: "distinct (map fst existing)" "\<forall>gd \<in> set existing. found_at h globs gd"
    and known': "known' = kept_drives existing known @ order (fresh_drives existing (kept_drives existing known))"
    and sub: "subseq (map (\<lambda>x. (od_FoundAtPath x, od_DevicePath x)) added)
           (order (fresh_drives existing (kept_drives existing known)))"
    and messages: "messages = pass_messages (gone_drives existing known) added"
    unfolding pass_messages_def by (rule collect_pass_value)
  let ?gone = "gone_drives existing known" and ?A = "map (\<lambda>x. (od_FoundAtPath x, od_DevicePath x)) added"
  let ?R = "filter (\<lambda>r. r \<notin> set ?gone) R @ ?A"
  note after = known_after_pass [OF order known(1) ex(1)]
  have D: "distinct (map fst known')" unfolding known' by (rule after(4))
  have F: "\<forall>gd \<in> set known'. found_at h globs gd"
    using known(2) ex(2) after(1) by (auto simp: known' kept_drives_def fresh_drives_def)
  have A: "set ?A \<subseteq> set (order (fresh_drives existing (kept_drives existing known)))" "distinct ?A"
    using subseq_filter [OF sub] after(2) by (simp_all add: distinct_map)
  have K: "set (filter (\<lambda>r. r \<notin> set ?gone) R) \<subseteq> set (kept_drives existing known)"
    using R(2) by (auto simp: gone_drives_def kept_drives_def)
  have subset: "set ?R \<subseteq> set known'" using A(1) K by (auto simp: known')
  have "set (filter (\<lambda>r. r \<notin> set ?gone) R) \<inter> set ?A = {}" using A(1) K after(3) by blast
  with A(2) R(3) have distinct: "distinct ?R" by (simp only: distinct_append distinct_filter)
  have inj: "inj_on snd (set known)" "inj_on snd (set known')"
    using one_name_distinct [OF names known(2,1)] one_name_distinct [OF names F D] by (simp_all add: distinct_map)
  have m: "mset (filter (\<lambda>p. p \<notin> snd ` set ?gone) ps @ map od_DevicePath (sort_key od_DevicePath added)) = mset (map snd ?R)"
    using tracked_after_pass [OF R(1) inj(1) R(2), of ?gone] by (simp add: gone_drives_def comp_def)
  have "distinct (map snd ?R)"
    using inj(2) subset distinct by (simp only: distinct_map) (blast intro: inj_on_subset)
  then have "distinct (filter (\<lambda>p. p \<notin> snd ` set ?gone) ps @ map od_DevicePath (sort_key od_DevicePath added))"
    by (rule mset_eq_imp_distinct_iff [OF m, THEN iffD2])
  moreover have "distinct (map snd R)"
    using R(2,3) inj(1) by (simp only: distinct_map) (blast intro: inj_on_subset)
  then have "distinct ps" by (rule mset_eq_imp_distinct_iff [OF R(1), THEN iffD2])
  ultimately have N: "never_twice ps (concat (map drive_events messages))"
    unfolding messages by (intro never_twice_messages)
  from m have "mset (foldl track ps (concat (map drive_events messages))) = mset (map snd ?R)"
    unfolding messages track_messages .
  with D F N subset distinct show ?thesis by blast
qed

lemma collector_agrees_step:
  assumes names: "one_name h (DriveGlobs cfg)" and step: "sys_step h cfg (Running s) (Running s')"
    and ok: "channel_ok s" and inv: "collector_agrees h (DriveGlobs cfg) s"
  shows "collector_agrees h (DriveGlobs cfg) s'"
  using step
proof (cases rule: sys_step_cases)
  case (drives order known' messages w')
  let ?ps = "foldl track (tracked s) (in_flight s)"
  from inv obtain R where R: "mset ?ps = mset (map snd R)" "set R \<subseteq> set (st_known s)" "distinct R"
    and known: "distinct (map fst (st_known s))" "\<forall>gd \<in> set (st_known s). found_at h (DriveGlobs cfg) gd"
    and never: "never_twice (tracked s) (in_flight s)"
    unfolding collector_agrees_def by blast
  have flight: "in_flight s' = in_flight s @ concat (map drive_events messages)" "tracked s' = tracked s"
    "st_known s' = known'"
    by (simp_all add: drives(1) in_flight_def tracked_def)
  from pass_agrees [OF names known drives(3) R drives(4)] never show ?thesis
    unfolding collector_agrees_def flight never_twice_append foldl_append by blast
next
  case (send c b bs)
  show ?thesis
  proof (cases "c = DriveCollector")
    case True
    with send have "in_flight s' = in_flight s" "tracked s' = tracked s" "st_known s' = st_known s"
      by (simp_all add: in_flight_def tracked_def)
    with inv show ?thesis by (simp add: collector_agrees_def)
  next
    case False
    with ok send have other: "\<forall>e \<in> set b. \<not> drive_event e"
      unfolding channel_ok_def by (metis list.set_intros(1))
    from False send have "in_flight s' = concat (st_queue s) @ b @ concat (st_pending s DriveCollector)"
      "tracked s' = tracked s" "st_known s' = st_known s"
      by (simp_all add: in_flight_def tracked_def)
    moreover from other have
      "never_twice ps (concat (st_queue s) @ b @ fs) = never_twice ps (concat (st_queue s) @ fs)"
      "foldl track ps (concat (st_queue s) @ b @ fs) = foldl track ps (concat (st_queue s) @ fs)" for ps fs
      by (simp_all only: never_twice_append [of ps "concat (st_queue s)"] never_twice_others [OF other]
          foldl_append track_others [OF other])
    ultimately show ?thesis using inv by (simp add: collector_agrees_def in_flight_def)
  qed
next
  case (converge b bs c' w')
  from converger_iteration_value [OF converge(3)]
  have "tracked s' = foldl track (tracked s) b" by (simp add: converge(1) tracked_def)
  moreover have "in_flight s = b @ in_flight s'" "st_known s' = st_known s"
    by (simp_all add: converge(1,2) in_flight_def)
  ultimately show ?thesis using inv by (simp add: collector_agrees_def never_twice_append)
qed (use inv in \<open>simp_all add: collector_agrees_def in_flight_def tracked_def\<close>)

lemma collector_agrees_reachable:
  assumes "one_name h (DriveGlobs cfg)" and "reachable h cfg w0 (Running s)"
  shows "collector_agrees h (DriveGlobs cfg) s"
proof -
  have "channel_ok s \<and> collector_agrees h (DriveGlobs cfg) s"
    using assms(2)
  proof (rule reachable_induct_running)
    show "channel_ok (initial_system w0) \<and> collector_agrees h (DriveGlobs cfg) (initial_system w0)"
      by (simp add: initial_system_def channel_ok_def collector_agrees_def in_flight_def tracked_def)
    fix s s' assume "channel_ok s \<and> collector_agrees h (DriveGlobs cfg) s"
      and "sys_step h cfg (Running s) (Running s')"
    with channel_ok_step collector_agrees_step [OF assms(1)]
    show "channel_ok s' \<and> collector_agrees h (DriveGlobs cfg) s'" by blast
  qed
  then show ?thesis ..
qed

section \<open>The converger is never stuck\<close>

text \<open>The converger can handle the next batch: every drive has a device that fits the stack.\<close>

definition converger_ready :: "'k host \<Rightarrow> (string \<Rightarrow> nat) \<Rightarrow> 'k system \<Rightarrow> bool" where
  "converger_ready h rank s \<longleftrightarrow> (\<forall>d \<in> set (Drives (st_converger s)). drive_ok rank (stack_limit h) d)"

lemma converger_ready_iteration:
  fixes s :: "'k system"
  assumes "tools_work h rank" and "converger_ready h rank s"
  obtains c w' where "converger_iteration h (linux_osi h) cfg b (st_converger s) (st_world s) = (Inr c, w')"
    and "\<forall>d \<in> set (Drives c). drive_ok rank (stack_limit h) d"
  by (rule tools_work_iteration [OF assms(1) assms(2) [unfolded converger_ready_def]])

lemma converger_ready_step:
  assumes "tools_work h rank" and "sys_step h cfg (Running s) (Running s')" and "converger_ready h rank s"
  shows "converger_ready h rank s'"
  using assms(2)
proof (cases rule: sys_step_cases)
  case (converge b bs c' w')
  obtain c1 w1 where "converger_iteration h (linux_osi h) cfg b (st_converger s) (st_world s) = (Inr c1, w1)"
    "\<forall>d \<in> set (Drives c1). drive_ok rank (stack_limit h) d"
    by (rule converger_ready_iteration [OF assms(1,3)])
  with converge(3) show ?thesis by (simp add: converge(1) converger_ready_def)
qed (use assms(3) in \<open>simp_all add: converger_ready_def\<close>)

lemma converger_ready_reachable:
  assumes "tools_work h rank" and "reachable h cfg w0 (Running s)"
  shows "converger_ready h rank s"
  using assms(2)
proof (rule reachable_induct_running)
  show "converger_ready h rank (initial_system w0)"
    by (simp add: converger_ready_def initial_system_def)
qed (rule converger_ready_step [OF assms(1)])

text \<open>The start-up leaves the tables unread.\<close>

lemma main_prepare_tables:
  assumes "main_prepare h cfg w = (Inr (), w')"
  shows "ActiveMountPoints (osst w') = None \<and> ActiveLUKSMappings (osst w') = None"
proof -
  let ?P = "\<lambda>l. ActiveMountPoints l = None \<and> ActiveLUKSMappings l = None"
  have new: "?P l" if "NewLinux h w1 = (Inr (Inr l), w2)" for l and w1 w2 :: "'a lworld"
    using that by (auto simp: NewLinux_def elim!: bindM_InrE thenM_InrE split: sum.splits)
  from assms obtain l w1 w2 w3 where n: "NewLinux h w1 = (Inr (Inr l), w2)"
    and c: "linux_Chown h ''/var/cache/swift'' (OwnerUser cfg) (OwnerGroup cfg) (w2\<lparr>osst := l\<rparr>) = (Inr (), w')"
    unfolding main_prepare_def Let_def
    by (auto elim!: bindM_InrE thenM_InrE must_Return_InrE split: option.splits)
  show ?thesis
    using keepsD [OF keeps_Chown [of ?P] _ c] new [OF n] by simp
qed

section \<open>The tables of mounts\<close>

lemma mirrored_step:
  assumes "sys_step h cfg (Running s) (Running s')" and "mirrored mode (osst (st_world s))"
  shows "mirrored mode (osst (st_world s'))"
  using assms(1)
proof (cases rule: sys_step_cases)
  case (drives order known' messages w')
  from keepsD [OF keeps_collect_pass [of "mirrored mode"] assms(2) drives(4)] show ?thesis by (simp add: drives(1))
next
  case (reinstatements order flagged' events w')
  from keepsD [OF keeps_reinstatement_pass [of "mirrored mode"] assms(2) reinstatements(4)]
  show ?thesis by (simp add: reinstatements(1))
next
  case (reinstatements_failed order w')
  from keepsD [OF keeps_reinstatement_pass [of "mirrored mode"] assms(2) reinstatements_failed(3)]
  show ?thesis by (simp add: reinstatements_failed(1))
next
  case (kernel_log r errs w')
  from keepsD [OF keeps_klog_read [of "mirrored mode"] assms(2) kernel_log(4)] show ?thesis by (simp add: kernel_log(1))
next
  case (kernel_log_start popen w')
  from keepsD [OF keeps_klog_popen [of "mirrored mode"] assms(2) kernel_log_start(3)] show ?thesis
    by (simp add: kernel_log_start(1))
next
  case (metrics addr res w')
  from keepsD [OF keeps_metrics_returns [of "mirrored mode"] assms(2) metrics(3)] show ?thesis by (simp add: metrics(1))
next
  case (test_mode g w')
  from keepsD [OF keeps_test_turn [of "mirrored mode"] assms(2) test_mode(3)] show ?thesis by (simp add: test_mode(1))
next
  case (converge b bs c' w')
  from keepsD [OF tables.converger_iteration_keeps assms(2) converge(3)] show ?thesis by (simp add: converge(1))
qed (use assms(2) in simp_all)

lemma mirrored_reachable:
  assumes "main_prepare h cfg w = (Inr (), w0)" and "reachable h cfg w0 (Running s)"
  shows "mirrored (PropagationMode (osst w0)) (osst (st_world s))"
  using assms(2)
proof (rule reachable_induct_running)
  show "mirrored (PropagationMode (osst w0)) (osst (st_world (initial_system w0)))"
    using main_prepare_tables [OF assms(1)] by (simp add: initial_system_def mirrored_def active_def)
qed (rule mirrored_step)

end
