(* ===== verification/Sample_System.thy ===== *)
theory Sample_System
  imports Sample_Linux System
begin

text \<open>
  Concrete runs of the whole process on the machine of theory \<open>Sample_Linux\<close>.
\<close>

lemma calm_glob:
  "sys_glob calm_host p k = (Inr (if p = ''dev/sd*'' then [''dev/sda'', ''dev/sdb''] else []), k)"
  "sys_evalsymlinks calm_host p k = (Inr p, k)"
  by (simp_all add: calm_host_def sample_host_def)

definition two_drives :: "(string \<times> string) list" where
  "two_drives = [(''/dev/sda'', ''/dev/sda''), (''/dev/sdb'', ''/dev/sdb'')]"

definition two_added :: "event list" where
  "two_added = [DriveAddedEvent ''/dev/sda'' ''/dev/sda'' [], DriveAddedEvent ''/dev/sdb'' ''/dev/sdb'' []]"

lemma calm_one_name: "one_name calm_host (DriveGlobs test_config)"
proof -
  have p: "TrimPrefix ''/dev/sd*'' ''/'' = ''dev/sd*''" "TrimPrefix ''dev/sda'' ''/'' = ''dev/sda''"
    "TrimPrefix ''dev/sdb'' ''/'' = ''dev/sdb''" "\<not> HasPrefix ''dev/sda'' ''/''" "\<not> HasPrefix ''dev/sdb'' ''/''"
    by code_simp+
  have g: "globbed calm_host (DriveGlobs test_config) rel \<longleftrightarrow> rel = ''dev/sda'' \<or> rel = ''dev/sdb''" for rel
    by (auto simp: globbed_def test_config_def calm_glob p)
  have l: "leads_to calm_host rel dev \<Longrightarrow> rel = ''dev/sda'' \<or> rel = ''dev/sdb'' \<Longrightarrow> dev = ''/'' @ rel" for rel dev
    by (auto simp: leads_to_def evalSymlinksInChroot_def Let_def bindM_def sysM_def calm_glob p)
  show ?thesis
    unfolding one_name_def g using l by blast
qed

lemma calm_existing: "find_existing calm_host (DriveGlobs test_config) w = (Inr two_drives, w)"
proof -
  have p: "TrimPrefix ''/dev/sd*'' ''/'' = ''dev/sd*''" "TrimPrefix ''dev/sda'' ''/'' = ''dev/sda''"
    "TrimPrefix ''dev/sdb'' ''/'' = ''dev/sdb''" "\<not> HasPrefix ''dev/sda'' ''/''" "\<not> HasPrefix ''dev/sdb'' ''/''"
    by code_simp+
  show ?thesis
    by (simp add: find_existing_def test_config_def calm_glob p Let_def bindM_def sysM_def
        evalSymlinksInChroot_def must_Return_def two_drives_def)
qed

lemma calm_sfdisk:
  fixes w :: "trace lworld"
  shows "\<exists>w'. run calm_host [''sfdisk'', ''-l'', p] w = (Inr (''Disk: 8 TiB'', True), w')"
proof -
  have hp: "\<not> HasPrefix ''-l'' ''/dev/mapper/''" by code_simp
  have argv: "command_argv calm_host Command0 [''sfdisk'', ''-l'', p] = [''chroot'', ''.'', ''sfdisk'', ''-l'', p]"
    by (simp add: calm_argv Command0_def with_nsenter_def)
  have out: "calm_out [''chroot'', ''.'', ''sfdisk'', ''-l'', p] = printing ''Disk: 8 TiB''"
    by (simp add: calm_out_def hp)
  have o: "exec_stderr (printing t) = []" "exec_err (printing t) = None" "exec_stdout (printing t) = t" for t
    by (simp_all add: printing_def)
  have "log_outcome Command0 n argv (printing t) w1 = (Inr (), w1)" for n argv t and w1 :: "trace lworld"
    by (simp add: log_outcome_def whenM_def thenM_def bindM_def o)
  then show ?thesis
    by (simp add: run_def Run_def Let_def bindM_def sysM_def argv out o)
qed

lemma calm_smartctl:
  fixes w :: "trace lworld"
  shows "\<exists>w'. smartctl_serial calm_host p w = (Inr [], w')"
proof -
  let ?c = "Command0\<lparr>SkipLog := True, NoChroot := True, NoNsenter := True\<rparr>"
  have "calm_out (command_argv calm_host ?c [''smartctl'', ''-d'', ''scsi'', ''-i'', TrimPrefix p ''/'']) = silent"
    by (simp add: calm_argv Command0_def with_nsenter_def calm_out_def HasPrefix_def)
  from calm_Run [OF _ this, of w] show ?thesis
    by (simp add: smartctl_serial_def bindM_def serialNumberRx_def)
qed

lemma calm_inspect:
  fixes w :: "trace lworld"
  obtains w' where "inspect_drive calm_host g p w =
    (Inr (Some \<lparr>od_DevicePath = p, od_FoundAtPath = g, od_SerialNumber = []\<rparr>), w')"
proof -
  have d: "\<not> driveWithPartitionTableRx ''Disk: 8 TiB''" "TrimSpace ''Disk: 8 TiB'' \<noteq> []" by code_simp+
  obtain w1 where 1: "run calm_host [''sfdisk'', ''-l'', p] w = (Inr (''Disk: 8 TiB'', True), w1)"
    using calm_sfdisk by blast
  obtain w2 where 2: "smartctl_serial calm_host p w1 = (Inr [], w2)" using calm_smartctl by blast
  from 1 2 d have "inspect_drive calm_host g p w =
      (Inr (Some \<lparr>od_DevicePath = p, od_FoundAtPath = g, od_SerialNumber = []\<rparr>), w2)"
    by (simp add: inspect_drive_def bindM_def)
  then show ?thesis by (rule that)
qed

lemma calm_pass:
  "\<exists>w'. collect_pass calm_host (DriveGlobs test_config) id [] w =
     (Inr (two_drives, [Added [\<lparr>od_DevicePath = ''/dev/sda'', od_FoundAtPath = ''/dev/sda'', od_SerialNumber = []\<rparr>,
                               \<lparr>od_DevicePath = ''/dev/sdb'', od_FoundAtPath = ''/dev/sdb'', od_SerialNumber = []\<rparr>]]), w')"
proof -
  note e = calm_existing
  obtain w1 where 1: "inspect_drive calm_host ''/dev/sda'' ''/dev/sda'' w =
      (Inr (Some \<lparr>od_DevicePath = ''/dev/sda'', od_FoundAtPath = ''/dev/sda'', od_SerialNumber = []\<rparr>), w1)"
    by (rule calm_inspect)
  obtain w2 where 2: "inspect_drive calm_host ''/dev/sdb'' ''/dev/sdb'' w1 =
      (Inr (Some \<lparr>od_DevicePath = ''/dev/sdb'', od_FoundAtPath = ''/dev/sdb'', od_SerialNumber = []\<rparr>), w2)"
    by (rule calm_inspect)
  have f: "gone_drives ex [] = []" "kept_drives ex [] = []" "fresh_drives ex [] = ex" for ex
    by (simp_all add: gone_drives_def kept_drives_def fresh_drives_def)
  have so: "sort_key od_DevicePath [x, y] = [x, y]" if "od_DevicePath x \<le> od_DevicePath y" for x y :: os_drive
    using that by simp
  have "''/dev/sda'' \<le> ''/dev/sdb''" by code_simp
  then show ?thesis
    by (intro exI [of _ w2])
       (simp add: collect_pass_def bindM_def e f Let_def inspect_drives_def two_drives_def 1 2 so del: sort_key_simps)
qed

lemma calm_prepare: "\<exists>w0. main_prepare calm_host cfg w = (Inr (), w0)"
proof -
  let ?mkdir = "[''mkdir'', ''-p'', ''/run/swift-storage/broken'', ''/run/swift-storage/state/unmount-propagation'',
    ''/var/cache/swift'', ''/var/lib/swift-storage/broken'']"
  have q: "calm_out (command_argv calm_host c ?mkdir) = silent" if "c = Command0\<lparr>ExitOnError := True\<rparr>" for c
    by (simp add: that calm_argv Command0_def with_nsenter_def calm_out_def HasPrefix_def)
  have c: "sys_chdir calm_host p k = (None, k)" "sys_getwd calm_host k = (Inr ''/'', k)" for p k
    by (simp_all add: calm_host_def sample_host_def)
  have r: "Clean ''/'' = ''/''" by code_simp
  have o: "\<exists>w1. linux_Chown calm_host ''/var/cache/swift'' u g w = (Inr (), w1)" for u g and w :: "trace lworld"
    by (rule returnsE [OF returns_Chown [of "''/var/cache/swift''" calm_host u g]]) auto
  have n: "\<exists>w1. bindM (bindM (NewLinux calm_host) must_Return) (\<lambda>l. thenM (put_os l)
      (linux_Chown calm_host ''/var/cache/swift'' u g)) w = (Inr (), w1)" for u g and w :: "trace lworld"
    by (simp add: NewLinux_def detectMountPropagationMode_def bindM_def sysM_def c r thenM_def whenM_def
        must_Return_def o)
  have chd: "sysM (sys_chdir calm_host p) w = (Inr None, w)" for p by (simp add: sysM_def c)
  have mk: "Run calm_host (Command0\<lparr>ExitOnError := True\<rparr>) ?mkdir w =
      (Inr ([], True), w\<lparr>kern := kern w @ [command_argv calm_host (Command0\<lparr>ExitOnError := True\<rparr>) ?mkdir]\<rparr>)"
    by (rule calm_Run [OF _ q]) simp_all
  show ?thesis
    unfolding main_prepare_def Let_def bindM_Inr [where m = "sysM (sys_chdir calm_host _)", OF chd] option.case
      thenM_Inr [where m = "Run calm_host _ _", OF mk]
    by (rule n)
qed

lemma calm_start: "\<exists>gs w0. main_start calm_host cfg w = (Inr gs, w0)"
  using calm_prepare by (simp add: main_start_iff)

text \<open>The drive collector finds both drives and sends them to the converger.\<close>

lemma calm_two_sent:
  "\<exists>s. reachable calm_host test_config w0 (Running s) \<and> st_queue s = [two_added] \<and>
     st_known s = two_drives \<and> tracked s = [] \<and> st_pending s DriveCollector = []"
proof -
  let ?s0 = "initial_system w0 :: trace system"
  let ?messages = "[Added [\<lparr>od_DevicePath = ''/dev/sda'', od_FoundAtPath = ''/dev/sda'', od_SerialNumber = []\<rparr>,
     \<lparr>od_DevicePath = ''/dev/sdb'', od_FoundAtPath = ''/dev/sdb'', od_SerialNumber = []\<rparr>]]"
  obtain w1 where pass: "collect_pass calm_host (DriveGlobs test_config) id [] w0 = (Inr (two_drives, ?messages), w1)"
    using calm_pass by blast
  let ?s1 = "?s0\<lparr>st_world := w1, st_known := two_drives,
    st_pending := (st_pending ?s0)(DriveCollector := st_pending ?s0 DriveCollector @ map drive_events ?messages)\<rparr>"
  let ?s2 = "?s1\<lparr>st_queue := st_queue ?s1 @ [two_added], st_pending := (st_pending ?s1)(DriveCollector := [])\<rparr>"
  have "sys_step calm_host test_config (Running ?s0) (Running ?s1)"
    by (rule sys_step.drives [where order = id]) (simp_all add: initial_system_def permutes_def pass)
  moreover have "sys_step calm_host test_config (Running ?s1) (Running ?s2)"
    by (rule sys_step.send) (simp_all add: initial_system_def two_added_def queue_capacity_def)
  ultimately have "reachable calm_host test_config w0 (Running ?s2)"
    by (blast intro: reachable.intros)
  moreover have "st_queue ?s2 = [two_added] \<and> st_known ?s2 = two_drives \<and> tracked ?s2 = [] \<and>
      st_pending ?s2 DriveCollector = []"
    by (simp add: initial_system_def tracked_def)
  ultimately show ?thesis by blast
qed

text \<open>The converger takes them over.\<close>

lemma calm_two_tracked:
  "\<exists>s. reachable calm_host test_config w0 (Running s) \<and> st_queue s = [] \<and>
     st_known s = two_drives \<and> tracked s = [''/dev/sda'', ''/dev/sdb''] \<and> st_pending s DriveCollector = []"
proof -
  obtain s where s: "reachable calm_host test_config w0 (Running s)" "st_queue s = [two_added]"
    "st_known s = two_drives" "tracked s = []" "st_pending s DriveCollector = []"
    using calm_two_sent by blast
  obtain c w' where it: "converger_iteration calm_host (linux_osi calm_host) test_config two_added (st_converger s) (st_world s) = (Inr c, w')"
    by (rule converger_ready_iteration [OF calm_tools converger_ready_reachable [OF calm_tools s(1)]])
  let ?s = "s\<lparr>st_world := w', st_queue := [], st_converger := c\<rparr>"
  have "reachable calm_host test_config w0 (Running ?s)"
    using s(1) sys_step.converge [OF s(2) it] by (rule reachable.step)
  moreover have "tracked ?s = [''/dev/sda'', ''/dev/sdb'']"
    using converger_iteration_value [OF it] s(4) by (simp add: tracked_def two_added_def)
  ultimately show ?thesis using s(3,5) by (intro exI [of _ ?s]) simp
qed

end
