(* ===== verification/Drive_Invariant.thy ===== *)
theory Drive_Invariant
  imports Converger
begin

text \<open>
  What holds of every drive in the state of the converger, whatever the operating system
  layer does: it has the configured keys, a device for its own path, and an identity.
\<close>

definition well_formed :: "'k host \<Rightarrow> Configuration \<Rightarrow> drive \<Rightarrow> bool" where
  "well_formed h cfg d \<longleftrightarrow>
     Keys d = Secrets cfg \<and> (\<exists>dev. Device d = Some dev \<and> dev_path dev = DevicePath d) \<and>
     (DriveID d = [] \<longrightarrow> md5_hex h (DevicePath d) = [])"

section \<open>Devices keep their path\<close>

lemma XFS_Setup_path: "XFS_Setup h osi drv p f mp w = (Inr (ok, d'), w') \<Longrightarrow> dev_path d' = p"
  by (auto simp: XFS_Setup_def Let_def elim!: bindM_InrE thenM_InrE split: option.splits if_splits prod.splits)

lemma LUKS_Setup_path: "LUKS_Setup V S osi drv p f mapped n w = (Inr (ok, d'), w') \<Longrightarrow> dev_path d' = p"
  by (auto simp: LUKS_Setup_def elim!: bindM_InrE thenM_InrE split: option.splits if_splits prod.splits)

lemma Device_Setup_path: "Device_Setup n h osi drv d w = (Inr (ok, d'), w') \<Longrightarrow> dev_path d' = dev_path d"
  by (cases n; cases d) (auto dest: XFS_Setup_path LUKS_Setup_path)

lemma LUKS_Close_path: "LUKS_Close osi p f n w = (Inr (ok, d'), w') \<Longrightarrow> dev_path d' = p"
  by (auto simp: LUKS_Close_def elim!: bindM_InrE thenM_InrE split: if_splits)

lemma Device_Teardown_path:
  assumes "Device_Teardown h osi drv d w = (Inr (ok, d'), w')"
  shows "dev_path d' = dev_path d"
proof (cases d)
  case (XFSDevice p f mp)
  with assms show ?thesis by (auto simp: XFS_Teardown_def elim!: bindM_InrE)
next
  case (LUKSDevice p f mapped n)
  with assms show ?thesis
    by (cases mapped) (auto elim!: bindM_InrE split: if_splits dest: LUKS_Close_path)
qed

section \<open>Drives stay well-formed\<close>

lemma well_formed_upd [simp]:
  "well_formed h cfg (d\<lparr>Assignment := a\<rparr>) = well_formed h cfg d"
  "well_formed h cfg (d\<lparr>Broken := b\<rparr>) = well_formed h cfg d"
  by (simp_all add: well_formed_def)

lemma teardown_device_well_formed:
  assumes "teardown_device h' osi d w = (Inr d', w')" and "well_formed h cfg d"
  shows "well_formed h cfg d'"
proof -
  from assms(1) obtain dev ok dev' where "Device d = Some dev"
    and t: "Device_Teardown h' osi d dev w = (Inr (ok, dev'), w')" and "d' = d\<lparr>Device := Some dev'\<rparr>"
    by (auto simp: teardown_device_def elim!: bindM_InrE split: option.splits)
  with assms(2) Device_Teardown_path [OF t] show ?thesis by (simp add: well_formed_def)
qed

lemma Drive_Converge_well_formed:
  assumes "Drive_Converge h' osi d w = (Inr d', w')" and "well_formed h cfg d"
  shows "well_formed h cfg d'"
proof (cases "Broken d")
  case True
  with assms show ?thesis by (auto simp: Drive_Converge_def dest: teardown_device_well_formed)
next
  case False
  with assms(1) obtain dev ok dev' w1 w2 where D: "Device d = Some dev"
    and S: "Device_Setup (stack_limit h') h' osi d dev w1 = (Inr (ok, dev'), w2)"
    and T: "(if \<not> ok then bindM (MarkAsBroken h' (d\<lparr>Device := Some dev'\<rparr>)) (teardown_device h' osi)
             else ret (d\<lparr>Device := Some dev'\<rparr>)) w2 = (Inr d', w')"
    unfolding Drive_Converge_def Let_def by (auto elim!: bindM_InrE split: option.splits)
  have W: "well_formed h cfg (d\<lparr>Device := Some dev'\<rparr>)"
    using assms(2) D Device_Setup_path [OF S] by (simp add: well_formed_def)
  show ?thesis
  proof (cases ok)
    case True
    with T W show ?thesis by simp
  next
    case no: False
    with T obtain d1 w3 where m: "MarkAsBroken h' (d\<lparr>Device := Some dev'\<rparr>) w2 = (Inr d1, w3)"
      and t: "teardown_device h' osi d1 w3 = (Inr d', w')"
      by (auto elim!: bindM_InrE)
    from MarkAsBroken_value [OF m] W have "well_formed h cfg d1"
      by (simp only: well_formed_upd)
    with teardown_device_well_formed [OF t] show ?thesis .
  qed
qed

lemma NewDrive_Converge_well_formed:
  assumes "bindM (NewDrive h osi p serial (Secrets cfg)) (Drive_Converge h osi) w = (Inr d, w')"
  shows "well_formed h cfg d"
proof -
  from assms obtain d0 w1 where n: "NewDrive h osi p serial (Secrets cfg) w = (Inr d0, w1)"
    and c: "Drive_Converge h osi d0 w1 = (Inr d, w')"
    by (rule bindM_InrE)
  from Drive_Converge_value [OF c] NewDrive_value [OF n] have "well_formed h cfg d0"
    by (auto simp: well_formed_def split: if_splits)
  with Drive_Converge_well_formed [OF c] show ?thesis .
qed

lemma Handle_well_formed:
  assumes "Handle h osi cfg e ds w = (Inr ds', w')" and "\<forall>d \<in> set ds. well_formed h cfg d"
  shows "\<forall>d \<in> set ds'. well_formed h cfg d"
proof (cases e)
  case (DriveAddedEvent p f s)
  with assms(1) obtain d where "bindM (NewDrive h osi p s (Secrets cfg)) (Drive_Converge h osi) w = (Inr d, w')"
    and "ds' = ds @ [d]"
    by (auto elim!: bindM_InrE simp: bindM_Inr)
  with NewDrive_Converge_well_formed [OF this(1)] assms(2) show ?thesis by simp
next
  case (DriveRemovedEvent p)
  with assms show ?thesis by (auto elim!: thenM_InrE split: list.splits)
next
  case (DriveErrorEvent p l)
  from update_firstM_value [OF assms(1) [unfolded DriveErrorEvent Handle.simps Handle_defs]] assms(2)
  show ?thesis by (auto dest!: MarkAsBroken_value)
next
  case (DriveReinstatedEvent p)
  from update_firstM_value [OF assms(1) [unfolded DriveReinstatedEvent Handle.simps Handle_defs]] assms(2)
  show ?thesis
  proof (elim disjE exE conjE)
    fix as d bs y
    assume ds: "ds = as @ d # bs" and ds': "ds' = as @ y # bs"
      and y: "bindM (NewDrive h osi (DevicePath d) (DriveID d) (Keys d)) (Drive_Converge h osi) w = (Inr y, w')"
    from ds assms(2) have "Keys d = Secrets cfg" by (simp add: well_formed_def)
    with y have "well_formed h cfg y" by (auto intro: NewDrive_Converge_well_formed)
    with ds ds' assms(2) show ?thesis by simp
  qed simp
qed (use assms in simp)

lemma Converge_well_formed:
  assumes "Converge h osi cfg ds w = (Inr ds', w')" and "\<forall>d \<in> set ds. well_formed h cfg d"
  shows "\<forall>d \<in> set ds'. well_formed h cfg d"
proof -
  from assms(1) obtain ds1 w1 ds2 w2 w3 where
    1: "mapM (Drive_Converge h osi) ds w = (Inr ds1, w1)"
    and 2: "UpdateDriveAssignments ds1 (SwiftIDPool cfg) osi w1 = (Inr ds2, w2)"
    and 3: "mapM (converge_assigned h osi cfg) ds2 w2 = (Inr ds', w3)"
    unfolding Converge_def by (auto elim!: bindM_InrE thenM_InrE)
  let ?W = "\<lambda>ds. \<forall>d \<in> set ds. well_formed h cfg d"
  have all: "?W ys" if "list_all2 (\<lambda>x y. well_formed h cfg x \<longrightarrow> well_formed h cfg y) xs ys" "?W xs" for xs ys
    using that by (induction rule: list_all2_induct) auto
  have "list_all2 (\<lambda>x y. well_formed h cfg x \<longrightarrow> well_formed h cfg y) ds ds1"
    by (rule mapM_values [OF 1]) (blast dest: Drive_Converge_well_formed)
  from all [OF this assms(2)] have W1: "?W ds1" .
  have "list_all2 (\<lambda>x y. well_formed h cfg x \<longrightarrow> well_formed h cfg y) ds1 ds2"
    by (rule list_all2_mono [OF Update_reassigned [OF 2, unfolded reassigned_def]]) fastforce
  from all [OF this W1] have W2: "?W ds2" .
  have "list_all2 (\<lambda>x y. well_formed h cfg x \<longrightarrow> well_formed h cfg y) ds2 ds'"
    by (rule mapM_values [OF 3])
       (auto simp: converge_assigned_def elim!: bindM_InrE thenM_InrE split: if_splits
         dest: Drive_Converge_well_formed)
  from all [OF this W2] show ?thesis .
qed

lemma converger_iteration_well_formed:
  assumes "converger_iteration h osi cfg es c w = (Inr c', w')" and "\<forall>d \<in> set (Drives c). well_formed h cfg d"
  shows "\<forall>d \<in> set (Drives c'). well_formed h cfg d"
proof -
  from assms(1) obtain c1 w1 w2 ds where
    1: "foldM es (handle_event h osi cfg) c w1 = (Inr c1, w2)"
    and 2: "Converge h osi cfg (Drives c1) w2 = (Inr ds, w')"
    and c': "c' = c1\<lparr>Drives := ds\<rparr>"
    unfolding converger_iteration_def by (auto elim!: bindM_InrE thenM_InrE)
  from 1 assms(2) have "\<forall>d \<in> set (Drives c1). well_formed h cfg d"
  proof (rule foldM_keeps_value)
    fix e c w c' w'
    assume e: "handle_event h osi cfg e c w = (Inr c', w')" and W: "\<forall>d \<in> set (Drives c). well_formed h cfg d"
    from e obtain ds w1 where "Handle h osi cfg e (Drives c) w1 = (Inr ds, w')" "Drives c' = ds"
      by (auto simp: handle_event_def Let_def elim!: bindM_InrE thenM_InrE)
    with Handle_well_formed [OF this(1) W] show "\<forall>d \<in> set (Drives c'). well_formed h cfg d" by simp
  qed
  from Converge_well_formed [OF 2 this] c' show ?thesis by simp
qed

lemma RunConverger_well_formed:
  assumes "RunConverger h osi cfg queue w = (Inr c, w')"
  shows "\<forall>d \<in> set (Drives c). well_formed h cfg d"
  using assms [unfolded RunConverger_def]
  by (rule foldM_keeps_value) (simp, rule converger_iteration_well_formed)

end
