(* ===== verification/Core_Steady.thy ===== *)
theory Core_Steady
  imports Core_Drive
begin

text \<open>A second pass of the converger changes nothing: \<open>settled\<close> describes a device that is set up,
  \<open>Setup\<close> establishes it, and on a settled device \<open>Setup\<close> only looks. The last section is about
  a LUKS container that was open before the autopilot came.\<close>

section \<open>What a second pass relies on\<close>

text \<open>The contract of the interface, and three laws more: mounting what is mounted already does
  nothing, a mount is recorded without options, and an opened container has a path.\<close>

locale steady_contract = os_contract osi mounts ready luks
  for osi :: "('k, 's) world os_interface"
    and mounts :: "'s \<Rightarrow> MountScope \<Rightarrow> MountPoint list"
    and ready :: "'s \<Rightarrow> bool"
    and luks :: "'s \<Rightarrow> string \<Rightarrow> string" +
  assumes mount_again: "x \<in> set (dev_paths p (mounts (osst w) sc)) \<Longrightarrow> MountDevice osi p x sc w = (Inr True, w)"
    and mount_plain: "MountDevice osi p x sc w = (r, w') \<Longrightarrow> ready (osst w) \<Longrightarrow>
      set (mounts (osst w') sc') \<subseteq>
        insert \<lparr>mp_DevicePath = p, mp_MountPath = x, mp_Options = {}\<rparr> (set (mounts (osst w) sc'))"
    and open_path: "OpenLUKSContainer osi p name ks w = (Inr (q, True), w') \<Longrightarrow> q \<noteq> []"

section \<open>Settled devices\<close>

text \<open>The paths of a device and of all that is mapped in it.\<close>

fun chain :: "device \<Rightarrow> string list" where
  "chain (XFSDevice p f x) = [p]"
| "chain (LUKSDevice p f None n) = [p]"
| "chain (LUKSDevice p f (Some d) n) = p # chain d"

text \<open>In both scopes \<open>p\<close> is mounted, writable, and nowhere but at \<open>x\<close>.\<close>

definition in_place :: "(MountScope \<Rightarrow> MountPoint list) \<Rightarrow> string \<Rightarrow> string \<Rightarrow> bool" where
  "in_place tab p x \<longleftrightarrow> (\<forall>sc. mounts_of p (tab sc) \<noteq> [] \<and> all_at x (mounts_of p (tab sc)))"

fun settled ::
    "(MountScope \<Rightarrow> MountPoint list) \<Rightarrow> (string \<Rightarrow> string) \<Rightarrow> drive \<Rightarrow> device \<Rightarrow> bool" where
  "settled tab lk drv (XFSDevice p f x) \<longleftrightarrow> f \<and> x = MountPathAt drv x \<and> in_place tab p x"
| "settled tab lk drv (LUKSDevice p f None n) \<longleftrightarrow> False"
| "settled tab lk drv (LUKSDevice p f (Some d) n) \<longleftrightarrow>
     f \<and> Keys drv \<noteq> [] \<and> lk p = dev_path d \<and> dev_path d \<noteq> [] \<and>
     (\<forall>sc. mounts_of p (tab sc) = []) \<and> settled tab lk drv d"

lemma MountPathAt_not_Nil: "x = MountPathAt drv x \<Longrightarrow> x \<noteq> []"
  by (erule ssubst) (simp add: MountPathAt_def Let_def)

lemma XFS_Validate_mounts_in_place:
  "x \<noteq> [] \<Longrightarrow> all_at x ms \<Longrightarrow> XFS_Validate_mounts p sc ms x w = (Inr (None, x), w)"
  by (induction ms) (auto simp: all_at_def)

text \<open>A removal that may fail, or nothing.\<close>

definition at_most_removes :: "'k host \<Rightarrow> ('k, 's) world \<Rightarrow> ('k, 's) world \<Rightarrow> bool" where
  "at_most_removes h w w' \<longleftrightarrow> osst w' = osst w \<and>
     (kern w' = kern w \<or> (\<exists>f. kern w' = snd (sys_remove h f (kern w))))"

lemma clear_unmount_propagation_steps:
  obtains w' where "clear_unmount_propagation h x w = (Inr (), w')" and "at_most_removes h w w'"
proof (cases "Dir x = srv_node")
  case True
  obtain err k where r: "sys_remove h (FpJoin [unmount_propagation_dir, Base x]) (kern w) = (err, k)" by fastforce
  then have k: "k = snd (sys_remove h (FpJoin [unmount_propagation_dir, Base x]) (kern w))" by simp
  from True r have "\<exists>w'. clear_unmount_propagation h x w = (Inr (), w') \<and> osst w' = osst w \<and> kern w' = k"
    by (auto simp: clear_unmount_propagation_def whenM_def bindM_def sysM_def split: option.split os_error.split)
  then show ?thesis using that k unfolding at_most_removes_def by blast
next
  case False
  then show ?thesis
    by (intro that [of w]) (simp_all add: clear_unmount_propagation_def whenM_def at_most_removes_def)
qed

section \<open>A second Setup only looks\<close>

context steady_contract
begin

lemma XFS_Validate_in_place:
  assumes "in_place (mounts (osst w)) p x" and "x \<noteq> []"
  shows "XFS_Validate osi p x w = (Inr (None, x), w)"
  using assms
  by (simp add: XFS_Validate_def XFS_Validate_scope_def ForeachMountScopeOrError_def bindM_def get_of
      in_place_def XFS_Validate_mounts_in_place)

lemma unmount_others_in_place:
  assumes "in_place (mounts (osst w)) p x"
  shows "ForeachMountScope (unmount_others osi p x) w = (Inr True, w)"
proof -
  have "all_okM ms (\<lambda>m. if mp_MountPath m \<noteq> x then UnmountDevice osi (mp_MountPath m) sc else ret True) w
      = (Inr True, w)" if "all_at x ms" for ms sc
    using that by (induction ms) (auto simp: all_at_def bindM_def)
  with assms show ?thesis
    by (simp add: ForeachMountScope_def unmount_others_def bindM_def get_of in_place_def)
qed

lemma mount_in_place:
  assumes "in_place (mounts (osst w)) p x"
  shows "ForeachMountScope (MountDevice osi p x) w = (Inr True, w)"
proof -
  have "x \<in> set (dev_paths p (mounts (osst w) sc))" for sc
    using assms all_at_hd unfolding in_place_def dev_paths_def set_map by (metis hd_in_set imageI)
  then show ?thesis by (simp add: ForeachMountScope_def bindM_def mount_again)
qed

lemma Device_Validate_settled:
  assumes "settled (mounts (osst w)) (luks (osst w)) drv d" and "length (chain d) \<le> Suc n"
  shows "Device_Validate n osi d w = (Inr (None, d), w)"
  using assms
proof (induction d arbitrary: n rule: chain.induct)
  case (1 p f x)
  then have "XFS_Validate osi p x w = (Inr (None, x), w)"
    by (intro XFS_Validate_in_place MountPathAt_not_Nil) auto
  then show ?case by (simp add: bindM_def)
next
  case (3 p f d nm)
  then obtain k where n: "n = Suc k" and "length (chain d) \<le> Suc k"
    by (cases n; cases d rule: chain.cases) auto
  with 3 have "Device_Validate k osi d w = (Inr (None, d), w)" by simp
  moreover have "luks_not_mounted osi p w = (Inr None, w)"
    using 3(2) by (simp add: luks_not_mounted_def ForeachMountScopeOrError_def bindM_def get_of)
  ultimately show ?case
    using 3(2) by (simp add: n LUKS_Validate_def luks_discover_def bindM_def get_luks)
qed simp

lemma XFS_Setup_settled:
  assumes "settled (mounts (osst w)) lk drv (XFSDevice p f x)"
  obtains w' where "XFS_Setup h osi drv p f x w = (Inr (True, XFSDevice p f x), w')" and "at_most_removes h w w'"
proof -
  from assms have s: "f" "x = MountPathAt drv x" "in_place (mounts (osst w)) p x" by simp_all
  obtain w' where c: "clear_unmount_propagation h x w = (Inr (), w')" and r: "at_most_removes h w w'"
    by (rule clear_unmount_propagation_steps)
  have "XFS_Setup h osi drv p f x w = (Inr (True, XFSDevice p f x), w')"
    using XFS_Validate_in_place [OF s(3) MountPathAt_not_Nil [OF s(2)]] unmount_others_in_place [OF s(3)]
      mount_in_place [OF s(3)] s(1) s(2) [symmetric] c
    by (simp add: XFS_Setup_def XFS_Format_def Let_def bindM_def thenM_def)
  then show ?thesis using r by (rule that)
qed

lemma Device_Setup_settled:
  assumes "settled (mounts (osst w)) (luks (osst w)) drv d" and "length (chain d) \<le> Suc n"
  shows "\<exists>w'. Device_Setup n h osi drv d w = (Inr (True, d), w') \<and> at_most_removes h w w'"
  using assms
proof (induction d arbitrary: n rule: chain.induct)
  case (1 p f x)
  from XFS_Setup_settled [OF 1(1)] show ?case by (metis Device_Setup.simps(1))
next
  case (3 p f d nm)
  then obtain k where n: "n = Suc k" and k: "length (chain d) \<le> Suc k"
    by (cases n; cases d rule: chain.cases) auto
  with 3 obtain w' where s: "Device_Setup k h osi drv d w = (Inr (True, d), w')" and r: "at_most_removes h w w'"
    by auto
  have "Device_Validate k osi d w = (Inr (None, d), w)"
    by (rule Device_Validate_settled [where drv = drv]) (use 3(2) k in simp_all)
  moreover have "luks_not_mounted osi p w = (Inr None, w)"
    using 3(2) by (simp add: luks_not_mounted_def ForeachMountScopeOrError_def bindM_def get_of)
  ultimately have "LUKS_Validate (Device_Validate k osi) osi p (Some d) w = (Inr (None, Some d), w)"
    using 3(2) by (simp add: LUKS_Validate_def luks_discover_def bindM_def get_luks)
  with s 3(2) have "Device_Setup n h osi drv (LUKSDevice p f (Some d) nm) w = (Inr (True, LUKSDevice p f (Some d) nm), w')"
    by (simp add: n LUKS_Setup_def LUKS_Format_def LUKS_Open_def bindM_def)
  with r show ?case by blast
qed simp

text \<open>What \<open>Setup\<close> of a filesystem leaves behind.\<close>

lemma XFS_Validate_writable:
  assumes "XFS_Validate osi p mp w = (Inr (None, mp'), w')" and "m \<in> set (mounts_of p (mounts (osst w) sc))"
  shows "''ro'' \<notin> mp_Options m"
proof -
  have loop: "\<forall>m \<in> set ms. ''ro'' \<notin> mp_Options m"
    if "XFS_Validate_mounts p sc ms mp w = (Inr (None, mp'), w')" for ms sc mp mp' w w'
    using that by (induction ms arbitrary: mp w) (auto elim!: thenM_InrE split: if_splits)
  have scope: "(\<forall>m \<in> set (mounts_of p (mounts (osst w) sc)). ''ro'' \<notin> mp_Options m) \<and> osst w' = osst w"
    if "XFS_Validate_scope osi p sc mp w = (Inr (None, mp'), w')" for sc mp mp' w w'
  proof
    have "frames (\<lambda>s. s) (XFS_Validate_mounts p sc ms mp)" for ms sc mp
      by (induction p sc ms mp rule: XFS_Validate_mounts.induct) (auto intro!: frames_intros)
    then have "frames (\<lambda>s. s) (XFS_Validate_scope osi p sc mp)"
      unfolding XFS_Validate_scope_def by (intro frames_intros)
    from framesD [OF this that] show "osst w' = osst w" .
  qed (use that in \<open>auto simp: XFS_Validate_scope_def bindM_def get_of split: if_splits dest!: loop\<close>)
  from assms(1) obtain mp1 w1 where h: "XFS_Validate_scope osi p HostScope mp w = (Inr (None, mp1), w1)"
    and l: "XFS_Validate_scope osi p LocalScope mp1 w1 = (Inr (None, mp'), w')"
    by (auto simp: XFS_Validate_def ForeachMountScopeOrError_def elim!: bindM_InrE split: option.splits)
  from scope [OF h] scope [OF l] assms(2) show ?thesis by (cases sc) auto
qed

text \<open>Beside \<open>T\<close> only \<open>p\<close> has mounts, writable ones, and the mappings are \<open>L\<close>.\<close>

definition grown ::
    "string \<Rightarrow> (MountScope \<Rightarrow> MountPoint list) \<Rightarrow> (string \<Rightarrow> string) \<Rightarrow> ('k, 's) world \<Rightarrow> bool" where
  "grown p T L w \<longleftrightarrow> ready (osst w) \<and> luks (osst w) = L \<and>
     (\<forall>sc. \<forall>m \<in> set (mounts (osst w) sc). m \<in> set (T sc) \<or> mp_DevicePath m = p \<and> ''ro'' \<notin> mp_Options m)"

lemma grown_frames:
  assumes "frames tables m" and "frames luks m"
  shows "yields (grown p T L) m (\<lambda>_. True)"
proof (rule yieldsI)
  fix w x w' assume "grown p T L w" and m: "m w = (Inr x, w')"
  with framesD [OF assms(1) m] framesD [OF assms(2) m] show "grown p T L w' \<and> True"
    by (simp add: grown_def)
qed

lemma grown_mount: "yields (grown p T L) (MountDevice osi p x sc) (\<lambda>_. True)"
proof (rule yieldsI)
  fix w ok w' assume g: "grown p T L w" and m: "MountDevice osi p x sc w = (Inr ok, w')"
  then have r: "ready (osst w)" by (simp add: grown_def)
  from g mount_plain [OF m r] mount_ready [OF m r] framesD [OF mount_luks m]
  show "grown p T L w' \<and> True" unfolding grown_def by fastforce
qed

lemma grown_unmount: "yields (grown p T L) (UnmountDevice osi x sc) (\<lambda>_. True)"
proof (rule yieldsI)
  fix w ok w' assume g: "grown p T L w" and m: "UnmountDevice osi x sc w = (Inr ok, w')"
  then have r: "ready (osst w)" by (simp add: grown_def)
  from g unmount_shrinks [OF m r] unmount_ready [OF m r] framesD [OF unmount_luks m]
  show "grown p T L w' \<and> True" unfolding grown_def by blast
qed

lemma grown_XFS_Setup: "yields (grown p T L) (XFS_Setup h osi drv p f mp) (\<lambda>_. True)"
proof -
  have val: "yields (grown p T L) (XFS_Validate osi p mp) (\<lambda>_. True)"
    by (rule grown_frames) (intro frames_intros)+
  have log: "yields (grown p T L) (logM l msg) (\<lambda>_. True)" for l msg
    by (rule grown_frames) (intro frames_intros)+
  have fmt: "yields (grown p T L) (XFS_Format osi p f) (\<lambda>_. True)"
    by (rule grown_frames) (intro frames_intros)+
  have clear: "yields (grown p T L) (clear_unmount_propagation h x) (\<lambda>_. True)" for x
    by (rule grown_frames) (intro frames_intros)+
  have get: "yields (grown p T L) (GetMountPointsOf osi p sc) (\<lambda>_. True)" for sc
    by (rule grown_frames) (intro frames_intros)+
  have unmounts: "yields (grown p T L) (ForeachMountScope (unmount_others osi p x)) (\<lambda>_. True)" for x
    unfolding unmount_others_def
    by (rule yields_ForeachMountScope, rule yields_bindM [OF get], rule yields_all_okM)
       (auto intro: grown_unmount yields_ret yields_Pair)
  have mounts: "yields (grown p T L) (ForeachMountScope (MountDevice osi p x)) (\<lambda>_. True)" for x
    by (rule yields_ForeachMountScope [OF grown_mount])
  have r: "yields (grown p T L) (ret y) (\<lambda>_. True)" for y :: "bool \<times> device"
    by (rule yields_ret) simp
  show ?thesis
    unfolding XFS_Setup_def Let_def
    by (rule yields_bindM [OF val])
       (auto split: option.split intro!: yields_thenM [OF log r] yields_bindM [OF fmt] r
          yields_bindM [OF unmounts] yields_bindM [OF mounts] yields_thenM [OF clear r])
qed

lemma XFS_Setup_settles:
  assumes s: "XFS_Setup h osi drv p f mp w = (Inr (True, d'), w')" and "ready (osst w)"
    and "\<forall>sc. exclusive p (mounts (osst w) sc)"
  shows "dev_path d' = p \<and> chain d' = [p] \<and> settled (mounts (osst w')) lk drv d' \<and>
    grown p (mounts (osst w)) (luks (osst w)) w'"
proof -
  have g: "grown p (mounts (osst w)) (luks (osst w)) w'"
    by (rule yieldsD [OF grown_XFS_Setup s, THEN conjunct1]) (use assms(2) in \<open>simp add: grown_def\<close>)
  from XFS_Setup_True [OF s assms(2)] assms(3) obtain x where x: "d' = XFSDevice p True x" "x = MountPathAt drv x"
    "\<forall>sc. set (dev_paths p (mounts (osst w') sc)) = {x}" by blast
  from s obtain mp1 w1 where v: "XFS_Validate osi p mp w = (Inr (None, mp1), w1)"
    unfolding XFS_Setup_def by (elim bindM_InrE) (auto elim!: thenM_InrE split: option.splits)
  have "mounts_of p (mounts (osst w') sc) \<noteq> [] \<and> all_at x (mounts_of p (mounts (osst w') sc))" for sc
  proof
    show "mounts_of p (mounts (osst w') sc) \<noteq> []"
      using x(3) [THEN spec, of sc] by (auto simp: dev_paths_def)
    have "''ro'' \<notin> mp_Options m \<and> mp_MountPath m = x" if m: "m \<in> set (mounts_of p (mounts (osst w') sc))" for m
    proof
      have "mp_MountPath m \<in> set (dev_paths p (mounts (osst w') sc))" using m by (simp add: dev_paths_def)
      with x(3) show "mp_MountPath m = x" by simp
      from m g have "m \<in> set (mounts_of p (mounts (osst w) sc)) \<or> ''ro'' \<notin> mp_Options m"
        by (auto simp: mounts_of_def grown_def)
      with XFS_Validate_writable [OF v] show "''ro'' \<notin> mp_Options m" by blast
    qed
    then show "all_at x (mounts_of p (mounts (osst w') sc))" by (simp add: all_at_def)
  qed
  then have "in_place (mounts (osst w')) p x" by (simp add: in_place_def)
  with x(1,2) g show ?thesis by simp
qed

text \<open>The same for a container.\<close>

definition looks :: "(device \<Rightarrow> (('k, 's) world, string option \<times> device) io) \<Rightarrow> bool" where
  "looks v \<longleftrightarrow> (\<forall>d. frames tables (v d) \<and> frames luks (v d) \<and>
     (\<forall>w err d' w'. v d w = (Inr (err, d'), w') \<longrightarrow> dev_path d' = dev_path d))"

lemma LUKS_Validate_looks:
  assumes "looks v"
  shows "frames tables (LUKS_Validate v osi p od)" and "frames luks (LUKS_Validate v osi p od)"
  using assms unfolding LUKS_Validate_def looks_def
  by (auto split: option.split intro!: frames_intros)

lemma luks_not_mounted_None:
  assumes "luks_not_mounted osi p w = (Inr None, w')"
  shows "mounts_of p (mounts (osst w) sc) = []"
  using assms
  by (cases sc) (auto simp: luks_not_mounted_def ForeachMountScopeOrError_def bindM_def get_of split: if_splits)

lemma luks_discover_None:
  assumes "luks_discover osi p od q w = (Inr (None, Some m), w')"
  shows "dev_path m = q \<and> q \<noteq> []"
  using assms unfolding luks_discover_def
  by (auto elim!: bindM_InrE thenM_InrE dest: newDevice_value split: option.splits if_splits)

lemma LUKS_Validate_None:
  assumes "LUKS_Validate v osi p od w = (Inr (None, od'), w')" and "looks v"
  shows "mounts_of p (mounts (osst w) sc) = []"
    and "od' = Some m \<Longrightarrow> dev_path m = luks (osst w) p \<and> dev_path m \<noteq> []"
proof -
  let ?q = "luks (osst w) p"
  from assms(1) obtain od1 w1 where l: "luks_discover osi p od ?q w = (Inr (None, od1), w1)"
    and rest: "bindM (luks_not_mounted osi p) (\<lambda>err.
     case err of Some e \<Rightarrow> ret (Some e, od1) | None \<Rightarrow>
     case od1 of
       None \<Rightarrow> ret (None, None)
     | Some m \<Rightarrow> bindM (v m) (\<lambda>(err, m). ret (err, Some m))) w1 = (Inr (None, od'), w')"
    unfolding LUKS_Validate_def bindM_Inr [where m = "GetLUKSMappingOf osi p", OF get_luks]
    by (elim bindM_InrE) (auto split: option.splits)
  from rest obtain w2 where n: "luks_not_mounted osi p w1 = (Inr None, w2)"
    and tail: "(case od1 of
       None \<Rightarrow> ret (None, None)
     | Some m \<Rightarrow> bindM (v m) (\<lambda>(err, m). ret (err, Some m))) w2 = (Inr (None, od'), w')"
    by (elim bindM_InrE) (auto split: option.splits)
  from luks_not_mounted_None [OF n] framesD [OF luks_discover_frame(1) l]
  show "mounts_of p (mounts (osst w) sc) = []" by simp
  show "dev_path m = ?q \<and> dev_path m \<noteq> []" if od': "od' = Some m"
  proof -
    from tail od' obtain m1 where m1: "od1 = Some m1" and "v m1 w2 = (Inr (None, m), w')"
      by (cases od1) (auto elim!: bindM_InrE)
    with assms(2) have "dev_path m = dev_path m1" unfolding looks_def by blast
    with luks_discover_None [OF l [unfolded m1]] show ?thesis by simp
  qed
qed

lemma LUKS_Open_True:
  assumes "LUKS_Open osi drv p od nm w = (Inr (True, Some m, nm'), w')"
  shows "od = Some m \<and> w' = w \<or>
    od = None \<and> luks (osst w') = (luks (osst w))(p := dev_path m) \<and> dev_path m \<noteq> []"
proof (cases od)
  case None
  with assms obtain q w1 where o: "OpenLUKSContainer osi p (DriveID drv) (Keys drv) w = (Inr (q, True), w1)"
    and rest: "thenM (log_info (''LUKS container at '' @ p @ '' opened as '' @ q))
      (bindM (newDevice osi q False) (\<lambda>mapped. ret (True, mapped, DriveID drv))) w1 = (Inr (True, Some m, nm'), w')"
    unfolding LUKS_Open_def None option.case
    by (elim bindM_InrE) (auto simp del: logM_run elim: thenM_InrE split: if_splits prod.splits)
  from rest obtain w2 where l: "osst w2 = osst w1" and n: "newDevice osi q False w2 = (Inr (Some m), w')"
    by (elim thenM_InrE bindM_InrE) (auto simp del: logM_run dest!: framesD [OF frames_logM [where v = "\<lambda>s. s"]])
  from newDevice_value [OF n refl] open_luks [OF o] open_path [OF o] framesD [OF newDevice_frame(2) n] l None
  show ?thesis by simp
qed (use assms in \<open>auto simp: LUKS_Open_def\<close>)

text \<open>A successful \<open>Setup\<close> of a container goes on to the device \<open>m\<close> in it.\<close>

lemma LUKS_Setup_settles:
  assumes "LUKS_Setup v s osi drv p f od nm w = (Inr (True, d'), w')" and v: "looks v"
  obtains m w1 m' nm' where "s m w1 = (Inr (True, m'), w')" and "d' = LUKSDevice p True (Some m') nm'"
    and "tables (osst w1) = tables (osst w)" and "Keys drv \<noteq> []"
    and "luks (osst w1) p = dev_path m" and "dev_path m \<noteq> []"
    and "\<And>q. q \<noteq> p \<Longrightarrow> luks (osst w1) q = luks (osst w) q"
    and "\<And>sc. mounts_of p (mounts (osst w) sc) = []"
proof -
  from assms(1) obtain od1 w1 w2 m nm' w3 m' where V: "LUKS_Validate v osi p od w = (Inr (None, od1), w1)"
    and k: "Keys drv \<noteq> []" and F: "LUKS_Format osi drv p f w1 = (Inr (True, True), w2)"
    and O: "LUKS_Open osi drv p od1 nm w2 = (Inr (True, Some m, nm'), w3)"
    and S: "s m w3 = (Inr (True, m'), w')" and d: "d' = LUKSDevice p True (Some m') nm'"
    by (rule LUKS_Setup_steps)
  have l: "luks (osst w2) = luks (osst w)"
    using framesD [OF LUKS_Validate_looks(2) [OF v] V] framesD [OF Format_luks(2) F] by simp
  have t: "tables (osst w3) = tables (osst w)"
    using framesD [OF LUKS_Validate_looks(1) [OF v] V] framesD [OF LUKS_Format_frame F]
      framesD [OF LUKS_Open_frame O] by simp
  from LUKS_Open_True [OF O] LUKS_Validate_None(2) [OF V v] l
  have "luks (osst w3) p = dev_path m" "dev_path m \<noteq> []" "\<And>q. q \<noteq> p \<Longrightarrow> luks (osst w3) q = luks (osst w) q"
    by auto
  with S d t k LUKS_Validate_None(1) [OF V v] show ?thesis by (intro that [of m w3 m' nm']) simp_all
qed

lemma looks_Device_Validate: "looks (Device_Validate n osi)"
proof -
  have "frames luks (Device_Validate n osi d) \<and>
    (\<forall>w err d' w'. Device_Validate n osi d w = (Inr (err, d'), w') \<longrightarrow> dev_path d' = dev_path d)" for d
  proof (induction n arbitrary: d)
    case 0
    show ?case by (cases d) (auto intro!: frames_intros elim!: bindM_InrE)
  next
    case (Suc n)
    then have "looks (Device_Validate n osi)" by (simp add: looks_def Device_Validate_frame)
    from LUKS_Validate_looks(2) [OF this] show ?case
      by (cases d) (auto intro!: frames_intros elim!: bindM_InrE)
  qed
  then show ?thesis by (simp add: looks_def Device_Validate_frame)
qed

lemma XFS_Setup_innermost:
  assumes "XFS_Setup h osi drv p f mp w = (Inr (True, d'), w')"
  shows "innermost d' = d'" and "dev_path d' = p"
  using assms by (auto simp: XFS_Setup_def Let_def elim!: bindM_InrE thenM_InrE split: option.splits if_splits)

text \<open>\<open>Setup\<close> settles the device, and outside the device it only removes mounts.\<close>

lemma Device_Setup_settles:
  assumes "Device_Setup n h osi drv d w = (Inr (True, d'), w')" and "ready (osst w)"
    and "\<forall>sc. exclusive (dev_path (innermost d')) (mounts (osst w) sc)" and "distinct (chain d')"
  shows "dev_path d' = dev_path d \<and> length (chain d') \<le> Suc n \<and>
    settled (mounts (osst w')) (luks (osst w')) drv d' \<and>
    (\<forall>q. q \<notin> set (chain d') \<longrightarrow> luks (osst w') q = luks (osst w) q) \<and>
    (\<forall>sc. \<forall>m \<in> set (mounts (osst w') sc). m \<in> set (mounts (osst w) sc) \<or> mp_DevicePath m \<in> set (chain d'))"
  using assms
proof (induction n arbitrary: d w d')
  case 0
  show ?case
  proof (cases d)
    case (XFSDevice p f mp)
    with 0 have s: "XFS_Setup h osi drv p f mp w = (Inr (True, d'), w')" by simp
    with XFS_Setup_innermost [OF s] XFS_Setup_settles [OF s 0(2)] 0(3) XFSDevice show ?thesis by (auto simp: grown_def)
  qed (use 0 in simp)
next
  case (Suc n)
  show ?case
  proof (cases d)
    case (XFSDevice p f mp)
    with Suc have s: "XFS_Setup h osi drv p f mp w = (Inr (True, d'), w')" by simp
    with XFS_Setup_innermost [OF s] XFS_Setup_settles [OF s Suc(3)] Suc(4) XFSDevice show ?thesis by (auto simp: grown_def)
  next
    case (LUKSDevice p f od nm)
    with Suc.prems have "LUKS_Setup (Device_Validate n osi) (Device_Setup n h osi drv) osi drv p f od nm w
      = (Inr (True, d'), w')" by simp
    then obtain m w1 m' nm' where s: "Device_Setup n h osi drv m w1 = (Inr (True, m'), w')"
      and d': "d' = LUKSDevice p True (Some m') nm'" and t: "tables (osst w1) = tables (osst w)"
      and k: "Keys drv \<noteq> []" and l: "luks (osst w1) p = dev_path m" "dev_path m \<noteq> []"
        "\<And>q. q \<noteq> p \<Longrightarrow> luks (osst w1) q = luks (osst w) q"
      and n: "\<And>sc. mounts_of p (mounts (osst w) sc) = []"
      by (rule LUKS_Setup_settles [OF _ looks_Device_Validate]) blast
    from Suc.IH [OF s] t Suc.prems(2-4) d'
    have IH: "dev_path m' = dev_path m" "length (chain m') \<le> Suc n"
      "settled (mounts (osst w')) (luks (osst w')) drv m'"
      "\<And>q. q \<notin> set (chain m') \<Longrightarrow> luks (osst w') q = luks (osst w1) q"
      "\<And>sc m. m \<in> set (mounts (osst w') sc) \<Longrightarrow> m \<in> set (mounts (osst w) sc) \<or> mp_DevicePath m \<in> set (chain m')"
      by auto
    have "mounts_of p (mounts (osst w') sc) = []" for sc
    proof -
      have "mp_DevicePath x \<noteq> p" if "x \<in> set (mounts (osst w') sc)" for x
        using IH(5) [OF that] n [of sc] Suc.prems(4) d' by (auto simp: mounts_of_def filter_empty_conv)
      then show ?thesis by (auto simp: mounts_of_def filter_empty_conv)
    qed
    with IH l k d' LUKSDevice Suc.prems(4) show ?thesis by auto
  qed
qed

text \<open>The same for a pass over a drive.\<close>

lemma settled_cong:
  assumes "Keys drv' = Keys drv" and "MountPathAt drv' = MountPathAt drv"
  shows "settled tab lk drv' d = settled tab lk drv d"
  by (induction d rule: chain.induct) (simp_all add: assms)

lemma Drive_Converge_settled:
  assumes "\<not> Broken d" and "Device d = Some dev" and "settled (mounts (osst w)) (luks (osst w)) d dev"
    and "length (chain dev) \<le> Suc (stack_limit h)"
  shows "\<exists>w'. Drive_Converge h osi d w = (Inr d, w') \<and> at_most_removes h w w'"
proof -
  obtain w' where "Device_Setup (stack_limit h) h osi d dev w = (Inr (True, dev), w')" and r: "at_most_removes h w w'"
    using Device_Setup_settled [OF assms(3,4)] by blast
  moreover have "d\<lparr>Device := Some dev\<rparr> = d" using assms(2) by (cases d) simp
  ultimately have "Drive_Converge h osi d w = (Inr d, w')"
    using assms(1,2) by (simp add: Drive_Converge_def bindM_def)
  with r show ?thesis by blast
qed

lemma Drive_Converge_settles:
  assumes "Drive_Converge h osi d w = (Inr d1, w1)" and "\<not> Broken d1" and "ready (osst w)"
    and "Device d1 = Some dev" and "distinct (chain dev)"
    and "\<forall>sc. exclusive (dev_path (innermost dev)) (mounts (osst w) sc)"
  shows "settled (mounts (osst w1)) (luks (osst w1)) d1 dev \<and> length (chain dev) \<le> Suc (stack_limit h)"
proof -
  have b: "\<not> Broken d" using Drive_Converge_value [OF assms(1)] assms(2) by blast
  have "\<exists>dev0. Device_Setup (stack_limit h) h osi d dev0 w = (Inr (True, dev), w1) \<and> d1 = d\<lparr>Device := Some dev\<rparr>"
    using assms(1,2,4) b
    by (auto simp: Drive_Converge_def Let_def elim!: bindM_InrE dest!: MarkAsBroken_value teardown_device_value
        split: option.splits if_splits, blast)
  then obtain dev0 where s: "Device_Setup (stack_limit h) h osi d dev0 w = (Inr (True, dev), w1)"
    and d1: "d1 = d\<lparr>Device := Some dev\<rparr>" by blast
  have "settled tab lk d1 dev = settled tab lk d dev" for tab lk
    by (rule settled_cong) (simp_all add: d1 fun_eq_iff MountPathAt_def Let_def)
  with Device_Setup_settles [OF s assms(3,6,5)] show ?thesis by simp
qed

end

section \<open>A container that was open before\<close>

text \<open>A container that can be read is adopted, but not under a name.\<close>

lemma LUKS_Validate_discovered:
  assumes "LUKS_Validate v osi p None w = (Inr (None, mapped), w')"
    and "GetLUKSMappingOf osi p w = (Inr q, w1)" and "q \<noteq> []"
    and "\<And>w w'. ClassifyDevice osi q w \<noteq> (Inr DeviceTypeUnreadable, w')"
  obtains m where "mapped = Some m"
proof -
  have "bindM (luks_discover osi p None q) (\<lambda>(err, mapped).
    case err of Some e \<Rightarrow> ret (Some e, mapped) | None \<Rightarrow>
    bindM (luks_not_mounted osi p) (\<lambda>err.
    case err of Some e \<Rightarrow> ret (Some e, mapped) | None \<Rightarrow>
    case mapped of
      None \<Rightarrow> ret (None, None)
    | Some m \<Rightarrow> bindM (v m) (\<lambda>(err, m). ret (err, Some m)))) w1 = (Inr (None, mapped), w')"
    using assms(1) unfolding LUKS_Validate_def bindM_Inr [where m = "GetLUKSMappingOf osi p", OF assms(2)] .
  moreover have "mapped0 \<noteq> None" if "newDevice osi q False w3 = (Inr mapped0, w4)" for mapped0 w3 w4
    using that assms(4) by (auto simp: newDevice_def elim!: bindM_InrE split: DeviceType.splits)
  ultimately obtain m where "mapped = Some m"
    using assms(3) by (fastforce simp: luks_discover_def elim!: bindM_InrE thenM_InrE split: option.splits)
  then show ?thesis by (rule that)
qed

lemma LUKS_Setup_discovered:
  assumes "LUKS_Setup v s osi drv p fmt None [] w = (Inr (True, d'), w')"
    and "GetLUKSMappingOf osi p w = (Inr q, w1)" and "q \<noteq> []"
    and "\<And>w w'. ClassifyDevice osi q w \<noteq> (Inr DeviceTypeUnreadable, w')"
  obtains fmt' m where "d' = LUKSDevice p fmt' (Some m) []"
proof -
  from assms(1) obtain mapped w2 w3 m nm' w4 m' where V: "LUKS_Validate v osi p None w = (Inr (None, mapped), w2)"
    and O: "LUKS_Open osi drv p mapped [] w3 = (Inr (True, Some m, nm'), w4)"
    and d: "d' = LUKSDevice p True (Some m') nm'"
    by (rule LUKS_Setup_steps)
  from LUKS_Validate_discovered [OF V assms(2-4)] obtain m0 where "mapped = Some m0" .
  with O d have "d' = LUKSDevice p True (Some m') []" by (simp add: LUKS_Open_def)
  then show ?thesis by (rule that)
qed

text \<open>Without the name the container is not closed, whatever closing would do.\<close>

lemma Device_Teardown_nameless:
  "Device_Teardown h (osi\<lparr>CloseLUKSContainer := other\<rparr>) drv (LUKSDevice p f (Some (XFSDevice r g x)) [])
   = Device_Teardown h osi drv (LUKSDevice p f (Some (XFSDevice r g x)) [])"
proof -
  have u: "unmount_all h (osi\<lparr>CloseLUKSContainer := other\<rparr>) drv r = unmount_all h osi drv r" for r
    by (rule ext) (simp add: unmount_all_def)
  have c: "LUKS_Close (osi\<lparr>CloseLUKSContainer := other\<rparr>) p f' [] = LUKS_Close osi p f' []" for f'
    by (simp add: LUKS_Close_def)
  show ?thesis unfolding Device_Teardown.simps XFS_Teardown_def u c by (rule refl)
qed

end
