(* ===== verification/Linux_Steady.thy ===== *)
theory Linux_Steady
  imports Linux_Contract Core_Steady
begin

text \<open>The laws of theory \<open>Core_Steady\<close> hold for the implementation of \<open>os.Interface\<close> by \<open>struct Linux\<close>.\<close>

lemma linux_mount_again:
  assumes "x \<in> set (dev_paths p (active (osst w) sc))"
  shows "linux_MountDevice h p x sc w = (Inr True, w)"
proof -
  have "list_ex (\<lambda>m. mp_DevicePath m = p \<and> mp_MountPath m = x) (active (osst w) sc)"
    using assms by (auto simp: dev_paths_def mounts_of_def list_ex_iff)
  then show ?thesis by (simp add: linux_MountDevice_def bindM_def)
qed

lemma linux_mount_plain:
  assumes "linux_MountDevice h p x sc w = (r, w')" and "ready (osst w)"
  shows "set (active (osst w') sc') \<subseteq>
    insert \<lparr>mp_DevicePath = p, mp_MountPath = x, mp_Options = {}\<rparr> (set (active (osst w) sc'))"
  using assms by (cases rule: linux_MountDevice_cases) (auto simp: active_edited)

interpretation steady: steady_contract "linux_osi h" active ready luks_view for h
proof (unfold_locales, goal_cases)
  case (1 x p w sc)
  then show ?case by (simp add: linux_osi_def linux_mount_again)
next
  case (2 p x sc w r w' sc')
  then show ?case using linux_mount_plain [of h p x sc w r w' sc'] by (simp add: linux_osi_def)
next
  case (3 p name ks w q w')
  then show ?case by (auto simp: linux_osi_def dev_mapper_def dest: linux_OpenLUKSContainer_effect)
qed

end
