(* ===== verification/Failed_Drives.thy ===== *)
theory Failed_Drives
  imports Converger
begin

text \<open>
  Drives that have failed. The abstract view: a kernel error puts the path of a tracked drive
  into the set of failed paths, and only its removal or its reinstatement takes it out again.
  The converger has a broken drive for every failed path.
\<close>

fun fail :: "string list \<times> string set \<Rightarrow> event \<Rightarrow> string list \<times> string set" where
  "fail (ps, F) (DriveErrorEvent p l) = (ps, if p \<in> set ps then insert p F else F)"
| "fail (ps, F) (DriveRemovedEvent p) = (track ps (DriveRemovedEvent p), F - {p})"
| "fail (ps, F) (DriveReinstatedEvent p) = (ps, F - {p})"
| "fail (ps, F) e = (track ps e, F)"

definition broken_at :: "drive list \<Rightarrow> string \<Rightarrow> bool" where
  "broken_at ds p \<longleftrightarrow> (\<exists>d \<in> set ds. DevicePath d = p \<and> Broken d)"

text \<open>The relation between the drives and the abstract view.\<close>

definition represents :: "drive list \<Rightarrow> string list \<times> string set \<Rightarrow> bool" where
  "represents ds a \<longleftrightarrow> fst a = map DevicePath ds \<and> (\<forall>p \<in> snd a. broken_at ds p)"

section \<open>A pass repairs nothing\<close>

definition stays_broken :: "drive \<Rightarrow> drive \<Rightarrow> bool" where
  "stays_broken d d' \<longleftrightarrow> DevicePath d' = DevicePath d \<and> (Broken d \<longrightarrow> Broken d')"

lemma broken_at_mono:
  "list_all2 stays_broken ds ds' \<Longrightarrow> broken_at ds p \<Longrightarrow> broken_at ds' p"
  by (induction rule: list_all2_induct) (auto simp: broken_at_def stays_broken_def)

lemma stays_broken_trans:
  "list_all2 stays_broken a b \<Longrightarrow> list_all2 stays_broken b c \<Longrightarrow> list_all2 stays_broken a c"
  by (rule list_all2_trans [of stays_broken stays_broken stays_broken]) (auto simp: stays_broken_def)

lemma Drive_Converge_stays_broken:
  assumes "Drive_Converge h osi d w = (Inr d', w')"
  shows "stays_broken d d'"
  using Drive_Converge_value [OF assms] by (simp add: stays_broken_def same_drive_def)

lemma Converge_stays_broken:
  assumes "Converge h osi cfg ds w = (Inr ds', w')"
  shows "list_all2 stays_broken ds ds'"
proof -
  from assms obtain ds1 w1 ds2 w2 w3 where
    1: "mapM (Drive_Converge h osi) ds w = (Inr ds1, w1)"
    and 2: "UpdateDriveAssignments ds1 (SwiftIDPool cfg) osi w1 = (Inr ds2, w2)"
    and 3: "mapM (converge_assigned h osi cfg) ds2 w2 = (Inr ds', w3)"
    unfolding Converge_def by (auto elim!: bindM_InrE thenM_InrE)
  have "list_all2 stays_broken ds ds1"
    by (rule mapM_values [OF 1]) (rule Drive_Converge_stays_broken)
  moreover have "list_all2 stays_broken ds1 ds2"
    by (rule list_all2_mono [OF Update_reassigned [OF 2, unfolded reassigned_def]])
       (auto simp: stays_broken_def)
  moreover have "list_all2 stays_broken ds2 ds'"
    by (rule mapM_values [OF 3])
       (auto simp: converge_assigned_def stays_broken_def elim!: bindM_InrE thenM_InrE split: if_splits
         dest!: Drive_Converge_stays_broken)
  ultimately show ?thesis by (blast intro: stays_broken_trans)
qed

section \<open>The handlers follow the abstract view\<close>

lemma represents_stays:
  assumes "represents ds a" and "list_all2 stays_broken ds ds'"
  shows "represents ds' a"
proof -
  have "map DevicePath ds' = map DevicePath ds"
    using assms(2) by (rule list_all2_map_eq) (simp add: stays_broken_def)
  with assms broken_at_mono [OF assms(2)] show ?thesis by (auto simp: represents_def)
qed

lemma fst_fail: "fst (fail a e) = track (fst a) e"
  by (cases "(a, e)" rule: fail.cases) simp_all

lemma broken_at_append [simp]: "broken_at (xs @ ys) p \<longleftrightarrow> broken_at xs p \<or> broken_at ys p"
  by (auto simp: broken_at_def)

lemma broken_at_Cons [simp]:
  "broken_at (d # ds) p \<longleftrightarrow> (DevicePath d = p \<and> Broken d) \<or> broken_at ds p"
  by (auto simp: broken_at_def)

lemma broken_at_filter [simp]:
  "broken_at (filter (\<lambda>d. DevicePath d \<noteq> q) ds) p \<longleftrightarrow> p \<noteq> q \<and> broken_at ds p"
  by (auto simp: broken_at_def)

lemma Handle_represents:
  assumes "Handle h osi cfg e ds w = (Inr ds', w')" and "represents ds a"
  shows "represents ds' (fail a e)"
proof -
  obtain ps F where a: "a = (ps, F)" by (cases a)
  from assms(2) a have ps: "ps = map DevicePath ds" and F: "\<And>p. p \<in> F \<Longrightarrow> broken_at ds p"
    by (auto simp: represents_def)
  have paths: "fst (fail a e) = map DevicePath ds'"
    using Handle_paths [OF assms(1)] by (simp add: fst_fail a ps)
  have "\<forall>p \<in> snd (fail a e). broken_at ds' p"
  proof (cases e)
    case (DriveAddedEvent p f s)
    with assms(1) obtain d where "ds' = ds @ [d]" by (auto elim!: bindM_InrE simp: bindM_Inr)
    with DriveAddedEvent F show ?thesis by (simp add: a)
  next
    case (DriveRemovedEvent p)
    with assms(1) have "ds' = ds \<or> ds' = filter (\<lambda>d. DevicePath d \<noteq> p) ds"
      by (auto elim!: thenM_InrE split: list.splits)
    with DriveRemovedEvent F show ?thesis by (auto simp: a)
  next
    case (DriveErrorEvent p l)
    from update_firstM_value [OF assms(1) [unfolded DriveErrorEvent Handle.simps Handle_defs]]
    show ?thesis
    proof (elim disjE exE conjE)
      assume "\<forall>d \<in> set ds. DevicePath d \<noteq> p" "ds' = ds"
      with DriveErrorEvent F show ?thesis by (auto simp: a ps)
    next
      fix as d bs y
      assume *: "ds = as @ d # bs" "DevicePath d = p" "MarkAsBroken h d w = (Inr y, w')" "ds' = as @ y # bs"
      from MarkAsBroken_value [OF *(3)] have "y = d\<lparr>Broken := True, Assignment := None\<rparr>" by simp
      with DriveErrorEvent F * show ?thesis by (auto simp: a)
    qed
  next
    case (DriveReinstatedEvent p)
    from update_firstM_value [OF assms(1) [unfolded DriveReinstatedEvent Handle.simps Handle_defs]]
    show ?thesis
    proof (elim disjE exE conjE)
      assume "ds' = ds"
      with DriveReinstatedEvent F show ?thesis by (auto simp: a)
    next
      fix as d bs y
      assume *: "ds = as @ d # bs" "DevicePath d = p" "ds' = as @ y # bs"
      with DriveReinstatedEvent F show ?thesis by (fastforce simp: a)
    qed
  next
    case WakeupEvent
    with assms(1) F show ?thesis by (simp add: a)
  qed
  with paths show ?thesis by (simp add: represents_def)
qed

lemma handle_event_represents:
  assumes "handle_event h osi cfg e c w = (Inr c', w')" and "represents (Drives c) a"
  shows "represents (Drives c') (fail a e)"
proof -
  from assms(1) obtain ds w1 where "Handle h osi cfg e (Drives c) w1 = (Inr ds, w')" "Drives c' = ds"
    unfolding handle_event_def Let_def by (auto elim!: thenM_InrE bindM_InrE)
  with Handle_represents [OF this(1) assms(2)] show ?thesis by simp
qed

lemma handle_events_represent:
  "foldM es (handle_event h osi cfg) c w = (Inr c', w') \<Longrightarrow> represents (Drives c) a \<Longrightarrow>
   represents (Drives c') (foldl fail a es)"
proof (induction es arbitrary: c w a)
  case (Cons e es)
  from Cons.prems(1) obtain c1 w1 where 1: "handle_event h osi cfg e c w = (Inr c1, w1)"
    and 2: "foldM es (handle_event h osi cfg) c1 w1 = (Inr c', w')" by (auto elim: bindM_InrE)
  from Cons.IH [OF 2 handle_event_represents [OF 1 Cons.prems(2)]] show ?case by simp
qed simp

lemma converger_iteration_represents:
  assumes "converger_iteration h osi cfg es c w = (Inr c', w')" and "represents (Drives c) a"
  shows "represents (Drives c') (foldl fail a es)"
proof -
  from assms(1) obtain c1 w1 w2 ds where 1: "foldM es (handle_event h osi cfg) c w1 = (Inr c1, w2)"
    and 2: "Converge h osi cfg (Drives c1) w2 = (Inr ds, w')" and c': "c' = c1\<lparr>Drives := ds\<rparr>"
    unfolding converger_iteration_def by (auto elim!: bindM_InrE thenM_InrE)
  from represents_stays [OF handle_events_represent [OF 1 assms(2)] Converge_stays_broken [OF 2]] c'
  show ?thesis by simp
qed

lemma run_represents:
  "foldM queue (converger_iteration h osi cfg) c w = (Inr c', w') \<Longrightarrow> represents (Drives c) a \<Longrightarrow>
   represents (Drives c') (foldl fail a (concat queue))"
proof (induction queue arbitrary: c w a)
  case (Cons es queue)
  from Cons.prems(1) obtain c1 w1 where 1: "converger_iteration h osi cfg es c w = (Inr c1, w1)"
    and 2: "foldM queue (converger_iteration h osi cfg) c1 w1 = (Inr c', w')" by (auto elim: bindM_InrE)
  from Cons.IH [OF 2 converger_iteration_represents [OF 1 Cons.prems(2)]] show ?case by simp
qed simp

lemma RunConverger_represents:
  assumes "RunConverger h osi cfg queue w = (Inr c, w')"
  shows "represents (Drives c) (foldl fail ([], {}) (concat queue))"
  using assms unfolding RunConverger_def by (rule run_represents) (simp add: represents_def)

lemma fst_fails: "fst (foldl fail a es) = foldl track (fst a) es"
  by (induction es arbitrary: a) (simp_all add: fst_fail)

lemma stays_failed:
  "p \<in> snd a \<Longrightarrow> DriveRemovedEvent p \<notin> set es \<Longrightarrow> DriveReinstatedEvent p \<notin> set es \<Longrightarrow>
   p \<in> snd (foldl fail a es)"
proof (induction es arbitrary: a)
  case (Cons e es)
  have "p \<in> snd (fail a e)" using Cons.prems by (cases "(a, e)" rule: fail.cases) auto
  with Cons show ?case by simp
qed simp

end
