(* ===== verification/Core_Termination.thy ===== *)
theory Core_Termination
  imports Core_LUKS
begin

text \<open>
  The depth of the calls of \<open>LUKSDevice.Validate\<close> and \<open>LUKSDevice.Setup\<close> through nested
  containers. The model counts how deep they may go; a call that returns at some depth
  returns the same result at every greater depth, so that the count has no other meaning
  than the size of the stack.
\<close>

definition approx :: "('w, 'a) io \<Rightarrow> ('w, 'a) io \<Rightarrow> bool" where
  "approx m m' \<longleftrightarrow> (\<forall>w x w'. m w = (Inr x, w') \<longrightarrow> m' w = (Inr x, w'))"

named_theorems approx_intros

lemma approxD: "approx m m' \<Longrightarrow> m w = (Inr x, w') \<Longrightarrow> m' w = (Inr x, w')"
  by (simp add: approx_def)

lemma approx_refl: "approx m m"
  by (simp add: approx_def)

lemma approx_trans: "approx a b \<Longrightarrow> approx b c \<Longrightarrow> approx a c"
  by (simp add: approx_def)

lemma approx_exit: "approx (Pair (Inl e)) m"
  by (simp add: approx_def)

lemma approx_bindM [approx_intros]:
  assumes "approx m m'" and "\<And>x. approx (f x) (f' x)"
  shows "approx (bindM m f) (bindM m' f')"
  unfolding approx_def
proof (intro allI impI)
  fix w y w' assume "bindM m f w = (Inr y, w')"
  then obtain x w1 where "m w = (Inr x, w1)" "f x w1 = (Inr y, w')" by (rule bindM_InrE)
  with approxD [OF assms(1)] approxD [OF assms(2)] show "bindM m' f' w = (Inr y, w')" by (simp add: bindM_def)
qed

lemma approx_option [approx_intros]:
  "(x = None \<Longrightarrow> approx a a') \<Longrightarrow> (\<And>y. x = Some y \<Longrightarrow> approx (b y) (b' y)) \<Longrightarrow>
   approx (case x of None \<Rightarrow> a | Some y \<Rightarrow> b y) (case x of None \<Rightarrow> a' | Some y \<Rightarrow> b' y)"
  by (cases x) auto

lemma approx_prod [approx_intros]:
  "(\<And>a b. x = (a, b) \<Longrightarrow> approx (f a b) (f' a b)) \<Longrightarrow>
   approx (case x of (a, b) \<Rightarrow> f a b) (case x of (a, b) \<Rightarrow> f' a b)"
  by (cases x) auto

lemma approx_if [approx_intros]:
  "approx a a' \<Longrightarrow> approx b b' \<Longrightarrow> approx (if c then a else b) (if c then a' else b')"
  by simp

lemma LUKS_Validate_approx:
  "(\<And>m. approx (v m) (v' m)) \<Longrightarrow> approx (LUKS_Validate v osi p mapped) (LUKS_Validate v' osi p mapped)"
  unfolding LUKS_Validate_def by (intro approx_intros approx_refl)

lemma LUKS_Setup_approx:
  "(\<And>m. approx (v m) (v' m)) \<Longrightarrow> (\<And>m. approx (s m) (s' m)) \<Longrightarrow>
   approx (LUKS_Setup v s osi drv p fmt mapped name) (LUKS_Setup v' s' osi drv p fmt mapped name)"
  unfolding LUKS_Setup_def by (intro approx_intros LUKS_Validate_approx approx_refl)

lemma Device_Validate_deeper: "approx (Device_Validate n osi d) (Device_Validate (Suc n) osi d)"
proof (induction n arbitrary: d)
  case 0
  show ?case by (cases d) (simp_all add: approx_refl approx_exit)
next
  case (Suc n)
  show ?case
  proof (cases d)
    case (LUKSDevice p fmt mapped name)
    show ?thesis unfolding LUKSDevice Device_Validate.simps
      by (intro approx_intros LUKS_Validate_approx approx_refl Suc.IH [unfolded Device_Validate.simps])
  qed (simp add: approx_refl)
qed

lemma Device_Setup_deeper: "approx (Device_Setup n h osi drv d) (Device_Setup (Suc n) h osi drv d)"
proof (induction n arbitrary: d)
  case 0
  show ?case by (cases d) (simp_all add: approx_refl approx_exit)
next
  case (Suc n)
  show ?case
  proof (cases d)
    case (LUKSDevice p fmt mapped name)
    show ?thesis unfolding LUKSDevice Device_Setup.simps(3)
      by (rule LUKS_Setup_approx) (rule Device_Validate_deeper, rule Suc.IH)
  qed (simp add: approx_refl)
qed

lemma Device_Setup_depth: "n \<le> m \<Longrightarrow> approx (Device_Setup n h osi drv d) (Device_Setup m h osi drv d)"
proof (induction m rule: dec_induct)
  case (step m)
  then show ?case using Device_Setup_deeper approx_trans by blast
qed (rule approx_refl)

end
