(* ===== verification/Tool_Output.thy ===== *)
theory Tool_Output
  imports Linux_Drive Linux Sample_Host
begin

text \<open>
  The output of the tools that \<open>struct Linux\<close> runs: what mount(8) prints is read back
  faithfully, so is the part of /proc/self/mountinfo that says how mounts propagate, and what
  lsblk(8) may print that the program cannot handle.
\<close>

section \<open>mount(8)\<close>

text \<open>Device, mount point, type and options of a mount, and the line that mount prints.\<close>

type_synonym mount_entry = "string \<times> string \<times> string \<times> string list"

definition mount_line :: "mount_entry \<Rightarrow> string" where
  "mount_line = (\<lambda>(dev, path, ty, opts).
     Join '' '' [dev, ''on'', path, ''type'', ty, ''('' @ Join '','' opts @ '')''])"

definition plain_field :: "string \<Rightarrow> bool" where
  "plain_field s \<longleftrightarrow> CHR 0x20 \<notin> set s \<and> CHR ''\<newline>'' \<notin> set s"

definition plain_entry :: "mount_entry \<Rightarrow> bool" where
  "plain_entry = (\<lambda>(dev, path, ty, opts).
     list_all plain_field [dev, path, ty] \<and> opts \<noteq> [] \<and>
     list_all (\<lambda>s. plain_field s \<and> CHR '','' \<notin> set s) opts)"

definition entry_mount :: "mount_entry \<Rightarrow> MountPoint" where
  "entry_mount = (\<lambda>(dev, path, ty, opts).
     \<lparr>mp_DevicePath = dev, mp_MountPath = path, mp_Options = set opts\<rparr>)"

lemma set_Join: "set (Join sep xs) \<subseteq> set sep \<union> (\<Union>x \<in> set xs. set x)"
  by (induction sep xs rule: Join.induct) auto

lemma parse_mount_line_entry:
  assumes "plain_entry e"
  shows "parse_mount_line (mount_line e) = Inr (if ignored_mount (fst (snd e)) then None else Some (entry_mount e))"
proof -
  obtain dev path ty opts where e: "e = (dev, path, ty, opts)" by (cases e)
  let ?o = "''('' @ Join '','' opts @ '')''"
  from assms e have plain: "plain_field dev" "plain_field path" "plain_field ty" "opts \<noteq> []"
    "\<And>s. s \<in> set opts \<Longrightarrow> CHR 0x20 \<notin> set s \<and> CHR '','' \<notin> set s"
    by (auto simp: plain_entry_def list_all_iff plain_field_def)
  have "CHR 0x20 \<notin> set (Join '','' opts)" using set_Join [of "'',''" opts] plain(5) by auto
  then have "Split CHR 0x20 (Join [CHR 0x20] [dev, ''on'', path, ''type'', ty, ?o]) = [dev, ''on'', path, ''type'', ty, ?o]"
    using plain(1-3) by (intro Split_Join) (auto simp: plain_field_def)
  moreover have "Split CHR '','' (Join [CHR '',''] opts) = opts"
    using plain(4,5) by (intro Split_Join) auto
  moreover have "TrimSuffix (TrimPrefix ?o ''('') '')'' = Join '','' opts"
    using TrimPrefix_append [of "''(''"] TrimSuffix_append [of _ "'')''"] by simp
  ultimately show ?thesis
    by (simp add: parse_mount_line_def mount_line_def e entry_mount_def Let_def)
qed

lemma mount_line_newline: "plain_entry e \<Longrightarrow> CHR ''\<newline>'' \<notin> set (mount_line e)"
  using set_Join [of "'',''"]
  by (fastforce simp: plain_entry_def mount_line_def plain_field_def list_all_iff)

lemma Split_lines:
  "(\<And>e. e \<in> set es \<Longrightarrow> CHR ''\<newline>'' \<notin> set (f e)) \<Longrightarrow>
   Split CHR ''\<newline>'' (concat (map (\<lambda>e. f e @ ''\<newline>'') es)) = map f es @ [[]]"
  by (induction es) (auto simp: Split_append)

section \<open>lsblk(8)\<close>

lemma TrimSpace_Nil: "TrimSpace s = [] \<longleftrightarrow> (\<forall>c \<in> set s. is_space c)"
proof -
  have "dropWhile is_space (rev t) = [] \<longleftrightarrow> (\<forall>c \<in> set t. is_space c)" for t
    by (simp add: dropWhile_eq_Nil_conv)
  moreover have "(\<forall>c \<in> set (dropWhile is_space s). is_space c) \<longleftrightarrow> (\<forall>c \<in> set s. is_space c)"
    by (induction s) auto
  ultimately show ?thesis by (simp add: TrimSpace_def)
qed

lemma Split_subset: "w \<in> set (Split sep s) \<Longrightarrow> set w \<subseteq> set s"
proof (induction s arbitrary: w)
  case (Cons c s)
  obtain v vs where vs: "Split sep s = v # vs" by (meson Split_not_Nil neq_Nil_conv)
  with Cons.IH have "set v \<subseteq> set s" "\<And>u. u \<in> set vs \<Longrightarrow> set u \<subseteq> set s" by simp_all
  with Cons.prems vs show ?case by (fastforce split: if_splits)
qed simp

lemma blank_no_partitions: "TrimSpace stdout = [] \<Longrightarrow> \<not> driveWithPartitionTableRx stdout"
proof
  assume blank: "TrimSpace stdout = []" and "driveWithPartitionTableRx stdout"
  then obtain line where l: "line \<in> set (Split CHR ''\<newline>'' stdout)" "HasPrefix (ToLower line) ''disklabel type''"
    by (auto simp: driveWithPartitionTableRx_def list_ex_iff)
  from l(2) obtain c r where c: "line = c # r" "lower_char c = CHR ''d''"
    by (cases line) (simp_all add: HasPrefix_def ToLower_def)
  have "is_space c" using blank l(1) c(1) Split_subset [OF l(1)] by (auto simp: TrimSpace_Nil)
  then have "lower_char c = c" by (auto simp: is_space_def lower_char_def)
  with c(2) \<open>is_space c\<close> show False by (simp add: is_space_def)
qed

section \<open>/proc/self/mountinfo\<close>

text \<open>The four fields before the mount point, the mount point, the mount options, the optional
  fields, and the fields behind the separator.\<close>

type_synonym info_entry = "string list \<times> string \<times> string \<times> string list \<times> string list"

definition info_line :: "info_entry \<Rightarrow> string" where
  "info_line = (\<lambda>(pre, point, opts, optional, post).
     Join '' '' (pre @ [point, opts] @ optional @ [''-''] @ post))"

definition info_word :: "string \<Rightarrow> bool" where
  "info_word s \<longleftrightarrow> s \<noteq> [] \<and> list_all (\<lambda>c. \<not> is_space c) s"

definition info_entry :: "info_entry \<Rightarrow> bool" where
  "info_entry = (\<lambda>(pre, point, opts, optional, post).
     length pre = 4 \<and> list_all info_word (pre @ [point, opts] @ optional @ post) \<and> ''-'' \<notin> set optional)"

definition propagates :: "string \<Rightarrow> bool" where
  "propagates field \<longleftrightarrow>
     HasPrefix field ''shared:'' \<or> HasPrefix field ''master:'' \<or> HasPrefix field ''propagate_from:''"

text \<open>The mode that the mount of a directory has.\<close>

definition mode_of :: "string \<Rightarrow> info_entry list \<Rightarrow> string + MountPropagationMode" where
  "mode_of dir es =
     (case find (\<lambda>e. Clean (fst (snd e)) = dir) es of
        None \<Rightarrow> Inl (''could not find mount for '' @ dir @ '' in /proc/self/mountinfo'')
      | Some (pre, point, opts, optional, post) \<Rightarrow>
          Inr (if list_ex propagates optional then ConnectedMountNamespaces else SeparateMountNamespaces))"

lemma split_space_append:
  "list_all (\<lambda>c. \<not> is_space c) s \<Longrightarrow> is_space c \<Longrightarrow> split_space (s @ c # r) = s # split_space r"
  by (induction s) auto

lemma split_space_free: "list_all (\<lambda>c. \<not> is_space c) s \<Longrightarrow> split_space s = [s]"
  by (induction s) auto

lemma Fields_Join:
  assumes "list_all info_word ws" shows "Fields (Join '' '' ws) = ws"
proof (cases ws)
  case (Cons w us)
  have "split_space (Join [CHR 0x20] ws) = ws" if "ws \<noteq> []" "list_all info_word ws" for ws
    using that
    by (induction "[CHR 0x20]" ws rule: Join.induct)
       (auto simp: info_word_def split_space_free split_space_append is_space_def [of "CHR 0x20"])
  with assms Cons have "split_space (Join [CHR 0x20] ws) = ws" by simp
  with assms show ?thesis by (auto simp: Fields_def list_all_iff info_word_def filter_id_conv)
qed (simp add: Fields_def)

lemma split_space_end: "is_space c \<Longrightarrow> split_space (s @ [c]) = split_space s @ [[]]"
  by (induction s) (auto split: list.splits)

lemma Fields_TrimSpace: "Fields (TrimSpace s) = Fields s"
proof -
  have lead: "Fields (dropWhile is_space s) = Fields s" for s
    by (induction s) (auto simp: Fields_def)
  have "Fields (rev (dropWhile is_space (rev s))) = Fields s" for s
  proof (induction s rule: rev_induct)
    case (snoc c s)
    then show ?case by (simp add: Fields_def split_space_end)
  qed simp
  with lead show ?thesis by (simp add: TrimSpace_def)
qed

lemma has_propagation_field_optional:
  "''-'' \<notin> set optional \<Longrightarrow>
   has_propagation_field (optional @ ''-'' # post) = Inr (list_ex propagates optional)"
  by (induction optional) (auto simp: propagates_def)

lemma scan_info_line:
  assumes "info_entry (pre, point, opts, optional, post)"
  shows "scan_mountinfo dir (info_line (pre, point, opts, optional, post) # lines) =
    (if Clean point = dir
     then Inr (Inr (if list_ex propagates optional then ConnectedMountNamespaces else SeparateMountNamespaces))
     else scan_mountinfo dir lines)"
proof -
  let ?ws = "pre @ [point, opts] @ optional @ [''-''] @ post" and ?l = "info_line (pre, point, opts, optional, post)"
  have l4: "length pre = 4" and w: "list_all info_word ?ws" and o: "''-'' \<notin> set optional"
    using assms by (simp_all add: info_entry_def) (simp add: info_word_def is_space_def)
  have f: "Fields (TrimSpace ?l) = ?ws" using Fields_Join [OF w] by (simp add: Fields_TrimSpace info_line_def)
  then have "TrimSpace ?l \<noteq> []" by (auto simp: Fields_def)
  moreover have "?ws ! 4 = point" using l4 by (simp add: nth_append)
  moreover have "drop 6 ?ws = optional @ ''-'' # post" using l4 by simp
  moreover have "5 \<le> length ?ws" using l4 by simp
  ultimately show ?thesis
    using f by (simp add: Let_def has_propagation_field_optional [OF o])
qed

lemma info_line_newline: "info_entry e \<Longrightarrow> CHR ''\<newline>'' \<notin> set (info_line e)"
  using set_Join [of "'' ''"]
  by (fastforce simp: info_entry_def info_line_def info_word_def list_all_iff is_space_def)

lemma scan_mountinfo_mode: "\<forall>e \<in> set es. info_entry e \<Longrightarrow> scan_mountinfo dir (map info_line es @ [[]]) = Inr (mode_of dir es)"
proof (induction es)
  case Nil
  show ?case by (simp add: mode_of_def TrimSpace_def)
next
  case (Cons e es)
  obtain pre point opts optional post where e: "e = (pre, point, opts, optional, post)" by (cases e)
  with Cons show ?case by (simp del: scan_mountinfo.simps add: scan_info_line mode_of_def)
qed

section \<open>Properties\<close>

text \<open>C31: The table of mounts is read back as mount prints it. For any list of mounts whose
  fields have no space and no newline, reading the lines that mount prints for them gives
  these mounts with their options, in the same order, without those that containers have
  duplicated.\<close>

theorem mount_table_roundtrip:
  assumes "\<forall>e \<in> set es. plain_entry e"
  shows "parse_mount_lines (Split CHR ''\<newline>'' (concat (map (\<lambda>e. mount_line e @ ''\<newline>'') es))) =
    Inr (map entry_mount (filter (\<lambda>e. \<not> ignored_mount (fst (snd e))) es))"
proof -
  have parse_empty: "parse_mount_line [] = Inr None" by (simp add: parse_mount_line_def)
  have "parse_mount_lines (map mount_line es @ [[]]) =
    Inr (map entry_mount (filter (\<lambda>e. \<not> ignored_mount (fst (snd e))) es))"
    using assms by (induction es) (simp_all add: parse_mount_line_entry parse_empty)
  with assms show ?thesis by (simp add: Split_lines mount_line_newline)
qed

theorem mount_table_roundtrip_witness:
  "parse_mount_lines (Split CHR ''\<newline>'' (concat (map (\<lambda>e. mount_line e @ ''\<newline>'')
      [(''/dev/sda'', ''/srv/node/a'', ''xfs'', [''rw'', ''noatime'']),
       (''overlay'', ''/var/lib/docker/x'', ''overlay'', [''rw''])]))) =
   Inr [\<lparr>mp_DevicePath = ''/dev/sda'', mp_MountPath = ''/srv/node/a'', mp_Options = {''rw'', ''noatime''}\<rparr>]"
proof -
  let ?es = "[(''/dev/sda'', ''/srv/node/a'', ''xfs'', [''rw'', ''noatime'']),
       (''overlay'', ''/var/lib/docker/x'', ''overlay'', [''rw''])]"
  have "\<forall>e \<in> set ?es. plain_entry e" by code_simp
  note m = mount_table_roundtrip [OF this]
  have "filter (\<lambda>e. \<not> ignored_mount (fst (snd e))) ?es = [(''/dev/sda'', ''/srv/node/a'', ''xfs'', [''rw'', ''noatime''])]"
    by code_simp
  with m show ?thesis by (simp only: entry_mount_def list.map prod.case list.set)
qed

text \<open>C39: The mount propagation mode is the one of the chroot's mount. When the working directory
  is not the root and /proc/self/mountinfo is as documented, \<open>detectMountPropagationMode\<close> says
  that the namespaces are connected if an optional field of the first mount at the working
  directory says that mounts propagate, that they are separate if none does, and fails if there
  is no such mount.\<close>

theorem propagation_mode_detected:
  assumes "sys_getwd h (kern w) = (Inr cwd, k)" and "Clean cwd \<noteq> ''/''"
    and "sys_readfile h ''/proc/self/mountinfo'' k = (Inr (concat (map (\<lambda>e. info_line e @ ''\<newline>'') es)), k')"
    and "\<forall>e \<in> set es. info_entry e"
  shows "detectMountPropagationMode h w = (Inr (mode_of (Clean cwd) es), w\<lparr>kern := k'\<rparr>)"
proof -
  have "Split CHR ''\<newline>'' (concat (map (\<lambda>e. info_line e @ ''\<newline>'') es)) = map info_line es @ [[]]"
    using assms(4) by (intro Split_lines info_line_newline) simp
  with assms scan_mountinfo_mode [OF assms(4), of "Clean cwd"] show ?thesis
    by (simp add: detectMountPropagationMode_def bindM_def sysM_def)
qed

theorem propagation_mode_detected_witness:
  "fst (detectMountPropagationMode
      ((sample_host (\<lambda>_. silent) (\<lambda>_. Inl (NotExist []))
         (\<lambda>_. Inr ''25 1 8:1 / / rw - xfs /dev/sda1 rw\<newline>40 25 8:2 / /coreos rw master:1 - xfs /dev/sda2 rw\<newline>''))
       \<lparr>sys_getwd := (\<lambda>k. (Inr ''/coreos'', k))\<rparr>)
      \<lparr>kern = [], logs = [], osst = ()\<rparr>) = Inr (Inr ConnectedMountNamespaces)"
proof -
  let ?es = "[([''25'', ''1'', ''8:1'', ''/''], ''/'', ''rw'', [], [''xfs'', ''/dev/sda1'', ''rw'']),
    ([''40'', ''25'', ''8:2'', ''/''], ''/coreos'', ''rw'', [''master:1''], [''xfs'', ''/dev/sda2'', ''rw''])]"
  have c: "Clean ''/coreos'' = ''/coreos''" "mode_of ''/coreos'' ?es = Inr ConnectedMountNamespaces"
    "list_all info_entry ?es"
    "concat (map (\<lambda>e. info_line e @ ''\<newline>'') ?es) =
      ''25 1 8:1 / / rw - xfs /dev/sda1 rw\<newline>40 25 8:2 / /coreos rw master:1 - xfs /dev/sda2 rw\<newline>''"
    by code_simp+
  show ?thesis
    by (subst propagation_mode_detected [where cwd = "''/coreos''" and es = ?es])
       (use c in \<open>simp_all add: sample_host_def list_all_iff\<close>)
qed

text \<open>C32: A block device of an unknown type ends the process. When a drive cannot be read and
  the first device that lsblk lists is of a type that the program does not know (a RAID or
  LVM volume, for instance), the search for the serial number panics.\<close>

theorem unknown_block_device_ends_process:
  assumes "run h [''sfdisk'', ''-l'', p] w = (Inr (stdout, ok), w1)" and "TrimSpace stdout = []"
    and "run_lsblk h w1 = (Inr (d # ds), w2)" and "\<not> known_type d"
  shows "inspect_drive h g p w = (Inl (Panic ''do not know how to compute devicePath''), w2)"
proof -
  have "lsblk_devicePath d = Inl (Panic ''do not know how to compute devicePath'')"
    using assms(4) by (auto simp: known_type_def lsblk_devicePath_def)
  then have f: "FindSerialNumberForDevice (d # ds) p = Inl (Panic ''do not know how to compute devicePath'')"
    by (cases d) (simp add: FindSerialNumberForDevice_def)
  have "tryFindSerialNumberForBrokenDevice h p w1 = (Inl (Panic ''do not know how to compute devicePath''), w2)"
    using assms(3) f by (simp add: tryFindSerialNumberForBrokenDevice_def bindM_def)
  with assms(1,2) blank_no_partitions show ?thesis by (simp add: inspect_drive_def bindM_def)
qed

definition raid_host :: "trace host" where
  "raid_host = quiet_host
     \<lparr>json_lsblk := (\<lambda>_. Inr [LsblkDevice ''md0'' ''9:0'' False ''1T'' False ''raid1'' None []])\<rparr>"

theorem unknown_block_device_ends_process_witness:
  "\<exists>w'. inspect_drive raid_host ''/dev/sdx'' ''/dev/sdx'' \<lparr>kern = [], logs = [], osst = \<lparr>ActiveMountPoints = None, ActiveLUKSMappings = None, PropagationMode = OneMountNamespace\<rparr>\<rparr> =
     (Inl (Panic ''do not know how to compute devicePath''), w')"
proof -
  let ?w = "\<lparr>kern = [], logs = [], osst = \<lparr>ActiveMountPoints = None, ActiveLUKSMappings = None, PropagationMode = OneMountNamespace\<rparr>\<rparr> :: trace lworld"
  have s: "run raid_host [''sfdisk'', ''-l'', ''/dev/sdx''] w =
      (Inr ([], True), w\<lparr>kern := kern w @ [[''chroot'', ''.'', ''sfdisk'', ''-l'', ''/dev/sdx'']]\<rparr>)" for w :: "trace lworld"
    by (simp add: raid_host_def quiet_host_def sample_host_def run_def Run_def Let_def bindM_def sysM_def
        log_outcome_def whenM_def thenM_def silent_def command_argv_def with_sudo_def with_chroot_def
        with_nsenter_def Command0_def)
  have l: "\<exists>w'. run_lsblk raid_host w = (Inr [LsblkDevice ''md0'' ''9:0'' False ''1T'' False ''raid1'' None []], w')"
    for w :: "trace lworld"
    by (simp add: raid_host_def quiet_host_def sample_host_def run_lsblk_def ParseLsblkOutput_def Run_def Let_def
        bindM_def sysM_def log_outcome_def whenM_def thenM_def silent_def command_argv_def with_sudo_def
        with_chroot_def with_nsenter_def Command0_def)
  have t: "TrimSpace [] = []" by code_simp
  obtain w2 where w2: "run_lsblk raid_host (?w\<lparr>kern := kern ?w @ [[''chroot'', ''.'', ''sfdisk'', ''-l'', ''/dev/sdx'']]\<rparr>) =
      (Inr [LsblkDevice ''md0'' ''9:0'' False ''1T'' False ''raid1'' None []], w2)"
    using l by blast
  show ?thesis
    using unknown_block_device_ends_process [OF s t w2] by (auto simp: known_type_def)
qed

end
