(* ===== verification/Logexpect.thy ===== *)
theory Logexpect
  imports Sample_Host Go_Regexp
begin

text \<open>
  \<open>cmd/logexpect/main.go\<close>: the program of the integration tests that compares a log on its
  standard input with a list of commands. A command \<open>> pattern\<close> takes the next line that is
  not blank, which has to match the pattern; \<open>{{name}}\<close> in it stands for some text, which is
  remembered under the name. A command \<open>$ script\<close> runs bash, with the texts put in for the
  names. The standard input is its text and the error at its end. Texts are read as bytes,
  which is what the program does for ASCII texts. That all input is copied to the standard
  output is not modelled.
\<close>

section \<open>The input\<close>

datatype go_error = Io_EOF | GoError string

record reader =
  rd_text :: string
  rd_err :: go_error

text \<open>\<open>reader.ReadString('\n')\<close>\<close>

definition ReadString :: "reader \<Rightarrow> string \<times> go_error option \<times> reader" where
  "ReadString r =
     (let line = takeWhile (\<lambda>c. c \<noteq> CHR ''\<newline>'') (rd_text r);
          rest = drop (length line) (rd_text r)
      in case rest of
           [] \<Rightarrow> (line, Some (rd_err r), r\<lparr>rd_text := []\<rparr>)
         | c # rest \<Rightarrow> (line @ [c], None, r\<lparr>rd_text := rest\<rparr>))"

section \<open>The regular expressions\<close>

text \<open>\<open>whitespaceRx.ReplaceAllString(s, " ")\<close>\<close>

function squeeze :: "string \<Rightarrow> string" where
  "squeeze [] = []"
| "squeeze (c # s) =
     (if re_space c then '' '' @ squeeze (dropWhile re_space s) else c # squeeze s)"
  by pat_completeness auto
termination
  by (relation "measure length") (auto simp: le_imp_less_Suc length_dropWhile_le)

definition digit :: "char \<Rightarrow> bool" where
  "digit c \<longleftrightarrow> char_between CHR ''0'' CHR ''9'' c"

text \<open>An expression without alternatives, of which each item is a single character of a class
  or a run of white space. No digit is white space, so that the longest run is the only one
  to try.\<close>

datatype shape = One "char \<Rightarrow> bool" | Spaces

fun strip_shape :: "shape list \<Rightarrow> string \<Rightarrow> string option" where
  "strip_shape [] s = Some s"
| "strip_shape (One P # ps) s =
     (case s of [] \<Rightarrow> None | c # t \<Rightarrow> if P c then strip_shape ps t else None)"
| "strip_shape (Spaces # ps) s = strip_shape ps (dropWhile re_space s)"

definition timestampRx :: "shape list" where
  "timestampRx =
     (let d = One digit; slash = One (\<lambda>c. c = CHR ''/''); colon = One (\<lambda>c. c = CHR '':'')
      in [d, d, d, d, slash, d, d, slash, d, d, Spaces, d, d, colon, d, d, colon, d, d, Spaces])"

text \<open>\<open>timestampRx.ReplaceAllString(line, "")\<close>\<close>

definition strip_timestamp :: "string \<Rightarrow> string" where
  "strip_timestamp line = (case strip_shape timestampRx line of None \<Rightarrow> line | Some rest \<Rightarrow> rest)"

text \<open>\<open>variableRxQuoted\<close> and \<open>variableRx\<close> at the beginning of a text: the name between the
  brackets and the text behind them. No character of a name can begin a closing bracket, so
  that the longest name is the only one to try.\<close>

definition letter :: "char \<Rightarrow> bool" where
  "letter c \<longleftrightarrow> lower_letter c \<or> char_between CHR ''A'' CHR ''Z'' c"

definition var_at :: "string \<Rightarrow> string \<Rightarrow> string \<Rightarrow> (string \<times> string) option" where
  "var_at open_br close_br s =
     (if \<not> HasPrefix s open_br then None
      else
        let t = drop (length open_br) s;
            name = takeWhile word_char t;
            rest = drop (length name) t
        in if length name \<ge> 2 \<and> letter (hd name) \<and> HasPrefix rest close_br
           then Some (name, drop (length close_br) rest) else None)"

lemma var_at_Some:
  "var_at open_br close_br s = Some (name, rest) \<longleftrightarrow>
     s = open_br @ name @ close_br @ rest \<and> 2 \<le> length name \<and> letter (hd name) \<and>
     takeWhile word_char (name @ close_br @ rest) = name"
proof
  assume v: "var_at open_br close_br s = Some (name, rest)"
  then obtain t where s: "s = open_br @ t"
    by (auto simp: var_at_def HasPrefix_iff split: if_splits)
  with v show "s = open_br @ name @ close_br @ rest \<and> 2 \<le> length name \<and> letter (hd name) \<and>
     takeWhile word_char (name @ close_br @ rest) = name"
    by (auto simp: var_at_def Let_def HasPrefix_iff dropWhile_eq_drop [symmetric] split: if_splits)
      (metis append_eq_conv_conj takeWhile_dropWhile_id)+
next
  assume "s = open_br @ name @ close_br @ rest \<and> 2 \<le> length name \<and> letter (hd name) \<and>
     takeWhile word_char (name @ close_br @ rest) = name"
  then show "var_at open_br close_br s = Some (name, rest)" by (simp add: var_at_def)
qed

text \<open>\<open>ReplaceAllStringFunc\<close> for these expressions takes the references from left to right and
  copies what is between them.\<close>

datatype token = Text char | Ref string

function references :: "string \<Rightarrow> string \<Rightarrow> string \<Rightarrow> token list" where
  "references open_br close_br [] = []"
| "references open_br close_br (c # s) =
     (case var_at open_br close_br (c # s) of
        Some (name, rest) \<Rightarrow> Ref name # references open_br close_br rest
      | None \<Rightarrow> Text c # references open_br close_br s)"
  by pat_completeness auto
termination
proof (relation "measure (\<lambda>(a, b, s). length s)")
  fix a b c s x name rest
  assume "var_at a b (c # s) = Some x" and "(name, rest) = x"
  then have "c # s = a @ name @ b @ rest" "2 \<le> length name" using var_at_Some [of a b "c # s" name rest] by simp_all
  then have "Suc (length s) = length (a @ name @ b @ rest)" by (metis length_Cons)
  with \<open>2 \<le> length name\<close> show "((a, b, rest), a, b, c # s) \<in> measure (\<lambda>(a, b, s). length s)" by auto
qed simp_all

text \<open>\<open>regexp.QuoteMeta\<close>\<close>

definition meta :: "char \<Rightarrow> bool" where
  "meta c \<longleftrightarrow> c \<in> {CHR 0x5C, CHR ''.'', CHR ''+'', CHR ''*'', CHR ''?'', CHR ''('', CHR '')'',
     CHR ''|'', CHR ''['', CHR '']'', CHR ''{'', CHR ''}'', CHR ''^'', CHR ''$''}"

definition quote_char :: "char \<Rightarrow> string" where
  "quote_char c = (if meta c then [CHR 0x5C, c] else [c])"

definition QuoteMeta :: "string \<Rightarrow> string" where
  "QuoteMeta s = concat (map quote_char s)"

text \<open>Matching against the expressions that \<open>matchPattern\<close> compiles, \<open>^...$\<close> around quoted
  characters and groups \<open>(.+)\<close>. As documented, a group takes as much as it can, and gives
  back character by character when the rest does not match.\<close>

datatype piece = Lit char | Hole

fun parse_rx :: "string \<Rightarrow> piece list" where
  "parse_rx [] = []"
| "parse_rx (c # s) =
     (if c = CHR 0x5C then (case s of [] \<Rightarrow> [] | d # s' \<Rightarrow> Lit d # parse_rx s')
      else if HasPrefix (c # s) ''(.+)'' then Hole # parse_rx (drop 3 s)
      else Lit c # parse_rx s)"

fun first_some :: "'a option list \<Rightarrow> 'a option" where
  "first_some [] = None"
| "first_some (x # xs) = (case x of None \<Rightarrow> first_some xs | Some y \<Rightarrow> Some y)"

primrec FindStringSubmatch :: "piece list \<Rightarrow> string \<Rightarrow> string list option" where
  "FindStringSubmatch [] s = (if s = [] then Some [] else None)"
| "FindStringSubmatch (p # ps) s =
     (case p of
        Lit c \<Rightarrow> (case s of [] \<Rightarrow> None | d # t \<Rightarrow> if d = c then FindStringSubmatch ps t else None)
      | Hole \<Rightarrow>
          first_some (map (\<lambda>n. map_option (Cons (take n s)) (FindStringSubmatch ps (drop n s)))
            (rev [1..<Suc (length (takeWhile (\<lambda>c. c \<noteq> CHR ''\<newline>'') s))])))"

section \<open>matchPattern\<close>

type_synonym vars = "string \<rightharpoonup> string"

text \<open>\<open>patternRxStr\<close> and \<open>captures\<close>\<close>

definition compile_token :: "vars \<Rightarrow> token \<Rightarrow> string" where
  "compile_token vars t =
     (case t of
        Text c \<Rightarrow> [c]
      | Ref name \<Rightarrow> (case vars name of Some v \<Rightarrow> QuoteMeta v | None \<Rightarrow> ''(.+)''))"

definition quoted_references :: "string \<Rightarrow> token list" where
  "quoted_references pattern =
     references [CHR 0x5C, CHR ''{'', CHR 0x5C, CHR ''{''] [CHR 0x5C, CHR ''}'', CHR 0x5C, CHR ''}'']
       (QuoteMeta pattern)"

definition patternRxStr :: "vars \<Rightarrow> string \<Rightarrow> string" where
  "patternRxStr vars pattern = concat (map (compile_token vars) (quoted_references pattern))"

definition unknown :: "vars \<Rightarrow> token \<Rightarrow> string list" where
  "unknown vars t = (case t of Ref name \<Rightarrow> if vars name = None then [name] else [] | Text c \<Rightarrow> [])"

definition captures :: "vars \<Rightarrow> string \<Rightarrow> string list" where
  "captures vars pattern = concat (map (unknown vars) (quoted_references pattern))"

text \<open>The loop over \<open>captures\<close>. The flag says whether it came to the end.\<close>

fun remember :: "(string \<times> string) list \<Rightarrow> vars \<Rightarrow> vars \<times> bool" where
  "remember [] vars = (vars, True)"
| "remember ((name, x) # cs) vars =
     (case vars name of
        Some value \<Rightarrow> if value \<noteq> x then (vars, False) else remember cs vars
      | None \<Rightarrow> remember cs (vars(name \<mapsto> x)))"

definition mismatch :: "string \<Rightarrow> string \<Rightarrow> string \<Rightarrow> go_error" where
  "mismatch pattern rx line =
     GoError (''log line does not match expectation\<newline>expected: '' @ pattern @ ''\<newline>compiled: '' @ rx
       @ ''\<newline>  actual: '' @ line)"

text \<open>The part after the empty lines have been skipped.\<close>

definition match_line :: "string \<Rightarrow> string \<Rightarrow> vars \<Rightarrow> vars \<times> go_error option" where
  "match_line line pattern vars =
     (let line = squeeze (TrimSpace line);
          pattern = squeeze (TrimSpace pattern);
          line = strip_timestamp line;
          rx = patternRxStr vars pattern
      in case FindStringSubmatch (parse_rx rx) line of
           None \<Rightarrow> (vars, Some (mismatch pattern rx line))
         | Some groups \<Rightarrow>
             (case remember (zip (captures vars pattern) groups) vars of
                (vars, ok) \<Rightarrow> (vars, if ok then None else Some (mismatch pattern rx line))))"

lemma ReadString_shorter:
  "ReadString r = (line, None, r') \<Longrightarrow> length (rd_text r') < length (rd_text r)"
  by (auto simp: ReadString_def Let_def split: list.splits)
     (metis diff_less_Suc length_drop length_Cons less_Suc_eq_le lessI not_less)

function matchPattern :: "reader \<Rightarrow> string \<Rightarrow> vars \<Rightarrow> reader \<times> vars \<times> go_error option" where
  "matchPattern r pattern vars =
     (case ReadString r of
        (line, err, r') \<Rightarrow>
          (case err of
             Some (GoError e) \<Rightarrow> (r', vars, Some (GoError e))
           | Some Io_EOF \<Rightarrow>
               if TrimSpace line = [] then (r', vars, Some Io_EOF)
               else (case match_line line pattern vars of
                       (vars, None) \<Rightarrow> (r', vars, Some Io_EOF) | (vars, e) \<Rightarrow> (r', vars, e))
           | None \<Rightarrow>
               if TrimSpace line = [] then matchPattern r' pattern vars
               else (case match_line line pattern vars of (vars, e) \<Rightarrow> (r', vars, e))))"
  by pat_completeness auto
termination
  by (relation "measure (\<lambda>(r, _, _). length (rd_text r))") (auto dest: ReadString_shorter [OF sym])

declare matchPattern.simps [simp del]

section \<open>Scripts and commands\<close>

text \<open>\<open>variableRx.ReplaceAllStringFunc\<close> with the error that is left at the end, the one of the
  last unknown name.\<close>

definition script_references :: "string \<Rightarrow> token list" where
  "script_references script = references ''{{'' ''}}'' script"

fun substitute :: "vars \<Rightarrow> token list \<Rightarrow> string \<times> string option" where
  "substitute vars [] = ([], None)"
| "substitute vars (Text c # ts) = (case substitute vars ts of (s, e) \<Rightarrow> (c # s, e))"
| "substitute vars (Ref name # ts) =
     (case substitute vars ts of (s, e) \<Rightarrow>
        (case vars name of
           Some value \<Rightarrow> (value @ s, e)
         | None \<Rightarrow> (s, if e = None then Some name else e)))"

definition executeScript :: "'k host \<Rightarrow> string \<Rightarrow> vars \<Rightarrow> 'k \<Rightarrow> go_error option \<times> 'k" where
  "executeScript h script vars k =
     (let script = TrimSpace script
      in case substitute vars (script_references script) of
           (_, Some name) \<Rightarrow>
             (Some (GoError (''unknown variable \"'' @ name @ ''\" in shell script input: '' @ script)), k)
         | (compiledScript, None) \<Rightarrow>
             (case sys_exec h [''/bin/bash'', ''-c'', compiledScript] [] k of
                (r, k) \<Rightarrow> (map_option GoError (exec_err r), k)))"

definition filterEmptyCommands :: "string list \<Rightarrow> string list" where
  "filterEmptyCommands commands = filter (\<lambda>str. str \<noteq> []) (map TrimSpace commands)"

text \<open>The loop of \<open>matchCommands\<close> and the check behind it. The result is the text of the error.\<close>

fun match_commands ::
    "'k host \<Rightarrow> reader \<Rightarrow> vars \<Rightarrow> string list \<Rightarrow> 'k \<Rightarrow> string option \<times> 'k" where
  "match_commands h r vars [] k = (None, k)"
| "match_commands h r vars (command # commands) k =
     (if HasPrefix command ''>'' then
        (case matchPattern r (drop 1 command) vars of
           (r, vars, None) \<Rightarrow> match_commands h r vars commands k
         | (r, vars, Some Io_EOF) \<Rightarrow>
             (case commands of
                [] \<Rightarrow> (None, k)
              | c # _ \<Rightarrow> (Some (''unexpected EOF while executing command: '' @ c), k))
         | (r, vars, Some (GoError e)) \<Rightarrow> (Some e, k))
      else if HasPrefix command ''$'' then
        (case executeScript h (drop 1 command) vars k of
           (None, k) \<Rightarrow> match_commands h r vars commands k
         | (Some Io_EOF, k) \<Rightarrow> (Some ''EOF'', k)
         | (Some (GoError e), k) \<Rightarrow> (Some e, k))
      else (Some (''malformed command (neither a pattern nor a script): '' @ command), k))"

definition matchCommands :: "'k host \<Rightarrow> reader \<Rightarrow> string list \<Rightarrow> 'k \<Rightarrow> string option \<times> 'k" where
  "matchCommands h input commands k = match_commands h input Map.empty commands k"

text \<open>\<open>main\<close>: the exit status, what it writes to the standard error, and the machine. The
  handling of the argument \<open>--version\<close> (package bininfo) is a parameter, which gives the
  exit status if it ends the process.\<close>

definition logexpect_main ::
    "'k host \<Rightarrow> (string list \<Rightarrow> nat option) \<Rightarrow> string list \<Rightarrow> reader \<Rightarrow> 'k \<Rightarrow> nat \<times> string \<times> 'k" where
  "logexpect_main h HandleVersionArgument args stdin k =
     (case HandleVersionArgument args of
        Some status \<Rightarrow> (status, [], k)
      | None \<Rightarrow>
          if length args \<noteq> 2 then
            (1, ''usage: '' @ (case args of [] \<Rightarrow> [] | a # _ \<Rightarrow> a) @ '' <command-file>'', k)
          else
            (case sys_readfile h (args ! 1) k of
               (Inl err, k) \<Rightarrow> (1, error_text err @ ''\<newline>'', k)
             | (Inr commandBytes, k) \<Rightarrow>
                 (case matchCommands h stdin (filterEmptyCommands (Split CHR ''\<newline>'' commandBytes)) k of
                    (Some err, k) \<Rightarrow> (1, err @ ''\<newline>'', k)
                  | (None, k) \<Rightarrow> (0, [], k))))"

section \<open>Quoting does not hide references\<close>

lemma word_not_meta: "word_char c \<Longrightarrow> \<not> meta c"
  by (auto simp: meta_def word_char_def letter_or_digit_def lower_letter_def char_between_def)

lemma meta_backslash [simp]: "meta CHR 0x5C" "meta CHR ''{''" "meta CHR ''}''" "meta CHR ''(''"
  by (simp_all add: meta_def)

lemma QuoteMeta_simps [simp]:
  "QuoteMeta [] = []" "QuoteMeta (c # s) = quote_char c @ QuoteMeta s" "QuoteMeta (s @ t) = QuoteMeta s @ QuoteMeta t"
  by (simp_all add: QuoteMeta_def)

lemma takeWhile_QuoteMeta: "takeWhile word_char (QuoteMeta s) = takeWhile word_char s"
proof (induction s)
  case (Cons c s)
  then show ?case using word_not_meta [of c] word_not_meta [of "CHR 0x5C"] by (auto simp: quote_char_def)
qed simp

lemma dropWhile_QuoteMeta: "dropWhile word_char (QuoteMeta s) = QuoteMeta (dropWhile word_char s)"
proof (induction s)
  case (Cons c s)
  then show ?case using word_not_meta [of c] word_not_meta [of "CHR 0x5C"] by (auto simp: quote_char_def)
qed simp

lemma QuoteMeta_escaped:
  assumes "meta x"
  shows "QuoteMeta s = CHR 0x5C # x # r \<longleftrightarrow> (\<exists>t. s = x # t \<and> r = QuoteMeta t)"
  using assms by (cases s) (auto simp: quote_char_def)

lemma HasPrefix_QuoteMeta:
  assumes "meta x" and "meta y"
  shows "HasPrefix (QuoteMeta s) [CHR 0x5C, x, CHR 0x5C, y] \<longleftrightarrow> HasPrefix s [x, y]"
  using assms by (cases s; cases "tl s") (auto simp: HasPrefix_def quote_char_def split: if_splits)

lemma var_at_behind:
  "var_at open_br close_br (open_br @ t) =
     (if 2 \<le> length (takeWhile word_char t) \<and> letter (hd (takeWhile word_char t)) \<and>
         HasPrefix (dropWhile word_char t) close_br
      then Some (takeWhile word_char t, drop (length close_br) (dropWhile word_char t)) else None)"
  by (simp add: var_at_def Let_def dropWhile_eq_drop)

lemma var_at_quoted:
  "var_at [CHR 0x5C, CHR ''{'', CHR 0x5C, CHR ''{''] [CHR 0x5C, CHR ''}'', CHR 0x5C, CHR ''}''] (QuoteMeta s) =
   map_option (apsnd QuoteMeta) (var_at ''{{'' ''}}'' s)"
proof (cases "HasPrefix s ''{{''")
  case True
  then obtain t where s: "s = ''{{'' @ t" by (auto simp: HasPrefix_iff)
  have q: "QuoteMeta s = [CHR 0x5C, CHR ''{'', CHR 0x5C, CHR ''{''] @ QuoteMeta t"
    by (simp add: s quote_char_def)
  let ?rest = "dropWhile word_char t"
  have "HasPrefix (QuoteMeta ?rest) [CHR 0x5C, CHR ''}'', CHR 0x5C, CHR ''}''] = HasPrefix ?rest ''}}''"
    by (rule HasPrefix_QuoteMeta) simp_all
  moreover have "drop 4 (QuoteMeta ?rest) = QuoteMeta (drop 2 ?rest)" if "HasPrefix ?rest ''}}''"
    using that by (auto simp: HasPrefix_iff quote_char_def)
  ultimately show ?thesis
    unfolding q unfolding s var_at_behind takeWhile_QuoteMeta dropWhile_QuoteMeta by (simp add: eval_nat_numeral)
next
  case False
  then have "\<not> HasPrefix (QuoteMeta s) [CHR 0x5C, CHR ''{'', CHR 0x5C, CHR ''{'']"
    by (simp add: HasPrefix_QuoteMeta)
  with False show ?thesis by (simp add: var_at_def)
qed

fun quote_token :: "token \<Rightarrow> token list" where
  "quote_token (Text c) = map Text (quote_char c)"
| "quote_token (Ref name) = [Ref name]"

lemma no_var_behind_backslash:
  "meta c \<Longrightarrow> var_at [CHR 0x5C, CHR ''{'', CHR 0x5C, CHR ''{''] b (c # QuoteMeta s) = None"
  by (cases s) (auto simp: var_at_def HasPrefix_def quote_char_def)

lemma quoted_references_eq: "quoted_references p = concat (map quote_token (script_references p))"
proof -
  have "references [CHR 0x5C, CHR ''{'', CHR 0x5C, CHR ''{''] [CHR 0x5C, CHR ''}'', CHR 0x5C, CHR ''}''] (QuoteMeta s) =
      concat (map quote_token (references ''{{'' ''}}'' s))" for s
  proof (induction s rule: length_induct)
    case (1 s)
    let ?Q = "references [CHR 0x5C, CHR ''{'', CHR 0x5C, CHR ''{''] [CHR 0x5C, CHR ''}'', CHR 0x5C, CHR ''}'']"
    show ?case
    proof (cases s)
      case (Cons c t)
      have v: "var_at [CHR 0x5C, CHR ''{'', CHR 0x5C, CHR ''{''] [CHR 0x5C, CHR ''}'', CHR 0x5C, CHR ''}''] (quote_char c @ QuoteMeta t) =
         map_option (apsnd QuoteMeta) (var_at ''{{'' ''}}'' (c # t))"
        using var_at_quoted [of "c # t"] by simp
      show ?thesis
      proof (cases "var_at ''{{'' ''}}'' (c # t)")
        case None
        from Cons 1 have IH: "?Q (QuoteMeta t) = concat (map quote_token (references ''{{'' ''}}'' t))" by simp
        show ?thesis
        proof (cases "meta c")
          case True
          then have q: "quote_char c = [CHR 0x5C, c]" by (simp add: quote_char_def)
          have "?Q (c # QuoteMeta t) = Text c # ?Q (QuoteMeta t)"
            using no_var_behind_backslash [OF True] by simp
          with v None IH show ?thesis unfolding Cons by (simp add: q)
        next
          case False
          then have q: "quote_char c = [c]" by (simp add: quote_char_def)
          with v None IH show ?thesis unfolding Cons by simp
        qed
      next
        case (Some x)
        obtain name rest where x: "x = (name, rest)" by fastforce
        with Some have "c # t = ''{{'' @ name @ ''}}'' @ rest"
          using var_at_Some [of "''{{''" "''}}''" "c # t"] by simp
        then have "length rest < length (c # t)" by simp
        with Cons 1 have IH: "?Q (QuoteMeta rest) = concat (map quote_token (references ''{{'' ''}}'' rest))" by blast
        obtain d q where q: "quote_char c @ QuoteMeta t = d # q" by (cases "quote_char c @ QuoteMeta t") (auto simp: quote_char_def split: if_splits)
        with v Some x IH show ?thesis unfolding Cons by simp
      qed
    qed simp
  qed
  then show ?thesis by (simp add: quoted_references_def script_references_def)
qed

section \<open>What the compiled expressions match\<close>

text \<open>The pieces for which a token stands.\<close>

definition pieces :: "vars \<Rightarrow> token \<Rightarrow> piece list" where
  "pieces vars t =
     (case t of
        Text c \<Rightarrow> [Lit c]
      | Ref name \<Rightarrow> (case vars name of Some v \<Rightarrow> map Lit v | None \<Rightarrow> [Hole]))"

lemma parse_quote_char [simp]: "parse_rx (quote_char c @ r) = Lit c # parse_rx r"
proof (cases "meta c")
  case False
  then have "c \<noteq> CHR 0x5C" "c \<noteq> CHR ''(''" by (auto simp: meta_def)
  with False show ?thesis by (simp add: quote_char_def HasPrefix_def)
qed (simp add: quote_char_def)

lemma parse_QuoteMeta [simp]: "parse_rx (QuoteMeta v @ r) = map Lit v @ parse_rx r"
  by (induction v) simp_all

lemma parse_hole: "parse_rx (''(.+)'' @ r) = Hole # parse_rx r"
  by (simp add: HasPrefix_def)

lemma parse_patternRxStr:
  "parse_rx (patternRxStr vars p) = concat (map (pieces vars) (script_references p))"
proof -
  have one: "parse_rx (concat (map (compile_token vars) (quote_token t)) @ r) = pieces vars t @ parse_rx r" for t r
  proof (cases t)
    case (Text c)
    have "concat (map (compile_token vars) (map Text s)) = s" for s
      by (induction s) (simp_all add: compile_token_def)
    with Text show ?thesis by (simp add: pieces_def)
  next
    case (Ref name)
    then show ?thesis
      using parse_hole [of r] by (auto simp: pieces_def compile_token_def split: option.splits)
  qed
  have "parse_rx (concat (map (compile_token vars) (concat (map quote_token ts)))) = concat (map (pieces vars) ts)" for ts
    by (induction ts) (simp_all add: one)
  then show ?thesis by (simp add: patternRxStr_def quoted_references_eq)
qed

lemma captures_eq: "captures vars p = concat (map (unknown vars) (script_references p))"
proof -
  have "concat (map (unknown vars) (quote_token t)) = unknown vars t" for t
    by (cases t) (auto simp: unknown_def)
  then have "concat (map (unknown vars) (concat (map quote_token ts))) = concat (map (unknown vars) ts)" for ts
    by (induction ts) simp_all
  then show ?thesis by (simp add: captures_def quoted_references_eq)
qed

fun fits :: "piece list \<Rightarrow> string list \<Rightarrow> string \<Rightarrow> bool" where
  "fits [] cs s \<longleftrightarrow> cs = [] \<and> s = []"
| "fits (Lit c # ps) cs s \<longleftrightarrow> (\<exists>t. s = c # t \<and> fits ps cs t)"
| "fits (Hole # ps) cs s \<longleftrightarrow>
     (\<exists>x cs' t. cs = x # cs' \<and> s = x @ t \<and> x \<noteq> [] \<and> CHR ''\<newline>'' \<notin> set x \<and> fits ps cs' t)"

lemma fits_literal: "fits (map Lit v @ ps) cs s \<longleftrightarrow> (\<exists>t. s = v @ t \<and> fits ps cs t)"
  by (induction v arbitrary: s) auto

lemma first_some_Some: "first_some xs = Some y \<Longrightarrow> Some y \<in> set xs"
  by (induction xs) (auto split: option.splits)

lemma first_some_None: "first_some xs = None \<longleftrightarrow> (\<forall>x \<in> set xs. x = None)"
  by (induction xs) (auto split: option.splits)

lemma submatch_fits: "FindStringSubmatch ps s = Some cs \<Longrightarrow> fits ps cs s"
proof (induction ps arbitrary: s cs)
  case (Cons p ps)
  show ?case
  proof (cases p)
    case (Lit c)
    with Cons show ?thesis by (auto split: list.splits if_splits)
  next
    case Hole
    let ?k = "length (takeWhile (\<lambda>c. c \<noteq> CHR ''\<newline>'') s)"
    from Hole Cons.prems have "Some cs \<in> (\<lambda>n. map_option (Cons (take n s)) (FindStringSubmatch ps (drop n s))) ` {1..<Suc ?k}"
      by (auto dest!: first_some_Some simp del: upt_Suc)
    then obtain n where n: "1 \<le> n" "n \<le> ?k"
      and "map_option (Cons (take n s)) (FindStringSubmatch ps (drop n s)) = Some cs" by force
    then obtain cs' where m: "FindStringSubmatch ps (drop n s) = Some cs'" "cs = take n s # cs'" by auto
    have "take n s = take n (takeWhile (\<lambda>c. c \<noteq> CHR ''\<newline>'') s)"
      using n(2) by (subst takeWhile_dropWhile_id [symmetric, of s "\<lambda>c. c \<noteq> CHR ''\<newline>''"]) (simp del: takeWhile_dropWhile_id)
    then have "CHR ''\<newline>'' \<notin> set (take n s)" by (metis in_set_takeD set_takeWhileD)
    moreover have "take n s \<noteq> []" using n by (cases s) auto
    ultimately have "\<exists>x cs'' t. cs = x # cs'' \<and> s = x @ t \<and> x \<noteq> [] \<and> CHR ''\<newline>'' \<notin> set x \<and> fits ps cs'' t"
      using m Cons.IH [OF m(1)] by (intro exI [of _ "take n s"] exI [of _ cs'] exI [of _ "drop n s"]) simp
    with Hole show ?thesis by simp
  qed
qed (simp split: if_splits)

lemma fits_submatch: "fits ps cs s \<Longrightarrow> FindStringSubmatch ps s \<noteq> None"
proof (induction ps arbitrary: s cs)
  case (Cons p ps)
  show ?case
  proof (cases p)
    case (Lit c)
    with Cons show ?thesis by fastforce
  next
    case Hole
    with Cons.prems obtain x cs' t where *: "s = x @ t" "x \<noteq> []" "CHR ''\<newline>'' \<notin> set x" "fits ps cs' t" by auto
    then have "length x \<le> length (takeWhile (\<lambda>c. c \<noteq> CHR ''\<newline>'') s)" by (subst *(1)) (subst takeWhile_append2, auto)
    moreover have "FindStringSubmatch ps (drop (length x) s) \<noteq> None" using * Cons.IH by simp
    moreover have "1 \<le> length x" using *(2) by (cases x) auto
    ultimately have "\<exists>n \<in> {1..<Suc (length (takeWhile (\<lambda>c. c \<noteq> CHR ''\<newline>'') s))}. FindStringSubmatch ps (drop n s) \<noteq> None"
      by (intro bexI [of _ "length x"]) auto
    with Hole show ?thesis by (auto simp: first_some_None simp del: upt_Suc)
  qed
qed simp

section \<open>What a match remembers\<close>

lemma remember_extends:
  "remember cs vars = (vars', True) \<Longrightarrow> vars \<subseteq>\<^sub>m vars' \<and> (\<forall>(name, x) \<in> set cs. vars' name = Some x)"
proof (induction cs vars rule: remember.induct)
  case (2 name x cs vars)
  show ?case
  proof (cases "vars name")
    case None
    with 2 have "vars(name \<mapsto> x) \<subseteq>\<^sub>m vars'" "\<forall>(name, x) \<in> set cs. vars' name = Some x"
      by (simp_all del: fun_upd_apply)
    with None show ?thesis by (auto simp: map_le_def split: if_splits) (metis domIff fun_upd_other option.distinct(1))
  next
    case (Some v)
    with 2 have "v = x" "vars \<subseteq>\<^sub>m vars'" "\<forall>(name, x) \<in> set cs. vars' name = Some x"
      by (auto split: if_splits)
    with Some show ?thesis by (auto simp: map_le_def dom_def)
  qed
qed (simp add: map_le_def)

lemma remember_new:
  "distinct (map fst cs) \<Longrightarrow> \<forall>name \<in> set (map fst cs). vars name = None \<Longrightarrow> snd (remember cs vars)"
proof (induction cs vars rule: remember.induct)
  case (2 name x cs vars)
  then have "\<forall>n \<in> set (map fst cs). (vars(name \<mapsto> x)) n = None" by auto
  with 2 show ?case by (cases "vars name") (auto simp del: fun_upd_apply)
qed simp

lemma substitute_Ref:
  "substitute vars (Ref name # ts) = (s, None) \<longleftrightarrow>
     (\<exists>v u. vars name = Some v \<and> substitute vars ts = (u, None) \<and> s = v @ u)"
  by (auto split: prod.splits option.splits if_splits)

lemma substitute_Text:
  "substitute vars (Text c # ts) = (s, None) \<longleftrightarrow> (\<exists>u. substitute vars ts = (u, None) \<and> s = c # u)"
  by (auto split: prod.splits)

lemma substitute_grown:
  assumes "vars \<subseteq>\<^sub>m vars'"
  shows "substitute vars ts = (s, None) \<Longrightarrow> substitute vars' ts = (s, None)"
proof (induction ts arbitrary: s)
  case (Cons t ts)
  show ?case
  proof (cases t)
    case (Ref name)
    with Cons.prems obtain v u where *: "vars name = Some v" "substitute vars ts = (u, None)" "s = v @ u"
      unfolding Ref substitute_Ref by blast
    then have "vars' name = Some v" using assms by (metis domI map_le_def)
    with * Cons.IH show ?thesis unfolding Ref substitute_Ref by blast
  next
    case (Text c)
    with Cons show ?thesis unfolding Text substitute_Text by blast
  qed
qed simp

lemma token_simps [simp]:
  "pieces vars (Text c) = [Lit c]" "unknown vars (Text c) = []"
  "vars name = Some v \<Longrightarrow> pieces vars (Ref name) = map Lit v"
  "vars name = Some v \<Longrightarrow> unknown vars (Ref name) = []"
  "vars name = None \<Longrightarrow> pieces vars (Ref name) = [Hole]"
  "vars name = None \<Longrightarrow> unknown vars (Ref name) = [name]"
  by (simp_all add: pieces_def unknown_def)

lemma fits_substitute:
  assumes "vars \<subseteq>\<^sub>m vars'"
  shows "fits (concat (map (pieces vars) ts)) cs s \<Longrightarrow>
    \<forall>(name, x) \<in> set (zip (concat (map (unknown vars) ts)) cs). vars' name = Some x \<Longrightarrow>
    substitute vars' ts = (s, None)"
proof (induction ts arbitrary: cs s)
  case (Cons t ts)
  show ?case
  proof (cases t)
    case (Text c)
    with Cons show ?thesis by (auto simp: pieces_def unknown_def)
  next
    case (Ref name)
    show ?thesis
    proof (cases "vars name")
      case None
      with Ref Cons show ?thesis by (auto simp: pieces_def unknown_def)
    next
      case (Some v)
      then have "vars' name = Some v" using assms by (metis domI map_le_def)
      with Some Ref Cons show ?thesis by (auto simp: pieces_def unknown_def fits_literal)
    qed
  qed
qed simp

lemma substitute_fits:
  assumes "vars \<subseteq>\<^sub>m vars'"
  shows "substitute vars' ts = (s, None) \<Longrightarrow> CHR ''\<newline>'' \<notin> set s \<Longrightarrow>
    \<forall>name \<in> set (concat (map (unknown vars) ts)). vars' name \<noteq> Some [] \<Longrightarrow>
    fits (concat (map (pieces vars) ts)) (map (\<lambda>name. the (vars' name)) (concat (map (unknown vars) ts))) s"
proof (induction ts arbitrary: s)
  case (Cons t ts)
  show ?case
  proof (cases t)
    case (Text c)
    with Cons.prems obtain u where "substitute vars' ts = (u, None)" "s = c # u"
      unfolding Text substitute_Text by blast
    with Text Cons show ?thesis by auto
  next
    case (Ref name)
    with Cons.prems obtain v u where *: "vars' name = Some v" "substitute vars' ts = (u, None)" "s = v @ u"
      unfolding Ref substitute_Ref by blast
    with Cons have IH: "fits (concat (map (pieces vars) ts)) (map (\<lambda>name. the (vars' name)) (concat (map (unknown vars) ts))) u"
      by auto
    show ?thesis
    proof (cases "vars name")
      case None
      with Ref * IH Cons.prems show ?thesis by auto
    next
      case (Some w)
      then have "w = v" using assms *(1) by (metis domI map_le_def option.inject)
      with Some Ref * IH show ?thesis by (auto simp: fits_literal)
    qed
  qed
qed simp

lemma squeeze_no_newline: "CHR ''\<newline>'' \<notin> set (squeeze s)"
proof (induction s rule: squeeze.induct)
  case (2 c s)
  then show ?case by (auto simp: re_space_def)
qed simp

lemma strip_shape_suffix: "strip_shape ps s = Some r \<Longrightarrow> set r \<subseteq> set s"
  by (induction ps s rule: strip_shape.induct)
     (auto split: list.splits if_splits dest: set_dropWhileD)

lemma strip_timestamp_no_newline: "CHR ''\<newline>'' \<notin> set s \<Longrightarrow> CHR ''\<newline>'' \<notin> set (strip_timestamp s)"
  by (auto simp: strip_timestamp_def split: option.splits dest: strip_shape_suffix)

text \<open>What is compared of a line, and of a pattern.\<close>

definition line_text :: "string \<Rightarrow> string" where
  "line_text line = strip_timestamp (squeeze (TrimSpace line))"

definition template :: "string \<Rightarrow> token list" where
  "template pattern = script_references (squeeze (TrimSpace pattern))"

lemma match_line_eq:
  "match_line line pattern vars =
     (let rx = patternRxStr vars (squeeze (TrimSpace pattern));
          bad = Some (mismatch (squeeze (TrimSpace pattern)) rx (line_text line))
      in case FindStringSubmatch (concat (map (pieces vars) (template pattern))) (line_text line) of
           None \<Rightarrow> (vars, bad)
         | Some groups \<Rightarrow>
             (case remember (zip (concat (map (unknown vars) (template pattern))) groups) vars of
                (vars, ok) \<Rightarrow> (vars, if ok then None else bad)))"
  unfolding match_line_def Let_def parse_patternRxStr captures_eq line_text_def template_def by (rule refl)

lemma match_line_sound:
  assumes "match_line line pattern vars = (vars', None)"
  shows "vars \<subseteq>\<^sub>m vars'" and "substitute vars' (template pattern) = (line_text line, None)"
proof -
  from assms obtain groups where
    m: "FindStringSubmatch (concat (map (pieces vars) (template pattern))) (line_text line) = Some groups"
    and r: "remember (zip (concat (map (unknown vars) (template pattern))) groups) vars = (vars', True)"
    by (auto simp: match_line_eq Let_def split: option.splits prod.splits if_splits)
  from remember_extends [OF r] show le: "vars \<subseteq>\<^sub>m vars'" by simp
  show "substitute vars' (template pattern) = (line_text line, None)"
    using remember_extends [OF r] by (intro fits_substitute [OF le submatch_fits [OF m]]) simp
qed

lemma fits_nonempty: "fits ps cs s \<Longrightarrow> [] \<notin> set cs"
  by (induction ps cs s rule: fits.induct) auto

lemma remember_nonempty:
  "\<forall>(name, x) \<in> set cs. x \<noteq> [] \<Longrightarrow> vars name = None \<or> vars name \<noteq> Some [] \<Longrightarrow>
   fst (remember cs vars) name \<noteq> Some []"
  by (induction cs vars rule: remember.induct) (auto split: option.splits)

lemma match_line_new_nonempty:
  assumes "match_line line pattern vars = (vars', None)"
  shows "\<forall>name. vars name = None \<longrightarrow> vars' name \<noteq> Some []"
proof -
  from assms obtain groups where
    m: "FindStringSubmatch (concat (map (pieces vars) (template pattern))) (line_text line) = Some groups"
    and r: "remember (zip (concat (map (unknown vars) (template pattern))) groups) vars = (vars', True)"
    by (auto simp: match_line_eq Let_def split: option.splits prod.splits if_splits)
  have "\<forall>(name, x) \<in> set (zip (concat (map (unknown vars) (template pattern))) groups). x \<noteq> []"
    using fits_nonempty [OF submatch_fits [OF m]] by (auto dest: set_zip_rightD)
  with remember_nonempty r show ?thesis by (metis fst_conv)
qed

lemma distinct_fst_zip: "distinct xs \<Longrightarrow> distinct (map fst (zip xs ys))"
  by (simp add: map_fst_zip_take)

lemma match_line_complete:
  assumes le: "vars \<subseteq>\<^sub>m vars'" and s: "substitute vars' (template pattern) = (line_text line, None)"
    and "distinct (concat (map (unknown vars) (template pattern)))"
    and ne: "\<forall>name. vars name = None \<longrightarrow> vars' name \<noteq> Some []"
  shows "snd (match_line line pattern vars) = None"
proof -
  let ?names = "concat (map (unknown vars) (template pattern))"
  have new: "vars name = None" if "name \<in> set ?names" for name
    using that by (auto simp: unknown_def split: token.splits if_splits)
  have "CHR ''\<newline>'' \<notin> set (line_text line)"
    by (simp add: line_text_def strip_timestamp_no_newline squeeze_no_newline)
  moreover have "\<forall>name \<in> set ?names. vars' name \<noteq> Some []" using new ne by blast
  ultimately have "FindStringSubmatch (concat (map (pieces vars) (template pattern))) (line_text line) \<noteq> None"
    by (rule fits_submatch [OF substitute_fits [OF le s]])
  then obtain groups where
    m: "FindStringSubmatch (concat (map (pieces vars) (template pattern))) (line_text line) = Some groups" by blast
  have "snd (remember (zip ?names groups) vars)"
    using assms(3) new by (intro remember_new distinct_fst_zip) (auto dest: set_zip_leftD)
  with m show ?thesis by (cases "remember (zip ?names groups) vars") (simp add: match_line_eq Let_def)
qed

lemma match_line_not_EOF [simp]: "match_line line pattern vars \<noteq> (vars', Some Io_EOF)"
  by (auto simp: match_line_eq Let_def mismatch_def split: option.splits prod.splits)

section \<open>The lines of a log\<close>

definition log_lines :: "reader \<Rightarrow> string list" where
  "log_lines r = filter (\<lambda>l. TrimSpace l \<noteq> []) (Split CHR ''\<newline>'' (rd_text r))"

lemma TrimSpace_end_of_line: "TrimSpace (l @ ''\<newline>'') = TrimSpace l"
proof (cases "\<forall>c \<in> set l. is_space c")
  case True
  moreover have "is_space CHR ''\<newline>''" by (simp add: is_space_def)
  ultimately have "dropWhile is_space (l @ ''\<newline>'') = []" "dropWhile is_space l = []"
    unfolding dropWhile_eq_Nil_conv by auto
  then show ?thesis unfolding TrimSpace_def by (simp only:)
next
  case False
  then have "dropWhile is_space (l @ ''\<newline>'') = dropWhile is_space l @ ''\<newline>''"
    by (auto intro: dropWhile_append1)
  then show ?thesis by (simp add: TrimSpace_def is_space_def)
qed

lemma match_line_end: "match_line (l @ ''\<newline>'') pattern vars = match_line l pattern vars"
  by (simp add: match_line_def TrimSpace_end_of_line)

lemma ReadString_line:
  assumes "ReadString r = (line, None, r')"
  shows "\<exists>l. line = l @ ''\<newline>'' \<and> rd_err r' = rd_err r \<and>
    log_lines r = (if TrimSpace l = [] then [] else [l]) @ log_lines r'"
proof -
  let ?l = "takeWhile (\<lambda>c. c \<noteq> CHR ''\<newline>'') (rd_text r)"
  from assms obtain c rest where rest: "drop (length ?l) (rd_text r) = c # rest"
    and *: "line = ?l @ [c]" "r' = r\<lparr>rd_text := rest\<rparr>"
    by (auto simp: ReadString_def Let_def split: list.splits)
  have d: "dropWhile (\<lambda>c. c \<noteq> CHR ''\<newline>'') (rd_text r) = c # rest"
    using rest by (simp add: dropWhile_eq_drop)
  then have c: "c = CHR ''\<newline>''" by (metis (mono_tags, lifting) hd_dropWhile list.distinct(1) list.sel(1))
  have "rd_text r = ?l @ CHR ''\<newline>'' # rest" using d c by (metis takeWhile_dropWhile_id)
  moreover have "CHR ''\<newline>'' \<notin> set ?l" by (auto dest: set_takeWhileD)
  ultimately have "Split CHR ''\<newline>'' (rd_text r) = ?l # Split CHR ''\<newline>'' rest" by (metis Split_append)
  with * c show ?thesis by (auto simp: log_lines_def)
qed

lemma ReadString_end:
  assumes "ReadString r = (line, Some e, r')"
  shows "rd_err r = e \<and> rd_text r' = [] \<and> log_lines r = (if TrimSpace line = [] then [] else [line])"
proof -
  let ?l = "takeWhile (\<lambda>c. c \<noteq> CHR ''\<newline>'') (rd_text r)"
  from assms have *: "drop (length ?l) (rd_text r) = []" "line = ?l" "e = rd_err r" "r' = r\<lparr>rd_text := []\<rparr>"
    by (auto simp: ReadString_def Let_def split: list.splits)
  then have "rd_text r = ?l" by (metis append_take_drop_id append_Nil2 takeWhile_eq_take)
  with *(2) have r: "rd_text r = line" by simp
  moreover have "CHR ''\<newline>'' \<notin> set line" unfolding *(2) by (auto dest: set_takeWhileD)
  ultimately show ?thesis using * by (simp add: log_lines_def)
qed

lemma log_lines_end: "rd_text r = [] \<Longrightarrow> log_lines r = []"
  by (simp add: log_lines_def TrimSpace_def)

text \<open>A match that succeeds takes the next line, and only the end of the input can take none.\<close>

lemma matchPattern_taken:
  "matchPattern r pattern vars = (r', vars', res) \<Longrightarrow> res = None \<or> res = Some Io_EOF \<Longrightarrow>
   (\<exists>l. log_lines r = l # log_lines r' \<and> match_line l pattern vars = (vars', None) \<and>
      (res = None \<or> log_lines r' = [])) \<or>
   (log_lines r = [] \<and> log_lines r' = [] \<and> res = Some Io_EOF \<and> vars' = vars)"
proof (induction r pattern vars rule: matchPattern.induct)
  case (1 r pattern vars)
  obtain line err r1 where R: "ReadString r = (line, err, r1)" by (metis prod_cases3)
  note simps = matchPattern.simps [of r pattern vars]
  show ?case
  proof (cases err)
    case (Some e)
    with R have E: "rd_text r1 = []" "log_lines r = (if TrimSpace line = [] then [] else [line])"
      using ReadString_end [of r line e r1] by simp_all
    show ?thesis
    proof (cases e)
      case Io_EOF
      with Some R E 1(2,3) log_lines_end [of r1] show ?thesis
        by (auto simp: simps split: if_splits prod.splits option.splits)
    next
      case (GoError m)
      with Some R 1(2,3) show ?thesis by (auto simp: simps)
    qed
  next
    case None
    with R obtain l where L: "line = l @ ''\<newline>''" "log_lines r = (if TrimSpace l = [] then [] else [l]) @ log_lines r1"
      using ReadString_line [of r line r1] by auto
    show ?thesis
    proof (cases "TrimSpace line = []")
      case True
      then have "log_lines r = log_lines r1" using L by (simp add: TrimSpace_end_of_line)
      moreover have "matchPattern r1 pattern vars = (r', vars', res)"
        using 1(2) None R True by (simp add: simps)
      moreover note 1(1) [OF R [symmetric] refl None True]
      ultimately show ?thesis using 1(3) R None by auto
    next
      case False
      have "match_line line pattern vars = (vars', None)" "r1 = r'" "res = None"
        using 1(2,3) None R False
        by (auto simp: simps match_line_eq Let_def mismatch_def split: prod.splits option.splits if_splits)
      with False L show ?thesis by (auto simp: TrimSpace_end_of_line match_line_end)
    qed
  qed
qed

lemma matchPattern_no_line:
  "log_lines r = [] \<Longrightarrow> rd_err r = Io_EOF \<Longrightarrow> \<exists>r'. matchPattern r pattern vars = (r', vars, Some Io_EOF)"
proof (induction r pattern vars rule: matchPattern.induct)
  case (1 r pattern vars)
  obtain line err r1 where R: "ReadString r = (line, err, r1)" by (metis prod_cases3)
  note simps = matchPattern.simps [of r pattern vars]
  show ?case
  proof (cases err)
    case (Some e)
    with R 1(2,3) show ?thesis
      using ReadString_end [of r line e r1] by (auto simp: simps split: if_splits)
  next
    case None
    with R obtain l where L: "line = l @ ''\<newline>''" "rd_err r1 = rd_err r"
       "log_lines r = (if TrimSpace l = [] then [] else [l]) @ log_lines r1"
      using ReadString_line [of r line r1] by auto
    with 1(2) have "TrimSpace line = []" "log_lines r1 = []"
      by (auto simp: TrimSpace_end_of_line split: if_splits)
    with 1(1) [OF R [symmetric] refl None] None R L(2) 1(3) show ?thesis by (simp add: simps)
  qed
qed

text \<open>A log whose last line that is not blank has a newline: no match of it meets the end of the input.\<close>

definition terminated :: "reader \<Rightarrow> bool" where
  "terminated r \<longleftrightarrow> TrimSpace (last (Split CHR ''\<newline>'' (rd_text r))) = []"

lemma terminated_rest:
  assumes "terminated r" and "ReadString r = (line, None, r')"
  shows "terminated r'"
proof -
  let ?l = "takeWhile (\<lambda>c. c \<noteq> CHR ''\<newline>'') (rd_text r)"
  from assms(2) obtain c rest where rest: "drop (length ?l) (rd_text r) = c # rest" and r': "r' = r\<lparr>rd_text := rest\<rparr>"
    by (auto simp: ReadString_def Let_def split: list.splits)
  have d: "dropWhile (\<lambda>c. c \<noteq> CHR ''\<newline>'') (rd_text r) = c # rest" using rest by (simp add: dropWhile_eq_drop)
  then have c: "c = CHR ''\<newline>''" by (metis (mono_tags, lifting) hd_dropWhile list.distinct(1) list.sel(1))
  have "rd_text r = ?l @ CHR ''\<newline>'' # rest" using d c by (metis takeWhile_dropWhile_id)
  moreover have "CHR ''\<newline>'' \<notin> set ?l" by (auto dest: set_takeWhileD)
  ultimately have "Split CHR ''\<newline>'' (rd_text r) = ?l # Split CHR ''\<newline>'' rest" by (metis Split_append)
  with assms(1) show ?thesis by (simp add: terminated_def r')
qed

lemma terminated_end: "terminated r \<Longrightarrow> ReadString r = (line, Some e, r') \<Longrightarrow> TrimSpace line = [] \<and> terminated r'"
proof -
  assume t: "terminated r" and R: "ReadString r = (line, Some e, r')"
  let ?l = "takeWhile (\<lambda>c. c \<noteq> CHR ''\<newline>'') (rd_text r)"
  from R have *: "drop (length ?l) (rd_text r) = []" "line = ?l" "r' = r\<lparr>rd_text := []\<rparr>"
    by (auto simp: ReadString_def Let_def split: list.splits)
  then have "rd_text r = line" by (metis append_take_drop_id append_Nil2 takeWhile_eq_take)
  moreover have "CHR ''\<newline>'' \<notin> set line" unfolding *(2) by (auto dest: set_takeWhileD)
  ultimately show ?thesis using t *(3) by (simp add: terminated_def TrimSpace_def)
qed

lemma matchPattern_terminated:
  "matchPattern r pattern vars = (r', vars', res) \<Longrightarrow> terminated r \<Longrightarrow>
   terminated r' \<and> rd_err r' = rd_err r \<and> (log_lines r \<noteq> [] \<longrightarrow> res \<noteq> Some Io_EOF)"
proof (induction r pattern vars rule: matchPattern.induct)
  case (1 r pattern vars)
  obtain line err r1 where R: "ReadString r = (line, err, r1)" by (metis prod_cases3)
  note simps = matchPattern.simps [of r pattern vars]
  show ?case
  proof (cases err)
    case (Some e)
    then have b: "TrimSpace line = []" "terminated r1" using terminated_end [OF 1(3)] R by simp_all
    moreover have "log_lines r = []" using ReadString_end [of r line e r1] R Some b by simp
    moreover have "rd_err r1 = rd_err r" using R by (auto simp: ReadString_def Let_def split: list.splits)
    ultimately show ?thesis using 1(2) R Some by (auto simp: simps split: go_error.splits)
  next
    case None
    with R obtain l where L: "line = l @ ''\<newline>''" "rd_err r1 = rd_err r"
      "log_lines r = (if TrimSpace l = [] then [] else [l]) @ log_lines r1"
      using ReadString_line [of r line r1] by auto
    have t: "terminated r1" using terminated_rest [OF 1(3)] R None by simp
    show ?thesis
    proof (cases "TrimSpace line = []")
      case True
      then have "matchPattern r1 pattern vars = (r', vars', res)" "log_lines r = log_lines r1"
        using 1(2) R None L by (simp_all add: simps TrimSpace_end_of_line)
      with 1(1) [OF R [symmetric] refl None True] t L(2) show ?thesis by simp
    next
      case False
      with 1(2) R None t L(2) show ?thesis by (auto simp: simps split: prod.splits)
    qed
  qed
qed

section \<open>Properties\<close>

definition patterns :: "string list \<Rightarrow> string list" where
  "patterns commands = map (drop 1) (filter (\<lambda>c. HasPrefix c ''>'') commands)"

text \<open>With texts for the names that extend the remembered ones, the patterns read like the lines, as far
  as both go, and at most one pattern is left over.\<close>

definition in_order :: "(string \<rightharpoonup> string) \<Rightarrow> string list \<Rightarrow> string list \<Rightarrow> bool" where
  "in_order vars ps ls \<longleftrightarrow> (\<exists>vars'. vars \<subseteq>\<^sub>m vars' \<and> length ps \<le> Suc (length ls) \<and>
     (\<forall>i < min (length ps) (length ls).
        substitute vars' (template (ps ! i)) = (line_text (ls ! i), None)))"

lemma in_order_short: "length ps \<le> Suc (length ls) \<Longrightarrow> ps = [] \<or> ls = [] \<Longrightarrow> in_order vars ps ls"
  by (auto simp: in_order_def intro: map_le_refl)

lemma in_order_Cons:
  assumes "match_line l p vars = (vars1, None)" and "in_order vars1 ps ls"
  shows "in_order vars (p # ps) (l # ls)"
proof -
  note sound = match_line_sound [OF assms(1)]
  from assms(2) obtain vars' where v: "vars1 \<subseteq>\<^sub>m vars'" "length ps \<le> Suc (length ls)"
    "\<And>i. i < min (length ps) (length ls) \<Longrightarrow> substitute vars' (template (ps ! i)) = (line_text (ls ! i), None)"
    unfolding in_order_def by blast
  have "substitute vars' (template p) = (line_text l, None)" by (rule substitute_grown [OF v(1) sound(2)])
  moreover have "vars \<subseteq>\<^sub>m vars'" using sound(1) v(1) by (rule map_le_trans)
  ultimately show ?thesis
    unfolding in_order_def using v(2,3) by (intro exI [of _ vars']) (auto simp: nth_Cons split: nat.splits)
qed

lemma match_commands_in_order:
  "match_commands h r vars commands k = (None, k') \<Longrightarrow> in_order vars (patterns commands) (log_lines r)"
proof (induction h r vars commands k rule: match_commands.induct)
  case (1 h r vars k)
  show ?case by (rule in_order_short) (simp_all add: patterns_def)
next
  case (2 h r vars command commands k)
  show ?case
  proof (cases "HasPrefix command ''>''")
    case True
    then have p: "patterns (command # commands) = drop 1 command # patterns commands" by (simp add: patterns_def)
    obtain r1 vars1 res where m: "matchPattern r (drop 1 command) vars = (r1, vars1, res)" by (metis prod_cases3)
    have res: "res = None \<or> (res = Some Io_EOF \<and> commands = [])"
      using 2(3) True m by (auto split: option.splits go_error.splits list.splits)
    from matchPattern_taken [OF m] res consider
      (line) l where "log_lines r = l # log_lines r1" "match_line l (drop 1 command) vars = (vars1, None)"
         "res = None \<or> (log_lines r1 = [] \<and> commands = [])"
    | (none) "log_lines r = []" "commands = []" by blast
    then show ?thesis
    proof cases
      case line
      have "in_order vars1 (patterns commands) (log_lines r1)"
      proof (cases res)
        case None
        with 2(3) True m have "match_commands h r1 vars1 commands k = (None, k')" by simp
        with 2(1) [OF True m [symmetric] refl] None show ?thesis by simp
      next
        case (Some e)
        with line(3) show ?thesis by (intro in_order_short) (simp_all add: patterns_def)
      qed
      with line(2) show ?thesis unfolding p line(1) by (rule in_order_Cons)
    next
      case none
      then show ?thesis unfolding p by (intro in_order_short) (simp_all add: patterns_def)
    qed
  next
    case False
    then have p: "patterns (command # commands) = patterns commands" by (simp add: patterns_def)
    from 2(3) False have d: "HasPrefix command ''$''" by (simp split: if_splits)
    obtain e k1 where e: "executeScript h (drop 1 command) vars k = (e, k1)" by fastforce
    with 2(3) False d have "e = None" "match_commands h r vars commands k1 = (None, k')"
      by (auto split: option.splits go_error.splits)
    with 2(2) [OF False d e [symmetric]] show ?thesis unfolding p by simp
  qed
qed

text \<open>One more pattern, when the commands have used up the lines of the log.\<close>

lemma match_commands_append:
  "match_commands h r vars commands k = (None, k') \<Longrightarrow> terminated r \<Longrightarrow> rd_err r = Io_EOF \<Longrightarrow>
   length (patterns commands) = length (log_lines r) \<Longrightarrow>
   match_commands h r vars (commands @ [''>'' @ p]) k = (None, k')"
proof (induction h r vars commands k rule: match_commands.induct)
  case (1 h r vars k)
  then have "log_lines r = []" by (simp add: patterns_def)
  then obtain r' where "matchPattern r p vars = (r', vars, Some Io_EOF)" using matchPattern_no_line 1(3) by blast
  with 1(1) show ?case by (simp add: HasPrefix_def)
next
  case (2 h r vars command commands k)
  show ?case
  proof (cases "HasPrefix command ''>''")
    case True
    then have n: "length (log_lines r) = Suc (length (patterns commands))" using 2(6) by (simp add: patterns_def)
    obtain r1 vars1 res where m: "matchPattern r (drop 1 command) vars = (r1, vars1, res)" by (metis prod_cases3)
    have t: "terminated r1" "rd_err r1 = Io_EOF" "res \<noteq> Some Io_EOF"
      using matchPattern_terminated [OF m 2(4)] 2(5) n by auto
    with 2(3) True m have none: "res = None" and rest: "match_commands h r1 vars1 commands k = (None, k')"
      by (auto split: option.splits go_error.splits)
    from matchPattern_taken [OF m] none obtain l where "log_lines r = l # log_lines r1" by blast
    with n have "length (patterns commands) = length (log_lines r1)" by simp
    with 2(1) [OF True m [symmetric] refl] none rest t have
      "match_commands h r1 vars1 (commands @ [''>'' @ p]) k = (None, k')" by simp
    with True m none show ?thesis by simp
  next
    case False
    then have n: "length (patterns commands) = length (log_lines r)" using 2(6) by (simp add: patterns_def)
    from 2(3) False have d: "HasPrefix command ''$''" by (simp split: if_splits)
    obtain e k1 where e: "executeScript h (drop 1 command) vars k = (e, k1)" by fastforce
    with 2(3) False d have none: "e = None" and rest: "match_commands h r vars commands k1 = (None, k')"
      by (auto split: option.splits go_error.splits)
    from 2(2) [OF False d e [symmetric]] none rest 2(4,5) n have
      "match_commands h r vars (commands @ [''>'' @ p]) k1 = (None, k')" by simp
    with False d e none show ?thesis by simp
  qed
qed

text \<open>C35: A pattern matches a line exactly when the line is an instance of it. When no new name
  stands in the pattern twice, \<open>matchPattern\<close> accepts a line, with white space and a time
  stamp removed, if and only if there are texts for the names that extend the remembered
  ones, none of them empty, with which a script of the same words would read like the line.\<close>

theorem match_iff_instance:
  assumes "distinct (captures vars (squeeze (TrimSpace pattern)))"
  shows "snd (match_line line pattern vars) = None \<longleftrightarrow>
    (\<exists>vars'. vars \<subseteq>\<^sub>m vars' \<and> substitute vars' (template pattern) = (line_text line, None) \<and>
       (\<forall>name. vars name = None \<longrightarrow> vars' name \<noteq> Some []))"
proof
  assume "snd (match_line line pattern vars) = None"
  then obtain vars' where m: "match_line line pattern vars = (vars', None)" by (metis prod.collapse)
  have "\<forall>name. vars name = None \<longrightarrow> vars' name \<noteq> Some []" by (rule match_line_new_nonempty [OF m])
  with match_line_sound [OF m] show "\<exists>vars'. vars \<subseteq>\<^sub>m vars' \<and> substitute vars' (template pattern) = (line_text line, None) \<and>
     (\<forall>name. vars name = None \<longrightarrow> vars' name \<noteq> Some [])" by blast
next
  assume "\<exists>vars'. vars \<subseteq>\<^sub>m vars' \<and> substitute vars' (template pattern) = (line_text line, None) \<and>
     (\<forall>name. vars name = None \<longrightarrow> vars' name \<noteq> Some [])"
  with assms show "snd (match_line line pattern vars) = None"
    by (auto simp: captures_eq template_def intro: match_line_complete)
qed

theorem match_iff_instance_witness:
  "\<exists>vars'. substitute vars' (template '' INFO: mounted {{dev}} to {{path}}'') =
      (''INFO: mounted /dev/sda to /mnt/a'', None)"
proof -
  have "distinct (captures Map.empty (squeeze (TrimSpace '' INFO: mounted {{dev}} to {{path}}'')))" by code_simp
  moreover have "snd (match_line ''2016/11/23  13:23:44 INFO: mounted /dev/sda to /mnt/a''
      '' INFO: mounted {{dev}} to {{path}}'' Map.empty) = None" by code_simp
  moreover have "line_text ''2016/11/23  13:23:44 INFO: mounted /dev/sda to /mnt/a'' = ''INFO: mounted /dev/sda to /mnt/a''"
    by code_simp
  ultimately show ?thesis
    using match_iff_instance [where pattern = "'' INFO: mounted {{dev}} to {{path}}''" and vars = Map.empty
      and line = "''2016/11/23  13:23:44 INFO: mounted /dev/sda to /mnt/a''"] by auto
qed

text \<open>C36: The patterns match the lines of the log one after the other. When \<open>matchCommands\<close>
  succeeds, there are texts for the names with which the i-th pattern reads like the i-th line
  that is not blank, for all patterns but possibly the last, for which there may be no line.\<close>

theorem patterns_match_in_order:
  assumes "matchCommands h r commands k = (None, k')"
  shows "\<exists>vars'. length (patterns commands) \<le> Suc (length (log_lines r)) \<and>
     (\<forall>i < min (length (patterns commands)) (length (log_lines r)).
        substitute vars' (template (patterns commands ! i)) = (line_text (log_lines r ! i), None))"
  using match_commands_in_order [OF assms [unfolded matchCommands_def]] unfolding in_order_def by blast

theorem patterns_match_in_order_witness:
  "\<exists>vars'. substitute vars' (template '' {{ab}} is open'') = (''A is open'', None) \<and>
     substitute vars' (template '' {{ab}} is closed'') = (''A is closed'', None)"
proof -
  let ?r = "\<lparr>rd_text = ''A is open\<newline>\<newline>A  is closed\<newline>'', rd_err = Io_EOF\<rparr>"
  let ?cs = "[''> {{ab}} is open'', ''$ true {{ab}}'', ''> {{ab}} is closed'']"
  have "case matchCommands quiet_host ?r ?cs [] of (None, _) \<Rightarrow> True | _ \<Rightarrow> False" by code_simp
  then obtain k' where m: "matchCommands quiet_host ?r ?cs [] = (None, k')"
    by (auto split: prod.splits option.splits)
  have "patterns ?cs = ['' {{ab}} is open'', '' {{ab}} is closed'']" "log_lines ?r = [''A is open'', ''A  is closed'']"
    "line_text ''A is open'' = ''A is open''" "line_text ''A  is closed'' = ''A is closed''"
    by code_simp+
  with patterns_match_in_order [OF m] show ?thesis by (auto simp: less_Suc_eq all_conj_distrib)
qed

text \<open>C37: The last pattern is not compared with anything when the log has ended. Suppose that the
  program accepts a log with the commands \<open>cs\<close>, that they have as many patterns as the log has lines
  that are not blank, so that no line is left over (there may be none of either), and that the last
  of these lines ends with a newline. Then the program accepts the same log, and exits with status 0,
  also when \<open>cs\<close> is followed by one more pattern, whatever that pattern is: \<open>matchPattern\<close> returns the
  end of the file, and since no command is left behind the last one, this counts as success.\<close>

theorem last_pattern_unchecked:
  assumes "matchCommands h stdin cs k1 = (None, k')"
    and "length (patterns cs) = length (log_lines stdin)" and "terminated stdin" and "rd_err stdin = Io_EOF"
    and "HandleVersionArgument [prog, file] = None" and "sys_readfile h file k = (Inr commandBytes, k1)"
    and "filterEmptyCommands (Split CHR ''\<newline>'' commandBytes) = cs @ [''>'' @ pattern]"
  shows "logexpect_main h HandleVersionArgument [prog, file] stdin k = (0, [], k')"
proof -
  have "matchCommands h stdin (cs @ [''>'' @ pattern]) k1 = (None, k')"
    unfolding matchCommands_def
    by (rule match_commands_append [OF assms(1) [unfolded matchCommands_def] assms(3,4,2)])
  with assms(5-7) show ?thesis by (simp add: logexpect_main_def)
qed

theorem last_pattern_unchecked_witness:
  "\<exists>k'. logexpect_main (sample_host (\<lambda>_. silent) (\<lambda>_. Inl (NotExist []))
       (\<lambda>_. Inr ''> {{dev}} is open\<newline>$ true {{dev}}\<newline>> {{dev}} is mounted\<newline>> all drives converged\<newline>''))
     (\<lambda>_. None) [''logexpect'', ''expected'']
     \<lparr>rd_text = ''A is open\<newline>\<newline>A is mounted\<newline>'', rd_err = Io_EOF\<rparr> [] = (0, [], k')"
proof -
  let ?file = "''> {{dev}} is open\<newline>$ true {{dev}}\<newline>> {{dev}} is mounted\<newline>> all drives converged\<newline>''"
  let ?h = "sample_host (\<lambda>_. silent) (\<lambda>_. Inl (NotExist [])) (\<lambda>_. Inr ?file)"
  let ?r = "\<lparr>rd_text = ''A is open\<newline>\<newline>A is mounted\<newline>'', rd_err = Io_EOF\<rparr>"
  let ?cs = "[''> {{dev}} is open'', ''$ true {{dev}}'', ''> {{dev}} is mounted'']"
  have "case matchCommands ?h ?r ?cs [] of (None, _) \<Rightarrow> True | _ \<Rightarrow> False" by code_simp
  then obtain k' where m: "matchCommands ?h ?r ?cs [] = (None, k')"
    by (auto split: prod.splits option.splits)
  have "length (patterns ?cs) = length (log_lines ?r)" "terminated ?r"
    "filterEmptyCommands (Split CHR ''\<newline>'' ?file) = ?cs @ [''>'' @ '' all drives converged'']"
    by code_simp+
  moreover have "rd_err ?r = Io_EOF" "sys_readfile ?h ''expected'' [] = (Inr ?file, [])"
    by (simp_all add: sample_host_def)
  ultimately have "logexpect_main ?h (\<lambda>_. None) [''logexpect'', ''expected''] ?r [] = (0, [], k')"
    using last_pattern_unchecked [OF m, of "\<lambda>_. None"] by blast
  then show ?thesis by blast
qed

end
