(* ===== verification/Spec2Isabelle.thy ===== *)
theory Spec2Isabelle
  imports Sample_System Drive_Invariant Linux_Steady Failed_Drives Core_Termination Tool_Output Logexpect
begin

text \<open>
  A verification development for swift-drive-autopilot, the service that finds, formats,
  decrypts and mounts the drives of a Swift storage node.

  The program. \<open>main.go\<close> prepares some directories and starts four collector goroutines
  (\<open>collectors.go\<close>), which search for drives, watch the links that flag drives as broken, wake
  the converger up and follow the kernel log. They send batches of events over one channel to
  the converger (\<open>converger.go\<close>), the only owner of the list of drives. For each batch the
  converger reads the mounts and LUKS mappings of the machine again, handles the events and then
  moves every drive towards its desired state: package core (\<open>pkg/core\<close>) opens and formats and
  mounts the device of a drive, decides from the swift-ids on all drives where each of them
  belongs, and tears broken drives down. All this goes through the interface of package os
  (\<open>pkg/os/interface.go\<close>), which \<open>pkg/os/linux*.go\<close> implement with the tools of Linux.

  How the code is modelled. A function that touches the outside world is a function of type
  \<open>('w, 'a) io\<close> (theory \<open>Autopilot_Prelude\<close>): it takes the world and returns a value or the way in
  which the process ended (\<open>logg.Fatal\<close>, a panic or \<open>os.Exit\<close>), and the world afterwards. The world holds the
  rest of the machine (\<open>kern\<close>, of any type), the log, and the private state of the operating
  system layer. What the program asks of the kernel and of the tools it runs is the record
  \<open>host\<close> of theory \<open>Command\<close>, a parameter everywhere; nothing is assumed of it but in the
  hypotheses of the properties. A method that changes its receiver returns the changed value, a
  nil pointer is \<open>None\<close>, a Go map is a map or an association list, and where the code loops over a
  map, the order is an argument of which only is assumed that it permutes. Strings are byte
  strings.

  The theories and the code:
    \<^item> \<open>Autopilot_Prelude\<close>: the monad, its loops, and the calculi \<open>returns\<close>, \<open>keeps\<close>, \<open>safe\<close> with
      which the other theories prove that something returns and keeps an invariant;
      \<open>Go_Strings\<close>, \<open>Go_Filepath\<close>, \<open>Go_Json\<close>, \<open>Go_Regexp\<close>: what is used of the standard library.
    \<^item> \<open>Lsblk\<close> (\<open>pkg/parsers\<close>), \<open>Command\<close> (\<open>pkg/command\<close>), \<open>Util\<close> (\<open>pkg/util\<close>), \<open>Config\<close> (\<open>config.go\<close>).
    \<^item> \<open>Os_Interface\<close>: the interface as a record of operations. \<open>Os_Contract\<close>: the locales
      \<open>mount_contract\<close> and \<open>os_contract\<close>, the laws of these operations on an abstract table of
      mounts and of mappings, on which the proofs about package core rest.
    \<^item> \<open>Linux_Mount\<close>, \<open>Linux_Device\<close>, \<open>Linux_Luks\<close>, \<open>Linux\<close>, \<open>Linux_Drive\<close>, \<open>Linux_Kernellog\<close>:
      \<open>struct Linux\<close> (\<open>linux_mount.go\<close>, \<open>linux_device.go\<close> with \<open>linux_file.go\<close>, \<open>linux_luks.go\<close>,
      \<open>linux.go\<close>, \<open>linux_drive.go\<close>, \<open>linux_kernellog.go\<close>). \<open>Linux_Contract\<close> interprets
      \<open>os_contract\<close> on it, as \<open>lin\<close>, on every host; \<open>Linux_Tables\<close> interprets \<open>os_invariant\<close>, as
      \<open>tables\<close>. \<open>Linux_Tools\<close>: what the tools of a machine in order answer (\<open>tools_work\<close>), and that
      the operations then never end the process. \<open>Tool_Output\<close>: what the tools print is understood.
    \<^item> \<open>Core_Model\<close> (\<open>model.go\<close>, the data of \<open>assignment.go\<close> and \<open>drive.go\<close>), \<open>Core_XFS\<close> (\<open>xfs.go\<close>),
      \<open>Core_LUKS\<close> (\<open>luks.go\<close> and the dispatch of the interface Device), \<open>Core_Drive\<close> (\<open>drive.go\<close>),
      \<open>Core_Assignment\<close> (\<open>assignment.go\<close>); \<open>Core_Device\<close>, \<open>Core_Termination\<close> and \<open>Core_Invariant\<close>
      hold what is proved of the methods of all devices, the latter in the locale
      \<open>os_invariant\<close>: what every operation of the layer keeps, the whole converger keeps.
    \<^item> \<open>Core_Isolation\<close>, \<open>Core_Pass\<close>: the work on one drive, with the calculus \<open>yields\<close>, does not
      disturb what is allotted to other drives, so that the results for single drives add up.
      \<open>Core_Steady\<close>: a second pass only looks, in the locale \<open>steady_contract\<close>, which extends
      \<open>os_contract\<close> and is interpreted by \<open>Linux_Steady\<close>, as \<open>steady\<close>.
    \<^item> \<open>Converger\<close> (\<open>converger.go\<close>, the events, \<open>metrics.go\<close>), \<open>Drive_Invariant\<close> and
      \<open>Failed_Drives\<close> (what its list of drives satisfies), \<open>Collectors\<close> (\<open>collectors.go\<close>).
    \<^item> \<open>System\<close> (\<open>main.go\<close>): the process as a step relation \<open>sys_step\<close> on records \<open>system\<close>: the
      world, what each collector remembers and has still to send, whether journalctl has been
      started for the kernel log, the channel and the converger.
      The server for the metrics and the goroutines of the integration tests are steps as well.
    \<^item> \<open>Logexpect\<close> (\<open>cmd/logexpect\<close>): the program of the tests that compares logs with patterns.
    \<^item> \<open>Sample_Host\<close>, \<open>Sample_Linux\<close>, \<open>Sample_System\<close>: small machines, with two or three drives
      where it matters, on which every property with hypotheses is applied.

  What is shown. Of the devices and drives: a pass mounts a healthy drive at exactly its place or
  flags it, never formats what is not empty, a second pass changes nothing, a broken drive is only
  torn down, \<open>Validate\<close> and \<open>Teardown\<close> are exact, and the pass over all drives mounts every
  healthy drive although others fail. Of the swift-ids: the scan is equivalent to a declarative
  verdict, the automatic assignment to a one-pass reference, and an id is shared only if a file cannot be
  read. Of the converger: its list of drives refines the list of tracked paths, its counters and its
  audit say what happened, and it returns from every batch when the tools of the machine work.
  Of the whole process: what all reachable states satisfy, under every interleaving of
  the collectors, the channel, the converger and changes of the machine by others. Of the
  parsers: round trips with what the tools print, and equivalence of the searches with simple
  references. The last sections and the theories before hold the properties that show where
  the code falls short of what its comments say.

  Bounds. \<open>Validate\<close> and \<open>Setup\<close> of nested containers have no bound in the code; the model counts
  the depth of the calls, and \<open>stack_limit\<close> of the host is the depth at which the process ends.
  \<open>Core_Termination\<close> shows that the result does not depend on the bound, and the properties
  assume a rank of the devices below it that decreases from each device to what is mapped in it.
  All other loops of the model end by construction; the endless loops of the collectors and the
  converger are the steps of \<open>System\<close> or take the list of what they receive.

  Conditions. Nothing is assumed of the operating system but what a property names. The conditions that
  several properties name are \<open>reads_as\<close> (\<open>Core_Assignment\<close>: what the swift-id files hold when the
  assignment begins; reads after a write are free), \<open>tools_work\<close> (\<open>Linux_Tools\<close>: the tools
  answer), \<open>exclusive\<close> and \<open>separate_mounts\<close> (\<open>Os_Interface\<close>, \<open>Core_Drive\<close>: no two devices are mounted at one path) and
  \<open>one_name\<close> (\<open>System\<close>: no two globbed paths lead to one device). Where the program itself can leave
  such a condition, a property shows how: C14, C29, C33 and C34.

  Atomicity. A step of \<open>System\<close> is one turn of a collector, one sending of a batch, one iteration of
  the converger, or any change of the machine by other processes. Turns do not overlap in the
  model; they share no state in the program but the machine.

  Not modelled: what the metrics server serves (its goroutine and how that ends is in \<open>System\<close>); the
  choice of the logger; signals other than the SIGPIPE of the integration tests; sleeping and the
  length of intervals beyond their choice; debug messages; non-ASCII white space and letter case;
  the dump of a device in the text of a panic. YAML, JSON input, MD5 and the argument --version are
  parameters. The packages under \<open>vendor\<close> are not modelled.
\<close>

section \<open>Properties of the whole program\<close>

text \<open>C1: A pass of the converger mounts a healthy drive at exactly the right place or flags
  it as broken. When \<open>Drive.Converge\<close> of a drive that is not broken returns, on any host,
  the drive is the same drive, and either it is now broken and has lost its assignment, or
  its assignment is unchanged and the filesystem at the bottom of its (possibly nested)
  devices is mounted in both mount namespaces at its mount path and nowhere else. The
  table must not show two devices mounted at one path beforehand.\<close>

theorem converge_mounts_or_breaks:
  assumes "Drive_Converge h (linux_osi h) d w = (Inr d', w')" and "\<not> Broken d"
    and "ready (osst w)" and "separate_mounts (active (osst w))"
  shows "same_drive d d' \<and>
    (if Broken d' then Assignment d' = None
     else Assignment d' = Assignment d \<and> drive_mounted (active (osst w')) d')"
  using lin.Drive_Converge_outcome [OF assms(1-3)] assms(4) by (auto split: if_splits)

theorem converge_mounts_or_breaks_witness:
  "\<exists>d' w'. Drive_Converge quiet_host (linux_osi quiet_host) (xfs_drive ''/dev/sda'' []) (linux_world linux0)
       = (Inr d', w') \<and> \<not> Broken d' \<and> drive_mounted (active (osst w')) d' \<and>
     MountedPath d' = ''/run/swift-storage/sda''"
proof -
  have "case Drive_Converge quiet_host quiet_osi (xfs_drive ''/dev/sda'' []) (linux_world linux0) of
      (Inr d', w') \<Rightarrow> \<not> Broken d' \<and> MountedPath d' = ''/run/swift-storage/sda'' | _ \<Rightarrow> False"
    by code_simp
  then obtain d' w' where
    d: "Drive_Converge quiet_host (linux_osi quiet_host) (xfs_drive ''/dev/sda'' []) (linux_world linux0) = (Inr d', w')"
    "\<not> Broken d'" "MountedPath d' = ''/run/swift-storage/sda''"
    unfolding quiet_osi_def by (auto split: prod.splits sum.splits)
  have "drive_mounted (active (osst w')) d'"
    using converge_mounts_or_breaks [OF d(1)] d(2) by (simp add: xfs_drive_def linux_world_def)
  with d show ?thesis by blast
qed

text \<open>C9: On a machine whose tools work, the event loop never ends the process. Let \<open>tools_work\<close> hold
  of the machine, which is about the answers of its tools alone: \<open>file\<close>, \<open>mount\<close>, \<open>lsblk\<close>, \<open>dmsetup\<close>
  and the final \<open>touch\<close> always exit with 0, \<open>mount\<close> prints whole lines, \<open>lsblk\<close> prints JSON in which
  the devices that hold LUKS mappings have known types, \<open>cryptsetup status\<close> names an existing backing
  device for every mapping listed, and LUKS containers are not nested in a cycle or deeper than
  the stack. Then, for every sequence of batches of events, every configuration and every state of
  the program and the machine at the start, \<open>RunConverger\<close> returns from all its iterations, from the
  first reading of the mounts on: no panic and no fatal error, whatever drives are added, removed,
  broken or reinstated and whatever else (formatting, mounting, writing files) fails. C14 shows
  that without the first of these conditions the process may end.\<close>

theorem event_loop_never_ends_process:
  assumes "tools_work h rank"
  shows "\<exists>c w'. RunConverger h (linux_osi h) cfg queue w = (Inr c, w') \<and>
     (\<forall>d \<in> set (Drives c). Device d \<noteq> None)"
proof -
  obtain c w' where "RunConverger h (linux_osi h) cfg queue w = (Inr c, w')"
    and "\<forall>d \<in> set (Drives c). drive_ok rank (stack_limit h) d"
    by (rule tools_work_run [OF assms])
  then show ?thesis by (auto simp: drive_ok_def)
qed

theorem event_loop_never_ends_process_witness:
  "\<exists>c w'. RunConverger crypt_host (linux_osi crypt_host) test_config
      [[DriveAddedEvent ''/dev/sda'' [] ''A''], [DriveErrorEvent ''/dev/sda'' ''error''],
       [DriveReinstatedEvent ''/dev/sda''], [DriveRemovedEvent ''/dev/sda'']] (linux_world linux0) = (Inr c, w') \<and>
     (\<forall>d \<in> set (Drives c). Device d \<noteq> None)"
  by (rule event_loop_never_ends_process [OF crypt_tools])

text \<open>C10: The converger tracks exactly the drives that have been added and not been removed.
  Over any batches of events, with any operating system, the device paths of the drives are
  those that an abstract list of paths has after the same events, in the same order; no
  pass, error or reinstatement ever loses, duplicates or reorders a drive.\<close>

theorem run_tracks_drives:
  assumes "RunConverger h osi cfg queue w = (Inr c, w')"
  shows "map DevicePath (Drives c) = foldl track [] (concat queue)"
  using RunConverger_value [OF assms [unfolded RunConverger_def]] by simp

theorem run_tracks_drives_witness:
  "\<exists>c w'. RunConverger calm_host (linux_osi calm_host) test_config
      [[DriveAddedEvent ''/dev/sda'' [] ''A'', DriveAddedEvent ''/dev/sdb'' [] ''B''], [WakeupEvent],
       [DriveErrorEvent ''/dev/sdb'' ''error'', DriveRemovedEvent ''/dev/sda'']] (linux_world linux0) = (Inr c, w') \<and>
     map DevicePath (Drives c) = [''/dev/sdb'']"
proof -
  obtain c w' where r: "RunConverger calm_host (linux_osi calm_host) test_config
      [[DriveAddedEvent ''/dev/sda'' [] ''A'', DriveAddedEvent ''/dev/sdb'' [] ''B''], [WakeupEvent],
       [DriveErrorEvent ''/dev/sdb'' ''error'', DriveRemovedEvent ''/dev/sda'']] (linux_world linux0) = (Inr c, w')"
    using calm_run by blast
  with run_tracks_drives [OF r] show ?thesis by simp
qed

text \<open>C16: The metric counts every event once, and reports every type of event from the start.
  After any batches of events the counter for a type is the number of handled events of
  that type, 0 included.\<close>

theorem run_counts_events:
  assumes "RunConverger h osi cfg queue w = (Inr c, w')"
  shows "eventCounter c (EventType e) =
     Some (length (filter (\<lambda>x. EventType x = EventType e) (concat queue)))"
  using conjunct2 [OF RunConverger_value [OF assms [unfolded RunConverger_def]]]
  by (simp add: Add_count [unfolded One_nat_def] metrics_init_zero)

theorem run_counts_events_witness:
  "\<exists>c w'. RunConverger calm_host (linux_osi calm_host) test_config
      [[DriveAddedEvent ''/dev/sda'' [] ''A'', WakeupEvent], [DriveAddedEvent ''/dev/sdb'' [] ''B'']]
      (linux_world linux0) = (Inr c, w') \<and>
     eventCounter c ''drive-added'' = Some 2 \<and> eventCounter c ''drive-reinstated'' = Some 0"
proof -
  obtain c w' where r: "RunConverger calm_host (linux_osi calm_host) test_config
      [[DriveAddedEvent ''/dev/sda'' [] ''A'', WakeupEvent], [DriveAddedEvent ''/dev/sdb'' [] ''B'']]
      (linux_world linux0) = (Inr c, w')"
    using calm_run by blast
  with run_counts_events [OF r, of "DriveAddedEvent [] [] []"] run_counts_events [OF r, of "DriveReinstatedEvent []"]
  show ?thesis by simp
qed

text \<open>C11: \<open>Validate\<close> of a filesystem accepts exactly the consistent mount tables. On Linux it
  reports no error if and only if the device is mounted nowhere and was mounted nowhere, or
  is mounted in the local namespace (and in the host's, if it was mounted before), every
  mount is writable, and all of them are at the one path where it was, if anywhere.\<close>

theorem validate_accepts_consistent_mounts:
  assumes "\<And>sc. has_paths (mounts_of p (active (osst w) sc))"
  shows "\<exists>err mp' w'. XFS_Validate (linux_osi h) p mp w = (Inr (err, mp'), w') \<and> osst w' = osst w \<and>
    (err = None \<longleftrightarrow> consistent_mounts mp (mounts_of p (active (osst w) HostScope))
                                       (mounts_of p (active (osst w) LocalScope)))"
proof -
  obtain err mp' ls where "XFS_Validate (linux_osi h) p mp w = (Inr (err, mp'), w\<lparr>logs := logs w @ ls\<rparr>)"
    and "err = None \<longleftrightarrow> consistent_mounts mp (mounts_of p (active (osst w) HostScope))
                                       (mounts_of p (active (osst w) LocalScope))"
    using lin.XFS_Validate_spec [OF assms] by blast
  then show ?thesis by (intro exI [of _ err] exI [of _ mp'] exI [of _ "w\<lparr>logs := logs w @ ls\<rparr>"]) simp
qed

definition one_mount :: "string set \<Rightarrow> linux" where
  "one_mount opts = linux0\<lparr>ActiveMountPoints :=
     Some (\<lambda>_. [\<lparr>mp_DevicePath = ''/dev/sda'', mp_MountPath = ''/srv/node/a'', mp_Options = opts\<rparr>])\<rparr>"

theorem validate_accepts_consistent_mounts_witness:
  "\<exists>err mp' w'. XFS_Validate (linux_osi calm_host) ''/dev/sda'' [] (linux_world (one_mount {''ro''}))
     = (Inr (err, mp'), w') \<and> err \<noteq> None"
proof -
  have "has_paths (mounts_of ''/dev/sda'' (active (osst (linux_world (one_mount {''ro''}))) sc))" for sc
    by (simp add: has_paths_def mounts_of_def active_def linux_world_def one_mount_def)
  from validate_accepts_consistent_mounts [OF this, of calm_host "[]"]
  show ?thesis
    by (auto simp: consistent_mounts_def all_at_def mounts_of_def active_def linux_world_def one_mount_def)
qed

text \<open>C12: \<open>Teardown\<close> that reports success leaves nothing mounted, provided that the device shares no
  mount path with another device. On Linux, when no other device is mounted at a path where the
  device is mounted, and the teardown of the device with its nested containers returns true, the
  device says that it is not mounted, and the filesystem inside is mounted nowhere in either
  namespace. Without the proviso the entry of the other device may be dropped from the table
  instead: \<open>removeMountPoint\<close> looks at the path only, and C33 shows how two drives come to share
  one.\<close>

theorem teardown_leaves_no_mounts:
  assumes "Device_Teardown h (linux_osi h) drv d w = (Inr (True, d'), w')" and "ready (osst w)"
    and "\<And>sc. exclusive (dev_path (innermost d)) (active (osst w) sc)"
  shows "Device_MountedPath d' = [] \<and>
    (\<forall>q f m. innermost d = XFSDevice q f m \<longrightarrow> (\<forall>sc. dev_paths q (active (osst w') sc) = []))"
  using lin.Device_Teardown_True [OF assms] by blast

theorem teardown_leaves_no_mounts_witness:
  "\<exists>d' w'. Device_Teardown calm_host (linux_osi calm_host) (xfs_drive ''/dev/sda'' ''/srv/node/a'')
       (XFSDevice ''/dev/sda'' True ''/srv/node/a'') (linux_world (one_mount {})) = (Inr (True, d'), w') \<and>
     dev_paths ''/dev/sda'' (active (osst w') HostScope) = []"
proof -
  have "case Device_Teardown calm_host (linux_osi calm_host) (xfs_drive ''/dev/sda'' ''/srv/node/a'')
       (XFSDevice ''/dev/sda'' True ''/srv/node/a'') (linux_world (one_mount {})) of
      (Inr (ok, _), _) \<Rightarrow> ok | _ \<Rightarrow> False"
    by code_simp
  then obtain d' w' where t: "Device_Teardown calm_host (linux_osi calm_host) (xfs_drive ''/dev/sda'' ''/srv/node/a'')
       (XFSDevice ''/dev/sda'' True ''/srv/node/a'') (linux_world (one_mount {})) = (Inr (True, d'), w')"
    by (auto split: prod.splits sum.splits)
  have "ready (osst (linux_world (one_mount {})))"
    by (simp add: ready_def linux_world_def one_mount_def)
  moreover have "exclusive (dev_path (innermost (XFSDevice ''/dev/sda'' True ''/srv/node/a'')))
      (active (osst (linux_world (one_mount {}))) sc)" for sc
    by (simp add: exclusive_def active_def linux_world_def one_mount_def)
  ultimately have "dev_paths ''/dev/sda'' (active (osst w') sc) = []" for sc
    using conjunct2 [OF teardown_leaves_no_mounts [OF t], rule_format, OF _ _ innermost.simps(1)] by blast
  with t show ?thesis by blast
qed

text \<open>C18: \<open>CheckForUnexpectedMounts\<close> reports exactly the unexpected mounts. It logs one error
  for every mount below /srv/node of the host that is no drive's mount path, in the order
  of the table, and does nothing else.\<close>

theorem unexpected_mounts_reported:
  "CheckForUnexpectedMounts (linux_osi h) ds w =
     (Inr (), w\<lparr>logs := logs w @ map (\<lambda>m. (LError, ''unexpected mount at '' @ mp_MountPath m))
        (filter (\<lambda>m. HasPrefix (mp_MountPath m) ''/srv/node/'' \<and> mp_MountPath m \<notin> MountPath ` set ds)
                (active (osst w) HostScope))\<rparr>)"
proof -
  have loop: "forM ms (\<lambda>m. whenM (\<not> list_ex (\<lambda>d. MountPath d = mp_MountPath m) ds)
        (log_error (''unexpected mount at '' @ mp_MountPath m))) w =
      (Inr (), w\<lparr>logs := logs w @ map (\<lambda>m. (LError, ''unexpected mount at '' @ mp_MountPath m))
         (filter (\<lambda>m. mp_MountPath m \<notin> MountPath ` set ds) ms)\<rparr>)" for ms and w :: "'a lworld"
  proof (induction ms arbitrary: w)
    case (Cons m ms)
    have "list_ex (\<lambda>d. MountPath d = mp_MountPath m) ds \<longleftrightarrow> mp_MountPath m \<in> MountPath ` set ds"
      by (force simp: list_ex_iff)
    with Cons show ?case by (simp add: thenM_def whenM_def bindM_def)
  qed simp
  have trailing: "\<not> HasSuffix ''/srv/node'' ''/''" by code_simp
  have "GetMountPointsIn (linux_osi h) srv_node HostScope w =
      (Inr (filter (\<lambda>m. HasPrefix (mp_MountPath m) ''/srv/node/'') (active (osst w) HostScope)), w)"
    using trailing by (simp add: linux_osi_def linux_GetMountPointsIn_def bindM_def srv_node_def)
  then have "CheckForUnexpectedMounts (linux_osi h) ds w =
      forM (filter (\<lambda>m. HasPrefix (mp_MountPath m) ''/srv/node/'') (active (osst w) HostScope))
        (\<lambda>m. whenM (\<not> list_ex (\<lambda>d. MountPath d = mp_MountPath m) ds)
          (log_error (''unexpected mount at '' @ mp_MountPath m))) w"
    unfolding CheckForUnexpectedMounts_def by (rule bindM_Inr)
  then show ?thesis unfolding loop filter_filter .
qed

section \<open>Properties of the collectors and the converger together\<close>

text \<open>C22: The channel to the converger holds at most ten batches, and none of them is empty. In
  every reachable state of the process the queue is within its capacity, every batch that is
  in it or waits for it has an event, and batches of the collectors other than the drive
  collector never say that a drive comes or goes.\<close>

theorem channel_within_capacity:
  assumes "reachable h cfg w0 (Running s)"
  shows "length (st_queue s) \<le> 10 \<and> [] \<notin> set (st_queue s) \<and> (\<forall>c. [] \<notin> set (st_pending s c)) \<and>
    (\<forall>c b e. c \<noteq> DriveCollector \<longrightarrow> b \<in> set (st_pending s c) \<longrightarrow> e \<in> set b \<longrightarrow> \<not> drive_event e)"
  using channel_ok_reachable [OF assms] unfolding channel_ok_def queue_capacity_def by blast

theorem channel_within_capacity_witness:
  "\<exists>s. reachable calm_host test_config (linux_world linux0) (Running s) \<and> st_queue s = [two_added] \<and>
     length (st_queue s) \<le> 10"
  using calm_two_sent [of "linux_world linux0"] channel_within_capacity by blast

text \<open>C19: The converger never tracks a drive twice, provided that every device matches the patterns
  under one path only (\<open>one_name\<close>: no two paths that a pattern may ever give lead to the same
  device; C29 is about devices with two paths). Then in every reachable state, however the steps of
  the collectors and the converger interleave, the device paths of the converger's drives are all
  different, they stay so when it handles what is on its way, and after that they are paths of
  drives that the drive collector knows.\<close>

theorem every_drive_tracked_once:
  assumes "one_name h (DriveGlobs cfg)" and "reachable h cfg w0 (Running s)"
  shows "distinct (tracked s) \<and> distinct (foldl track (tracked s) (in_flight s)) \<and>
    set (foldl track (tracked s) (in_flight s)) \<subseteq> snd ` set (st_known s)"
proof -
  from collector_agrees_reachable [OF assms] obtain R where
    never: "never_twice (tracked s) (in_flight s @ [])"
    and R: "mset (foldl track (tracked s) (in_flight s)) = mset (map snd R)" "set R \<subseteq> set (st_known s)"
    unfolding collector_agrees_def by auto
  from never have "distinct (tracked s)" "distinct (foldl track (tracked s) (in_flight s))"
    unfolding never_twice_append by (auto dest: never_twice_distinct)
  moreover have "set (foldl track (tracked s) (in_flight s)) = snd ` set R"
    using mset_eq_setD [OF R(1)] by simp
  ultimately show ?thesis using R(2) by auto
qed

theorem every_drive_tracked_once_witness:
  "\<exists>w0 s. reachable calm_host test_config w0 (Running s) \<and> tracked s = [''/dev/sda'', ''/dev/sdb''] \<and>
     in_flight s = [] \<and> distinct (tracked s) \<and> set (tracked s) \<subseteq> snd ` set two_drives"
proof -
  let ?w0 = "linux_world linux0"
  obtain s where s: "reachable calm_host test_config ?w0 (Running s)" "st_queue s = []" "st_known s = two_drives"
    "tracked s = [''/dev/sda'', ''/dev/sdb'']" "st_pending s DriveCollector = []"
    using calm_two_tracked by blast
  then have f: "in_flight s = []" by (simp add: in_flight_def)
  note t = every_drive_tracked_once [OF calm_one_name s(1), unfolded f foldl_Nil s(3)]
  show ?thesis
    by (intro exI [of _ ?w0] exI [of _ s] conjI s(1) s(4) f conjunct1 [OF t] conjunct2 [OF conjunct2 [OF t]])
qed

text \<open>C20: On a machine whose tools work, the converger always handles the next batch. Let \<open>tools_work\<close>
  (see C9) hold of the machine. Then in every reachable state with a batch in the queue, an
  iteration of the converger returns and is a step of the process: no panic and no fatal error,
  whatever the collectors have sent and whatever happens on the machine between the steps. C14
  shows that it may end the process on a machine with an unreadable device, to which \<open>file\<close> does
  not answer.\<close>

theorem converger_handles_next_batch:
  assumes "tools_work h rank" and "reachable h cfg w0 (Running s)" and "st_queue s = b # bs"
  shows "\<exists>c w'. converger_iteration h (linux_osi h) cfg b (st_converger s) (st_world s) = (Inr c, w') \<and>
    sys_step h cfg (Running s) (Running (s\<lparr>st_world := w', st_queue := bs, st_converger := c\<rparr>)) \<and>
    (\<forall>d \<in> set (Drives c). Device d \<noteq> None)"
proof -
  obtain c w' where "converger_iteration h (linux_osi h) cfg b (st_converger s) (st_world s) = (Inr c, w')"
    and "\<forall>d \<in> set (Drives c). drive_ok rank (stack_limit h) d"
    by (rule converger_ready_iteration [OF assms(1) converger_ready_reachable [OF assms(1,2)]])
  with sys_step.converge [OF assms(3)] show ?thesis by (fastforce simp: drive_ok_def)
qed

theorem converger_handles_next_batch_witness:
  "\<exists>s c w'. reachable calm_host test_config (linux_world linux0) (Running s) \<and> st_queue s = [two_added] \<and>
     converger_iteration calm_host (linux_osi calm_host) test_config two_added (st_converger s) (st_world s) = (Inr c, w')"
proof -
  obtain s where s: "reachable calm_host test_config (linux_world linux0) (Running s)" "st_queue s = [two_added]"
    using calm_two_sent by blast
  from converger_handles_next_batch [OF calm_tools s] s show ?thesis by blast
qed

text \<open>C21: What can end the process. On a machine whose tools work (\<open>tools_work\<close>, see C9), the process
  can end in its next step in exactly four ways, signals but SIGPIPE aside: a turn of the drive
  collector fails (a pattern is malformed or matches no drive, a link cannot be resolved, \<open>lsblk\<close> reports what
  the program does not know); journalctl cannot be started, which is tried once; the server for the
  metrics gives up with an error, when the configuration asks for one; the signal SIGPIPE during
  the integration tests. The converger, the collectors of reinstatements and wakeups, and
  the watcher of the kernel log once journalctl runs never end it.\<close>

theorem endings_of_process:
  assumes "tools_work h rank" and "reachable h cfg w0 (Running s)"
  shows "sys_step h cfg (Running s) (Ended e) \<longleftrightarrow>
    (length (st_pending s DriveCollector) \<le> 1 \<and> (\<exists>order w'. permutes order \<and>
       collect_pass h (DriveGlobs cfg) order (st_known s) (st_world s) = (Inl e, w'))) \<or>
    (\<not> st_watching s \<and> (\<exists>err. e = Fatal err)) \<or>
    (MetricsListenAddress cfg \<noteq> [] \<and> (\<exists>err. e = Fatal err)) \<or>
    (InTestMode h \<and> e = Exited 0)" (is "_ \<longleftrightarrow> ?endings")
proof
  assume "sys_step h cfg (Running s) (Ended e)"
  then show ?endings
  proof (cases rule: sys_exit_cases)
    case (converge b bs w')
    obtain c w1 where "converger_iteration h (linux_osi h) cfg b (st_converger s) (st_world s) = (Inr c, w1)"
      by (rule converger_ready_iteration [OF assms(1) converger_ready_reachable [OF assms]])
    with converge show ?thesis by simp
  qed (auto dest: klog_start_Inl metrics_returns_Inl test_turn_Inl)
next
  assume ?endings
  then consider (drives) "length (st_pending s DriveCollector) \<le> 1" "\<exists>order w'. permutes order \<and>
       collect_pass h (DriveGlobs cfg) order (st_known s) (st_world s) = (Inl e, w')"
    | (kernel_log) err where "\<not> st_watching s" "e = Fatal err"
    | (metrics) err where "MetricsListenAddress cfg \<noteq> []" "e = Fatal err"
    | (test_mode) "InTestMode h" "e = Exited 0" by blast
  then show "sys_step h cfg (Running s) (Ended e)"
  proof cases
    case kernel_log
    with klog_start_fails [of h err "st_world s"] show ?thesis by (auto intro: sys_step.kernel_log_exit)
  next
    case metrics
    then show ?thesis
      using sys_step.metrics_exit [where addr = "MetricsListenAddress cfg" and res = "Some err" and cfg = cfg and h = h and s = s and e = e]
      by (simp add: metrics_returns_def)
  next
    case test_mode
    then show ?thesis by (intro sys_step.test_mode_exit [where g = SigpipeHandler]) simp_all
  qed (auto intro: sys_step.drives_exit)
qed

theorem endings_of_process_witness:
  "\<exists>e. sys_step calm_host (test_config\<lparr>DriveGlobs := [''/dev/nvme*'']\<rparr>) (Running (initial_system (linux_world linux0))) (Ended e) \<and>
     \<not> (InTestMode calm_host \<or> MetricsListenAddress test_config \<noteq> [])"
proof -
  let ?cfg = "test_config\<lparr>DriveGlobs := [''/dev/nvme*'']\<rparr>"
  let ?s = "initial_system (linux_world linux0) :: trace system"
  have r: "reachable calm_host ?cfg (linux_world linux0) (Running ?s)" by (rule reachable.start)
  have "TrimPrefix ''/dev/nvme*'' ''/'' = ''dev/nvme*''" by code_simp
  then have "\<exists>e w'. collect_pass calm_host (DriveGlobs ?cfg) id (st_known ?s) (st_world ?s) = (Inl e, w')"
    by (simp add: collect_pass_def find_existing_def Let_def bindM_def sysM_def calm_glob)
  moreover have "length (st_pending ?s DriveCollector) \<le> 1" "permutes id"
    by (simp_all add: initial_system_def permutes_def)
  moreover have "MetricsListenAddress test_config = []" "\<not> InTestMode calm_host"
    by (simp_all add: test_config_def InTestMode_def calm_host_def sample_host_def)
  ultimately show ?thesis using endings_of_process [OF calm_tools r] by blast
qed

text \<open>C26: The two tables of mounts never diverge. After a start-up that succeeds, in every
  reachable state of the process the mount propagation mode is the one that was detected,
  and unless the mount namespaces are separate, the tables of the host and of the local
  scope are the same.\<close>

theorem mount_tables_mirrored:
  assumes "main_start h cfg w = (Inr gs, w0)" and "reachable h cfg w0 (Running s)"
  shows "PropagationMode (osst (st_world s)) = PropagationMode (osst w0) \<and>
    (PropagationMode (osst w0) \<noteq> SeparateMountNamespaces \<longrightarrow>
       active (osst (st_world s)) HostScope = active (osst (st_world s)) LocalScope)"
  using mirrored_reachable [OF main_start_prepared [OF assms(1)] assms(2)] by (simp add: mirrored_def)

theorem mount_tables_mirrored_witness:
  "\<exists>w0 gs s. main_start calm_host test_config (linux_world linux0) = (Inr gs, w0) \<and>
     reachable calm_host test_config w0 (Running s) \<and> tracked s = [''/dev/sda'', ''/dev/sdb''] \<and>
     PropagationMode (osst (st_world s)) = PropagationMode (osst w0)"
proof -
  obtain w0 gs where w0: "main_start calm_host test_config (linux_world linux0) = (Inr gs, w0)"
    using calm_start by blast
  obtain s where "reachable calm_host test_config w0 (Running s)" "tracked s = [''/dev/sda'', ''/dev/sdb'']"
    using calm_two_tracked by blast
  with w0 mount_tables_mirrored [OF w0 this(1)] show ?thesis by blast
qed

text \<open>C28: Every drive of the converger is well-formed. After any batches of events, with any
  operating system layer, each drive has the configured keys, a device for its own device
  path, and an identity (unless even the checksum of its path is empty).\<close>

theorem drives_are_well_formed:
  assumes "RunConverger h osi cfg queue w = (Inr c, w')" and "d \<in> set (Drives c)"
  shows "Keys d = Secrets cfg \<and> (\<exists>dev. Device d = Some dev \<and> dev_path dev = DevicePath d) \<and>
    (DriveID d = [] \<longrightarrow> md5_hex h (DevicePath d) = [])"
  using RunConverger_well_formed [OF assms(1)] assms(2) by (auto simp: well_formed_def)

theorem drives_are_well_formed_witness:
  "\<exists>c w' d. RunConverger calm_host (linux_osi calm_host) test_config
      [[DriveAddedEvent ''/dev/sda'' [] []], [DriveReinstatedEvent ''/dev/sda'']] (linux_world linux0) = (Inr c, w') \<and>
     Drives c = [d] \<and> DriveID d \<noteq> [] \<and> Device d \<noteq> None"
proof -
  obtain c w' where r: "RunConverger calm_host (linux_osi calm_host) test_config
      [[DriveAddedEvent ''/dev/sda'' [] []], [DriveReinstatedEvent ''/dev/sda'']] (linux_world linux0) = (Inr c, w')"
    using calm_run by blast
  have "map DevicePath (Drives c) = [''/dev/sda'']"
    using RunConverger_value [OF r [unfolded RunConverger_def]] by simp
  then obtain d where d: "Drives c = [d]" by (cases "Drives c") auto
  have "md5_hex calm_host p \<noteq> []" for p by (simp add: calm_host_def sample_host_def)
  with drives_are_well_formed [OF r, of d] d have "DriveID d \<noteq> [] \<and> Device d \<noteq> None" by auto
  with r d show ?thesis by blast
qed

text \<open>C27: A drive that has failed stays out of service until someone intervenes. When the
  kernel reported an error of a drive that was tracked then, and no later event removes or
  reinstates the drive, then after any further batches of events, whatever the operating system
  layer does, the converger has a broken drive with this device path.\<close>

theorem failed_drive_stays_broken:
  assumes "RunConverger h osi cfg queue w = (Inr c, w')"
    and "concat queue = before @ DriveErrorEvent p l # after" and "p \<in> set (foldl track [] before)"
    and "DriveRemovedEvent p \<notin> set after" and "DriveReinstatedEvent p \<notin> set after"
  shows "\<exists>d \<in> set (Drives c). DevicePath d = p \<and> Broken d"
proof -
  obtain ps F where a: "foldl fail ([], {}) before = (ps, F)" by fastforce
  then have "ps = foldl track [] before" using fst_fails [of "([], {})" before] by simp
  with a assms(3) have "p \<in> snd (foldl fail ([], {}) (before @ [DriveErrorEvent p l]))" by simp
  from stays_failed [OF this assms(4,5)] have "p \<in> snd (foldl fail ([], {}) (concat queue))"
    by (simp add: assms(2))
  with RunConverger_represents [OF assms(1)] show ?thesis by (auto simp: represents_def broken_at_def)
qed

theorem failed_drive_stays_broken_witness:
  "\<exists>c w' d. RunConverger calm_host (linux_osi calm_host) test_config
      [[DriveAddedEvent ''/dev/sda'' [] []], [DriveErrorEvent ''/dev/sda'' ''I/O error''], [WakeupEvent]]
      (linux_world linux0) = (Inr c, w') \<and> d \<in> set (Drives c) \<and> Broken d"
proof -
  let ?q = "[[DriveAddedEvent ''/dev/sda'' [] []], [DriveErrorEvent ''/dev/sda'' ''I/O error''], [WakeupEvent]]"
  obtain c w' where r: "RunConverger calm_host (linux_osi calm_host) test_config ?q (linux_world linux0) = (Inr c, w')"
    using calm_run by blast
  from failed_drive_stays_broken [OF r, of "[DriveAddedEvent ''/dev/sda'' [] []]" "''/dev/sda''" "''I/O error''" "[WakeupEvent]"]
  have "\<exists>d \<in> set (Drives c). DevicePath d = ''/dev/sda'' \<and> Broken d" by simp
  with r show ?thesis by blast
qed

text \<open>A drive that is where it belongs stays there. When a healthy drive with a formatted
  filesystem is mounted writable at exactly its mount path in both mount namespaces, a pass
  of the converger on Linux returns the same drive, leaves the tables as they are, and does
  nothing to the machine but perhaps remove the flag for the propagation of unmounts.\<close>

theorem converged_drive_stays_put:
  assumes "\<not> Broken d" and "Device d = Some (XFSDevice p True x)" and "MountPath d = x" and "x \<noteq> []"
    and "\<And>sc. dev_paths p (active (osst w) sc) = [x]"
    and "\<And>sc m. m \<in> set (mounts_of p (active (osst w) sc)) \<Longrightarrow> ''ro'' \<notin> mp_Options m"
  shows "\<exists>w'. Drive_Converge h (linux_osi h) d w = (Inr d, w') \<and> osst w' = osst w \<and>
    (kern w' = kern w \<or> (\<exists>f. kern w' = snd (sys_remove h f (kern w))))"
proof -
  have "mounts_of p (active (osst w) sc) \<noteq> [] \<and> all_at x (mounts_of p (active (osst w) sc))" for sc
    using assms(5) [of sc] assms(6) by (auto simp: dev_paths_def all_at_def)
  then have "in_place (active (osst w)) p x" by (simp add: in_place_def)
  with assms(2,3) have "settled (active (osst w)) (luks_view (osst w)) d (XFSDevice p True x)"
    by (simp add: MountPath_def MountedPath_def)
  from steady.Drive_Converge_settled [OF assms(1,2) this, of h] show ?thesis
    by (simp add: at_most_removes_def)
qed

theorem converged_drive_stays_put_witness:
  "\<exists>w'. Drive_Converge calm_host (linux_osi calm_host) (xfs_drive ''/dev/sda'' ''/srv/node/a'')
     (linux_world (one_mount {''rw''})) = (Inr (xfs_drive ''/dev/sda'' ''/srv/node/a''), w') \<and>
     osst w' = one_mount {''rw''}"
proof -
  let ?d = "xfs_drive ''/dev/sda'' ''/srv/node/a''" and ?w = "linux_world (one_mount {''rw''})"
  have a: "active (osst ?w) sc = [\<lparr>mp_DevicePath = ''/dev/sda'', mp_MountPath = ''/srv/node/a'', mp_Options = {''rw''}\<rparr>]" for sc
    by (simp add: active_def linux_world_def one_mount_def)
  have "\<exists>w'. Drive_Converge calm_host (linux_osi calm_host) ?d ?w = (Inr ?d, w') \<and> osst w' = osst ?w \<and>
    (kern w' = kern ?w \<or> (\<exists>f. kern w' = snd (sys_remove calm_host f (kern ?w))))"
    by (rule converged_drive_stays_put [where p = "''/dev/sda''" and x = "''/srv/node/a''"])
       (simp_all add: xfs_drive_def MountPath_def MountPathAt_def MountedPath_def Assignment_MountPath_def a
         dev_paths_def mounts_of_def)
  moreover have "osst ?w = one_mount {''rw''}" by (simp add: linux_world_def)
  ultimately show ?thesis by auto
qed

text \<open>C3: The converger is done with a drive after one pass. When \<open>Drive.Converge\<close> leaves a drive
  healthy, on any host, then a second pass right after it, whatever is nested in the drive,
  returns the same drive with the same devices, leaves the tables of mounts and mappings as they
  are, and does nothing to the machine but perhaps remove the flag for the propagation of
  unmounts: it opens, formats and mounts nothing again. The table must not show two devices
  mounted at one path beforehand, and no device may contain itself.\<close>

theorem second_pass_changes_nothing:
  assumes "Drive_Converge h (linux_osi h) d w = (Inr d1, w1)" and "\<not> Broken d1"
    and "ready (osst w)" and "separate_mounts (active (osst w))"
    and "\<And>dev. Device d1 = Some dev \<Longrightarrow> distinct (chain dev)"
  shows "\<exists>w2. Drive_Converge h (linux_osi h) d1 w1 = (Inr d1, w2) \<and> at_most_removes h w1 w2"
proof -
  from Drive_Converge_value [OF assms(1)] obtain dev where dev: "Device d1 = Some dev" by auto
  have "\<forall>sc. exclusive (dev_path (innermost dev)) (active (osst w) sc)"
    using assms(4) by (simp add: separate_mounts_def)
  from steady.Drive_Converge_settles [OF assms(1-3) dev assms(5) [OF dev] this]
  show ?thesis using steady.Drive_Converge_settled [OF assms(2) dev] by blast
qed

theorem second_pass_changes_nothing_witness:
  "\<exists>d1 w1 w2. Drive_Converge quiet_host (linux_osi quiet_host) (hd three_drives) (linux_world boot_linux) = (Inr d1, w1) \<and>
     map_option chain (Device d1) = Some [''/dev/sda'', ''/dev/mapper/sda''] \<and>
     Drive_Converge quiet_host (linux_osi quiet_host) d1 w1 = (Inr d1, w2) \<and> osst w2 = osst w1"
proof -
  have "case Drive_Converge quiet_host quiet_osi (hd three_drives) (linux_world boot_linux) of
      (Inr d1, w1) \<Rightarrow> \<not> Broken d1 \<and> map_option chain (Device d1) = Some [''/dev/sda'', ''/dev/mapper/sda'']
    | _ \<Rightarrow> False"
    by code_simp
  then obtain d1 w1 where r: "Drive_Converge quiet_host (linux_osi quiet_host) (hd three_drives) (linux_world boot_linux) = (Inr d1, w1)"
    "\<not> Broken d1" and c: "map_option chain (Device d1) = Some [''/dev/sda'', ''/dev/mapper/sda'']"
    unfolding quiet_osi_def by (elim returned conjE) (rule that)
  have b: "ready (osst (linux_world boot_linux))" "separate_mounts (active (osst (linux_world boot_linux)))"
    by (simp add: ready_def linux_world_def boot_linux_def)
       (simp add: boot_active separate_mounts_def exclusive_def)
  have "distinct (chain dev)" if "Device d1 = Some dev" for dev using that c by simp
  from second_pass_changes_nothing [OF r b this] r(1) c show ?thesis
    unfolding at_most_removes_def by blast
qed

text \<open>C38: Setup returns, and the depth of the calls matters only for whether it does. On Linux,
  when a rank that decreases from each device to what is mapped in it bounds the nesting of the
  containers, \<open>Setup\<close> of a device returns at any depth greater than the rank of the device,
  and always with the same result and the same effects.\<close>

theorem setup_returns_at_any_depth:
  assumes "opens_below (linux_osi h) rank" and "nested luks_view rank w" and "ready (osst w)"
    and "ranked rank d" and "rank (dev_path d) < n"
  shows "\<exists>ok d' w'. \<forall>m \<ge> n. Device_Setup m h (linux_osi h) drv d w = (Inr (ok, d'), w')"
proof -
  have sane: "sane_tables ready luks_view rank w"
    using assms(2,3) by (simp add: sane_tables_def nested_def)
  obtain x w' where "Device_Setup n h (linux_osi h) drv d w = (Inr x, w')"
    by (rule safeE [OF lin.Device_Setup_safe [OF _ assms(5,4)] sane]) (rule opens_belowD [OF assms(1)])
  then obtain ok d' where "Device_Setup n h (linux_osi h) drv d w = (Inr (ok, d'), w')" by (cases x) simp
  then have "\<forall>m \<ge> n. Device_Setup m h (linux_osi h) drv d w = (Inr (ok, d'), w')"
    by (meson approxD Device_Setup_depth)
  then show ?thesis by blast
qed

theorem setup_returns_at_any_depth_witness:
  "\<exists>ok d' w'. \<forall>m \<ge> 2. Device_Setup m calm_host (linux_osi calm_host) (xfs_drive ''/dev/sda'' [])
     (LUKSDevice ''/dev/sda'' True None []) (linux_world (one_mount {})) = (Inr (ok, d'), w')"
  by (rule setup_returns_at_any_depth [OF calm_opens_below])
     (simp_all add: nested_def luks_view_def mappings_def ready_def linux_world_def one_mount_def linux0_def calm_rank_def HasPrefix_def)

section \<open>Where the program falls short of its intent\<close>

text \<open>C29: A drive that has two names is lost with the first of them. When one of two paths
  under which a drive was found is gone, and nothing new has appeared, the drive collector
  keeps the drive under its other path, but what it sends makes the converger forget the
  drive, and it is not reported again.\<close>

theorem alias_removal_untracks_drive:
  assumes "collect_pass h globs order known w = (Inr (known', messages), w')" and "permutes order"
    and "find_existing h globs w = (Inr existing, w1)"
    and "(g, p) \<in> set known" and "map_of existing g = None"
    and "(g', p) \<in> set known" and "map_of existing g' \<noteq> None"
    and "fresh_drives existing (kept_drives existing known) = []"
  shows "(g', p) \<in> set known' \<and> p \<notin> set (foldl track ps (concat (map drive_events messages)))"
proof -
  have "order [] = []" using assms(2) by (metis mset_zero_iff permutes_def)
  moreover have "existing \<noteq> []" using assms(7) by auto
  ultimately have known': "known' = kept_drives existing known"
    and messages: "messages = pass_messages (gone_drives existing known) []"
    using assms(1,3,8)
    by (auto simp: collect_pass_def bindM_def Let_def inspect_drives_def pass_messages_def)
  have "(g', p) \<in> set known'" using assms(6,7) by (simp add: known' kept_drives_def)
  moreover have "p \<in> snd ` set (gone_drives existing known)"
    using assms(4,5) by (force simp: gone_drives_def)
  ultimately show ?thesis unfolding messages track_messages by simp
qed

theorem alias_removal_untracks_drive_witness:
  "\<exists>known' messages w'. collect_pass calm_host (DriveGlobs test_config) id
       (two_drives @ [(''/dev/disk/by-id/scsi-1'', ''/dev/sda'')]) (linux_world linux0)
     = (Inr (known', messages), w') \<and>
     (''/dev/sda'', ''/dev/sda'') \<in> set known' \<and>
     ''/dev/sda'' \<notin> set (foldl track [''/dev/sda'', ''/dev/sdb''] (concat (map drive_events messages)))"
proof -
  let ?known = "two_drives @ [(''/dev/disk/by-id/scsi-1'', ''/dev/sda'')]"
  have f: "fresh_drives two_drives (kept_drives two_drives ?known) = []"
    by (simp add: fresh_drives_def kept_drives_def two_drives_def)
  have e: "find_existing calm_host (DriveGlobs test_config) (linux_world linux0) = (Inr two_drives, linux_world linux0)"
    by (rule calm_existing)
  obtain known' messages w' where c: "collect_pass calm_host (DriveGlobs test_config) id ?known (linux_world linux0)
      = (Inr (known', messages), w')"
    using e f by (auto simp: collect_pass_def bindM_def Let_def inspect_drives_def two_drives_def)
  have "(''/dev/sda'', ''/dev/sda'') \<in> set known' \<and>
     ''/dev/sda'' \<notin> set (foldl track [''/dev/sda'', ''/dev/sdb''] (concat (map drive_events messages)))"
    by (rule alias_removal_untracks_drive [OF c _ e, where g = "''/dev/disk/by-id/scsi-1''"])
       (simp_all add: f permutes_def, simp_all add: two_drives_def)
  with c show ?thesis by blast
qed

text \<open>C30: A LUKS container that was open at start-up is never closed. When \<open>Setup\<close> of a fresh
  device finds the container open already, and readable, it does not record the name of the mapping, and
  \<open>Teardown\<close> of the device, when the container holds a filesystem, does the same whatever
  closing a container would do: it does not close it.\<close>

theorem discovered_container_stays_open:
  assumes "Device_Setup (Suc n) h osi drv (LUKSDevice p fmt None []) w = (Inr (True, d'), w')"
    and "GetLUKSMappingOf osi p w = (Inr q, w1)" and "q \<noteq> []"
    and "\<And>w w'. ClassifyDevice osi q w \<noteq> (Inr DeviceTypeUnreadable, w')"
  shows "\<exists>fmt' m. d' = LUKSDevice p fmt' (Some m) [] \<and>
    (\<forall>r f x other. m = XFSDevice r f x \<longrightarrow>
       Device_Teardown h (osi\<lparr>CloseLUKSContainer := other\<rparr>) drv d' = Device_Teardown h osi drv d')"
proof -
  obtain fmt' m where d': "d' = LUKSDevice p fmt' (Some m) []"
    by (rule LUKS_Setup_discovered [OF assms(1) [unfolded Device_Setup.simps] assms(2-4)])
  show ?thesis
  proof (intro exI conjI allI impI)
    show "d' = LUKSDevice p fmt' (Some m) []" by (rule d')
    show "Device_Teardown h (osi\<lparr>CloseLUKSContainer := other\<rparr>) drv d' = Device_Teardown h osi drv d'"
      if "m = XFSDevice r f x" for r f x other
      unfolding d' that by (rule Device_Teardown_nameless)
  qed
qed

theorem discovered_container_stays_open_witness:
  "\<exists>d' w' m. Device_Setup (Suc 1) calm_host (linux_osi calm_host) ((xfs_drive ''/dev/sda'' [])\<lparr>Keys := [''secret'']\<rparr>)
       (LUKSDevice ''/dev/sda'' True None [])
       (linux_world (linux0\<lparr>ActiveLUKSMappings := Some [''/dev/sda'' \<mapsto> ''/dev/mapper/A'']\<rparr>)) = (Inr (True, d'), w') \<and>
     d' = LUKSDevice ''/dev/sda'' True (Some m) []"
proof -
  let ?drv = "(xfs_drive ''/dev/sda'' [])\<lparr>Keys := [''secret'']\<rparr>"
    and ?w = "linux_world (linux0\<lparr>ActiveLUKSMappings := Some [''/dev/sda'' \<mapsto> ''/dev/mapper/A'']\<rparr>)"
  have "case Device_Setup (Suc 1) calm_host (linux_osi calm_host) ?drv (LUKSDevice ''/dev/sda'' True None []) ?w of
      (Inr (ok, d'), _) \<Rightarrow> ok \<and> dev_formatted d' | _ \<Rightarrow> False"
    by code_simp
  then obtain d' w' where s: "Device_Setup (Suc 1) calm_host (linux_osi calm_host) ?drv
      (LUKSDevice ''/dev/sda'' True None []) ?w = (Inr (True, d'), w')" and f: "dev_formatted d'"
    by (auto split: prod.splits sum.splits)
  have g: "GetLUKSMappingOf (linux_osi calm_host) ''/dev/sda'' ?w = (Inr ''/dev/mapper/A'', ?w)"
    by (simp add: linux_osi_def linux_GetLUKSMappingOf_def bindM_def linux_world_def mappings_def)
  have "ClassifyDevice (linux_osi calm_host) q w \<noteq> (Inr DeviceTypeUnreadable, w')" for q w w'
    using calm_readable by (simp add: readable_def)
  from discovered_container_stays_open [OF s g _ this] s f show ?thesis by auto
qed

text \<open>A machine on which every drive has a broken-flag.\<close>

definition flagged_host :: "trace host" where
  "flagged_host = sample_host (\<lambda>_. silent) (\<lambda>_. Inr ''/dev/sda'') (\<lambda>_. Inl (NotExist []))"

text \<open>A drive that comes back with a broken-flag keeps its container open. When a new drive
  is a LUKS container and \<open>NewDrive\<close> finds a broken-flag of it, the handler of the event
  appends the drive and does nothing else, and its removal does nothing either: it is not
  looked up whether the container is open, so that no mount in it and no mapping is torn down.\<close>

theorem flagged_container_left_alone:
  assumes "ClassifyDevice osi p w = (Inr DeviceTypeLUKS, w1)"
    and "NewDrive h osi p s (Secrets cfg) w = (Inr d, w2)" and "Broken d"
  shows "Handle h osi cfg (DriveAddedEvent p f s) ds w = (Inr (ds @ [d]), w2) \<and>
    Drive_Teardown h osi d w3 = (Inr d, w3)"
proof -
  have n: "newDevice osi p (length (Secrets cfg) > 0) w = (Inr (Some (LUKSDevice p True None [])), w1)"
    using assms(1) by (simp add: newDevice_def bindM_def)
  have dev: "Device d = Some (LUKSDevice p True None [])"
    using assms(2) unfolding NewDrive_def bindM_Inr [where m = "newDevice _ _ _", OF n] Let_def
    by (auto elim!: bindM_InrE dest!: ensure_drive_id_value check_broken_flag_same)
  then have same: "d\<lparr>Device := Some (LUKSDevice p True None [])\<rparr> = d" by (cases d) simp
  have teardown: "teardown_device h osi d x = (Inr d, x)" for x
    by (simp add: teardown_device_def dev LUKS_Close_def bindM_def same)
  have "Drive_Converge h osi d w2 = (Inr d, w2)"
    using assms(3) by (simp add: Drive_Converge_def teardown)
  with assms(2) show ?thesis by (simp add: bindM_def Drive_Teardown_def dev teardown)
qed

theorem flagged_container_left_alone_witness:
  "\<exists>d w2. NewDrive flagged_host (sample_osi (\<lambda>_. DeviceTypeLUKS) (\<lambda>_. Inr [])) ''/dev/sda'' ''A'' (Secrets test_config)
       sample_world = (Inr d, w2) \<and>
     Handle flagged_host (sample_osi (\<lambda>_. DeviceTypeLUKS) (\<lambda>_. Inr [])) test_config
       (DriveAddedEvent ''/dev/sda'' [] ''A'') [] sample_world = (Inr [d], w2)"
proof -
  let ?osi = "sample_osi (\<lambda>_. DeviceTypeLUKS) (\<lambda>_. Inr [])"
  have "case NewDrive flagged_host ?osi ''/dev/sda'' ''A'' (Secrets test_config) sample_world of
      (Inr d, _) \<Rightarrow> Broken d | _ \<Rightarrow> False"
    by code_simp
  then obtain d w2 where n: "NewDrive flagged_host ?osi ''/dev/sda'' ''A'' (Secrets test_config) sample_world = (Inr d, w2)"
    and b: "Broken d" by (auto split: prod.splits sum.splits)
  have "ClassifyDevice ?osi ''/dev/sda'' sample_world = (Inr DeviceTypeLUKS, sample_world)"
    by (simp add: sample_osi_def)
  from flagged_container_left_alone [OF this n b, of "[]" "[]"] n show ?thesis by auto
qed

text \<open>C2: The work of the converger on all drives mounts every healthy drive, whatever happens to the
  others. Suppose that every device and every mount path is allotted to one drive: the mounts and
  mappings that are there, the names of the containers, and the places where the drives belong
  before and after the assignment of swift-ids. When \<open>Converge\<close> returns, on any host, then every
  drive that is not broken is mounted in both namespaces at exactly its place, although other
  drives may have failed half-way, and no mount of a device that belongs to none of the drives has
  changed. (Of a drive that is healthy in the end, only the device at the bottom may be mounted
  beforehand.)\<close>

theorem healthy_drives_all_mounted:
  assumes "mapM (Drive_Converge h (linux_osi h)) ds w = (Inr ds1, w1)"
    and "UpdateDriveAssignments ds1 (SwiftIDPool cfg) (linux_osi h) w1 = (Inr ds2, w2)"
    and "Converge h (linux_osi h) cfg ds w = (Inr ds', w')"
    and "allotting active ready luks_view A w" and "distinct (map DevicePath ds)"
    and "\<forall>d \<in> set ds. drive_within A d \<and> belongs A (dev_mapper (DriveID d)) = DevicePath d"
    and "\<forall>d \<in> set ds \<union> set ds2. \<not> Broken d \<longrightarrow> owns A (DevicePath d) (MountPathAt d [])"
    and "\<forall>d \<in> set ds'. \<not> Broken d \<longrightarrow> lone A (DevicePath d) (bottom d) (active (osst w))"
  shows "(\<forall>d \<in> set ds'. \<not> Broken d \<longrightarrow> drive_mounted (active (osst w')) d) \<and>
    (\<forall>q sc. belongs A q \<notin> DevicePath ` set ds \<longrightarrow>
       mounts_of q (active (osst w') sc) = mounts_of q (active (osst w) sc))"
proof (rule lin.Converge_all_mounted [OF assms(3,1,2,4,5) _ _ assms(7,8)])
  show "\<forall>d \<in> set ds. opens_within (linux_osi h) A (DevicePath d) (DriveID d) (Keys d)"
    using assms(6) by (simp add: linux_opens_within)
qed (use assms(6) in simp)

theorem healthy_drives_all_mounted_witness:
  "\<exists>ds' w'. Converge quiet_host (linux_osi quiet_host) test_config three_drives (linux_world boot_linux) = (Inr ds', w') \<and>
     map Broken ds' = [False, True, False] \<and>
     map MountPath ds' = [''/run/swift-storage/sda'', ''/run/swift-storage/sdb'', ''/run/swift-storage/sdc''] \<and>
     (\<forall>d \<in> set ds'. \<not> Broken d \<longrightarrow> drive_mounted (active (osst w')) d) \<and>
     mounts_of ''/dev/sdz'' (active (osst w') HostScope) = [boot_mount]"
proof -
  obtain ds1 w1 ds2 w2 ds' w' where run:
    "mapM (Drive_Converge quiet_host (linux_osi quiet_host)) three_drives (linux_world boot_linux) = (Inr ds1, w1)"
    "UpdateDriveAssignments ds1 (SwiftIDPool test_config) (linux_osi quiet_host) w1 = (Inr ds2, w2)"
    "Converge quiet_host (linux_osi quiet_host) test_config three_drives (linux_world boot_linux) = (Inr ds', w')"
    "\<forall>d \<in> set three_drives \<union> set ds2. \<not> Broken d \<longrightarrow> owns three_allotted (DevicePath d) (MountPathAt d [])"
    and result: "map Broken ds' = [False, True, False]"
    "map MountPath ds' = [''/run/swift-storage/sda'', ''/run/swift-storage/sdb'', ''/run/swift-storage/sdc'']"
    by (rule three_run)
  have paths: "DevicePath ` set ds' = {''/dev/sda'', ''/dev/sdb'', ''/dev/sdc''}"
    using arg_cong [OF Converge_same [OF run(3)], of set] by (simp add: three_drives_def xfs_drive_def)
  note boot_allotting
  moreover have "\<forall>d \<in> set three_drives. drive_within three_allotted d \<and>
      belongs three_allotted (dev_mapper (DriveID d)) = DevicePath d"
    by code_simp
  moreover have "\<forall>d \<in> set ds'. \<not> Broken d \<longrightarrow>
      lone three_allotted (DevicePath d) (bottom d) (active (osst (linux_world boot_linux)))"
  proof (intro ballI impI boot_lone)
    fix d assume "d \<in> set ds'"
    then have "DevicePath d \<in> DevicePath ` set ds'" by (rule imageI)
    then show "DevicePath d \<noteq> ''/dev/sdz''" unfolding paths by fastforce
  qed
  moreover have "distinct (map DevicePath three_drives)" by code_simp
  ultimately have "(\<forall>d \<in> set ds'. \<not> Broken d \<longrightarrow> drive_mounted (active (osst w')) d) \<and>
    (\<forall>q sc. belongs three_allotted q \<notin> DevicePath ` set three_drives \<longrightarrow>
       mounts_of q (active (osst w') sc) = mounts_of q (active (osst (linux_world boot_linux)) sc))"
    by (intro healthy_drives_all_mounted [OF run(1-3) _ _ _ run(4)])
  then have mounted: "\<forall>d \<in> set ds'. \<not> Broken d \<longrightarrow> drive_mounted (active (osst w')) d"
    and others: "\<And>q sc. belongs three_allotted q \<notin> DevicePath ` set three_drives \<Longrightarrow>
       mounts_of q (active (osst w') sc) = mounts_of q [boot_mount]"
    unfolding boot_active by blast+
  have "belongs three_allotted ''/dev/sdz'' \<notin> DevicePath ` set three_drives" by code_simp
  from others [OF this] have "mounts_of ''/dev/sdz'' (active (osst w') HostScope) = [boot_mount]"
    by (simp add: mounts_of_def boot_mount_def)
  with run(3) result mounted show ?thesis by (intro exI conjI)
qed

end
